(* ===== verification/Go_Prelude.thy ===== *)
theory Go_Prelude
  imports Main "HOL-Library.AList" "HOL-Library.Char_ord" "HOL-Library.List_Lexorder"
    "HOL-Library.Product_Lexorder" "HOL-Library.Multiset"
begin

text \<open>
  The vocabulary every component shares: Go's \<open>(value, error)\<close> returns as sums, Go maps
  as association lists, Go's truncating integer division and its 32-bit wrap-around, the
  string functions of package \<open>strings\<close> the code calls, and the two loops that recur in the
  sources: validating and de-duplicating a list of facts by its identifier, and picking
  the earliest element of a list.
  A Go string is its bytes, so \<open>len\<close> is \<open>length\<close> and \<open><\<close> is the byte-wise
  lexicographic order. A \<open>nil\<close> pointer is \<open>None\<close>.
\<close>

named_theorems go_simps \<open>characteristic equations of the Go primitives\<close>
named_theorems result_splits \<open>case rules for results\<close>

section \<open>Results\<close>

text \<open>\<open>Inl e\<close> is a returned error, \<open>Inr v\<close> the value returned with a nil error.\<close>

type_synonym ('e, 'a) result = "'e + 'a"

definition rbind :: "'e + 'a \<Rightarrow> ('a \<Rightarrow> 'e + 'b) \<Rightarrow> 'e + 'b" where
  "rbind m f = (case m of Inl e \<Rightarrow> Inl e | Inr a \<Rightarrow> f a)"

definition rguard :: "bool \<Rightarrow> 'e \<Rightarrow> 'e + unit" where
  "rguard ok e = (if ok then Inr () else Inl e)"

lemma rbind_simps [simp, go_simps]:
  "rbind (Inl e) f = Inl e"
  "rbind (Inr a) f = f a"
  by (simp_all add: rbind_def)

lemma rguard_simps [simp, go_simps]:
  "rguard True e = Inr ()"
  "rguard False e = Inl e"
  by (simp_all add: rguard_def)

lemma rbind_eq_Inr: "rbind m f = Inr b \<longleftrightarrow> (\<exists>a. m = Inr a \<and> f a = Inr b)"
  by (cases m) simp_all

lemma rbind_eq_Inl: "rbind m f = Inl e \<longleftrightarrow> m = Inl e \<or> (\<exists>a. m = Inr a \<and> f a = Inl e)"
  by (cases m) simp_all

lemma rguard_eq_Inr [simp]: "rguard ok e = Inr u \<longleftrightarrow> ok"
  by (simp add: rguard_def)

lemma rguard_eq_Inl [simp]: "rguard ok e = Inl d \<longleftrightarrow> \<not> ok \<and> d = e"
  by (auto simp: rguard_def)

lemma rbindE:
  assumes "rbind m f = Inr b"
  obtains a where "m = Inr a" and "f a = Inr b"
  using assms by (auto simp: rbind_eq_Inr)

lemma rbind_rguard [simp]: "rbind (rguard ok e) f = (if ok then f () else Inl e)"
  by (simp add: rguard_def)

lemma option_eqI: "(\<And>y. a = Some y \<longleftrightarrow> b = Some y) \<Longrightarrow> a = b"
  by (cases a) (auto, metis option.exhaust)

section \<open>Integers\<close>

text \<open>Go's \<open>/\<close> and \<open>%\<close> truncate towards zero.\<close>

definition go_div :: "int \<Rightarrow> int \<Rightarrow> int" where
  "go_div a b = sgn a * sgn b * (\<bar>a\<bar> div \<bar>b\<bar>)"

definition go_mod :: "int \<Rightarrow> int \<Rightarrow> int" where
  "go_mod a b = a - go_div a b * b"

lemma go_div_nonneg [go_simps]: "0 \<le> a \<Longrightarrow> 0 < b \<Longrightarrow> go_div a b = a div b"
  by (cases "a = 0") (simp_all add: go_div_def)

lemma go_mod_nonneg [go_simps]: "0 \<le> a \<Longrightarrow> 0 < b \<Longrightarrow> go_mod a b = a mod b"
  by (simp add: go_mod_def go_div_nonneg minus_div_mult_eq_mod)

definition MaxInt64 :: int where "MaxInt64 = 9223372036854775807"

definition MaxInt32 :: int where "MaxInt32 = 2147483647"

definition wrap32 :: "int \<Rightarrow> int" where
  "wrap32 x = (x + 2147483648) mod 4294967296 - 2147483648"

lemma wrap32_id: "- 2147483648 \<le> x \<Longrightarrow> x \<le> 2147483647 \<Longrightarrow> wrap32 x = x"
  by (simp add: wrap32_def)

lemma wrap32_range: "- 2147483648 \<le> wrap32 x \<and> wrap32 x \<le> 2147483647"
proof -
  have "0 \<le> (x + 2147483648) mod 4294967296 \<and> (x + 2147483648) mod 4294967296 < 4294967296"
    by simp
  then show ?thesis by (simp add: wrap32_def)
qed

section \<open>Strings\<close>

fun HasPrefix :: "string \<Rightarrow> string \<Rightarrow> bool" where
  "HasPrefix s [] = True"
| "HasPrefix [] (p # ps) = False"
| "HasPrefix (c # s) (p # ps) = (c = p \<and> HasPrefix s ps)"

lemma HasPrefix_iff: "HasPrefix s p \<longleftrightarrow> (\<exists>t. s = p @ t)"
  by (induction s p rule: HasPrefix.induct) auto

definition HasSuffix :: "string \<Rightarrow> string \<Rightarrow> bool" where
  "HasSuffix s p = HasPrefix (rev s) (rev p)"

lemma HasSuffix_iff: "HasSuffix s p \<longleftrightarrow> (\<exists>t. s = t @ p)"
  unfolding HasSuffix_def HasPrefix_iff by (metis rev_append rev_rev_ident)

definition ToLower_char :: "char \<Rightarrow> char" where
  "ToLower_char c = (let n = of_char c :: nat in if 65 \<le> n \<and> n \<le> 90 then char_of (n + 32) else c)"

definition ToUpper_char :: "char \<Rightarrow> char" where
  "ToUpper_char c = (let n = of_char c :: nat in if 97 \<le> n \<and> n \<le> 122 then char_of (n - 32) else c)"

text \<open>\<open>strings.ToLower\<close> and \<open>ToUpper\<close> on the ASCII letters; other bytes are kept.\<close>

definition ToLower :: "string \<Rightarrow> string" where
  "ToLower = map ToLower_char"

definition ToUpper :: "string \<Rightarrow> string" where
  "ToUpper = map ToUpper_char"

text \<open>
  The whole of \<open>strings.ToLower\<close> and \<open>strings.EqualFold\<close> for UTF-8 text that is compared with ASCII
  text: besides the capital letters, U+0130 (capital I with a dot) is lowered to \<open>i\<close> and U+212A
  (the Kelvin sign) to \<open>k\<close>, and folding identifies U+017F (the long s) with \<open>s\<close> and U+212A with
  \<open>k\<close>. No other rune becomes ASCII, so every other byte is kept.
\<close>

function mapped_runes :: "(string \<times> char) list \<Rightarrow> string \<Rightarrow> string" where
  "mapped_runes runes [] = []"
| "mapped_runes runes (c # cs) =
     (case find (\<lambda>(bytes, _). bytes \<noteq> [] \<and> take (length bytes) (c # cs) = bytes) runes of
        Some (bytes, r) \<Rightarrow> r # mapped_runes runes (drop (length bytes - 1) cs)
      | None \<Rightarrow> ToLower_char c # mapped_runes runes cs)"
  by pat_completeness auto
termination
  by (relation "measure (\<lambda>(_, s). length s)") auto

definition lowered :: "string \<Rightarrow> string" where
  "lowered = mapped_runes [([CHR 0xC4, CHR 0xB0], CHR ''i''), ([CHR 0xE2, CHR 0x84, CHR 0xAA], CHR ''k'')]"

definition EqualFold :: "string \<Rightarrow> string \<Rightarrow> bool" where
  "EqualFold a b \<longleftrightarrow>
     (let folded = mapped_runes [([CHR 0xC5, CHR 0xBF], CHR ''s''), ([CHR 0xE2, CHR 0x84, CHR 0xAA], CHR ''k'')]
      in folded a = folded b)"

lemma length_ToLower [simp]: "length (ToLower s) = length s"
  by (simp add: ToLower_def)

lemma length_ToUpper [simp]: "length (ToUpper s) = length s"
  by (simp add: ToUpper_def)

lemma ToLower_char_idem [simp]: "ToLower_char (ToLower_char c) = ToLower_char c"
  by (simp add: ToLower_char_def Let_def of_char_of take_bit_eq_mod)

lemma ToLower_idem [simp]: "ToLower (ToLower s) = ToLower s"
  by (simp add: ToLower_def)

section \<open>Maps\<close>

text \<open>
  A Go map that is ranged over is an association list with distinct keys, read with
  \<^const>\<open>map_of\<close> and written with \<^const>\<open>AList.update\<close>; reading a missing key of a
  \<open>map[string]int64\<close> gives 0.
\<close>

type_synonym 'v gomap = "(string \<times> 'v) list"

definition goget :: "int gomap \<Rightarrow> string \<Rightarrow> int" where
  "goget m k = (case map_of m k of None \<Rightarrow> 0 | Some v \<Rightarrow> v)"

lemma goget_update [simp]: "goget (AList.update k v m) k' = (if k' = k then v else goget m k')"
  by (simp add: goget_def update_conv')

lemma goget_empty [simp]: "goget [] k = 0"
  by (simp add: goget_def)

text \<open>A list indexed by an identifier that is unique in it.\<close>

lemma map_of_index:
  assumes "inj_on f (set xs)"
  shows "map_of (map (\<lambda>x. (f x, x)) xs) k = Some x \<longleftrightarrow> x \<in> set xs \<and> f x = k"
  using assms
proof (induction xs)
  case (Cons y ys)
  show ?case
  proof (cases "f y = k")
    case True
    then have "x \<in> set (y # ys) \<and> f x = k \<longleftrightarrow> x = y"
      using inj_onD[OF Cons.prems, of x y] by auto
    with True show ?thesis by auto
  next
    case False
    with Cons show ?thesis by auto
  qed
qed simp

section \<open>Validated, de-duplicated facts\<close>

text \<open>The first occurrence of every element, in order.\<close>

fun first_occs :: "'a list \<Rightarrow> 'a list" where
  "first_occs [] = []"
| "first_occs (x # xs) = x # filter (\<lambda>y. y \<noteq> x) (first_occs xs)"

lemma set_first_occs [simp]: "set (first_occs xs) = set xs"
  by (induction xs) auto

lemma distinct_first_occs [simp]: "distinct (first_occs xs)"
  by (induction xs) auto

lemma first_occs_distinct: "distinct xs \<Longrightarrow> first_occs xs = xs"
proof (induction xs)
  case (Cons x xs)
  then have "filter (\<lambda>y. y \<noteq> x) xs = xs" by (auto simp: filter_id_conv)
  with Cons show ?case by simp
qed simp

lemma first_occs_idem [simp]: "first_occs (first_occs xs) = first_occs xs"
  by (simp add: first_occs_distinct)

lemma distinct_map_first_occs: "inj_on f (set xs) \<Longrightarrow> distinct (map f (first_occs xs))"
  by (simp add: distinct_map)

lemma mset_first_occs: "mset (first_occs xs) = mset_set (set xs)"
  by (metis distinct_first_occs mset_set_set set_first_occs)

lemma sum_list_first_occs_mset:
  fixes f :: "'a \<Rightarrow> int"
  shows "sum_list (map f (first_occs xs)) = (\<Sum>x\<in>set xs. f x)"
  by (metis distinct_first_occs set_first_occs sum_list_distinct_conv_sum_set)

text \<open>
  The contract of the loop that \<open>cleanGifts\<close> and \<open>donorPeriods\<close> share: an invalid fact, or
  two different facts with one identifier, fail the whole list; a repeated fact is
  skipped; the rest are kept in order, those that \<open>keep\<close> selects.
\<close>

locale fact_dedup =
  fixes valid :: "'a \<Rightarrow> bool"
    and key :: "'a \<Rightarrow> string"
    and keep :: "'a \<Rightarrow> bool"
    and err :: 'e
    and loop :: "(string \<rightharpoonup> 'a) \<Rightarrow> 'a list \<Rightarrow> 'a list \<Rightarrow> 'e + 'a list"
  assumes loop_Nil: "loop seen out [] = Inr out"
    and loop_Cons: "loop seen out (x # xs) =
      (if \<not> valid x then Inl err
       else case seen (key x) of
         Some old \<Rightarrow> if old \<noteq> x then Inl err else loop seen out xs
       | None \<Rightarrow> loop (seen(key x \<mapsto> x)) (if keep x then out @ [x] else out) xs)"
begin

lemma loop_general:
  "loop seen out xs =
     (if (\<forall>x\<in>set xs. valid x \<and> (\<forall>old. seen (key x) = Some old \<longrightarrow> old = x)) \<and> inj_on key (set xs)
      then Inr (out @ filter keep (filter (\<lambda>x. seen (key x) = None) (first_occs xs)))
      else Inl err)"
proof (induction xs arbitrary: seen out)
  case Nil
  then show ?case by (simp add: loop_Nil)
next
  case (Cons x xs)
  show ?case
  proof (cases "valid x")
    case False
    then show ?thesis by (simp add: loop_Cons)
  next
    case valid: True
    show ?thesis
    proof (cases "seen (key x)")
      case (Some old)
      show ?thesis
      proof (cases "old = x")
        case False
        with Some valid show ?thesis by (auto simp: loop_Cons)
      next
        case True
        have "key x \<notin> key ` (set xs - {x})"
          if "\<forall>y\<in>set xs. \<forall>old. seen (key y) = Some old \<longrightarrow> old = y"
          using that Some True by fastforce
        moreover have "filter (\<lambda>y. seen (key y) = None) (filter (\<lambda>y. y \<noteq> x) (first_occs xs)) =
          filter (\<lambda>y. seen (key y) = None) (first_occs xs)"
          using Some by (auto intro: filter_cong)
        ultimately show ?thesis
          using Some True valid by (auto simp: loop_Cons Cons.IH)
      qed
    next
      case None
      let ?seen = "seen(key x \<mapsto> x)"
      have agree: "(\<forall>old. ?seen (key y) = Some old \<longrightarrow> old = y) \<longleftrightarrow>
        (key y = key x \<longrightarrow> y = x) \<and> (\<forall>old. seen (key y) = Some old \<longrightarrow> old = y)" for y
        using None by auto
      have fresh: "key x \<notin> key ` (set xs - {x}) \<longleftrightarrow> (\<forall>y\<in>set xs. key y = key x \<longrightarrow> y = x)"
        by (auto simp: image_iff dest: sym)
      have filt: "filter (\<lambda>y. ?seen (key y) = None) (first_occs xs) =
        filter (\<lambda>y. seen (key y) = None) (filter (\<lambda>y. y \<noteq> x) (first_occs xs))"
        if "\<forall>y\<in>set xs. key y = key x \<longrightarrow> y = x"
        using that by (auto intro!: filter_cong)
      have "loop seen out (x # xs) = loop ?seen (if keep x then out @ [x] else out) xs"
        using None valid by (simp add: loop_Cons)
      also have "\<dots> = (if (\<forall>y\<in>set xs. valid y \<and> (key y = key x \<longrightarrow> y = x) \<and>
            (\<forall>old. seen (key y) = Some old \<longrightarrow> old = y)) \<and> inj_on key (set xs)
        then Inr ((if keep x then out @ [x] else out) @
          filter keep (filter (\<lambda>y. ?seen (key y) = None) (first_occs xs))) else Inl err)"
        by (simp only: Cons.IH agree)
      also have "\<dots> = (if (\<forall>y\<in>set (x # xs). valid y \<and> (\<forall>old. seen (key y) = Some old \<longrightarrow> old = y)) \<and>
            inj_on key (set (x # xs))
        then Inr (out @ filter keep (filter (\<lambda>y. seen (key y) = None) (first_occs (x # xs)))) else Inl err)"
        using None valid filt fresh by (auto simp del: fun_upd_apply)
      finally show ?thesis .
    qed
  qed
qed

lemma loop_start:
  "loop Map.empty [] xs =
     (if (\<forall>x\<in>set xs. valid x) \<and> inj_on key (set xs) then Inr (filter keep (first_occs xs)) else Inl err)"
  by (simp add: loop_general)

end

section \<open>Sorting by a unique key\<close>

text \<open>
  \<open>slices.SortFunc\<close> on a key that identifies its element gives one list whatever the input
  order: two lists with the same elements sort alike.
\<close>

lemma sort_key_mset_cong:
  assumes "mset xs = mset ys" and "inj_on f (set xs)"
  shows "sort_key f xs = sort_key f ys"
  using assms by (intro sort_key_inj_key_eq) auto

end
