(* ===== verification/Go_Time.thy ===== *)
theory Go_Time
  imports Go_Prelude
begin

text \<open>
  Package \<open>time\<close> as the sources use it. A \<open>time.Time\<close> is the instant it denotes, in
  nanoseconds since the zero time (January 1, year 1, UTC), so \<open>IsZero\<close> is equality with
  0 and the comparisons are those of the integers; its location is passed separately
  where the code reads a civil date. A \<open>time.Location\<close> is the list of its offset changes.
  A civil date is its day number (days since January 1, 1970), which \<open>time.Date\<close> and
  \<open>Year\<close>, \<open>Month\<close>, \<open>Day\<close> convert back and forth.
\<close>

type_synonym time = int
type_synonym duration = int

definition Second :: duration where "Second = 1000000000"
definition Minute :: duration where "Minute = 60 * Second"
definition Hour :: duration where "Hour = 60 * Minute"

lemmas duration_defs = Second_def Minute_def Hour_def

definition IsZero :: "time \<Rightarrow> bool" where "IsZero t \<longleftrightarrow> t = 0"

text \<open>\<open>Sub\<close> saturates at the bounds of a 64-bit duration.\<close>

definition time_Sub :: "time \<Rightarrow> time \<Rightarrow> duration" where
  "time_Sub a b = max (- MaxInt64 - 1) (min MaxInt64 (a - b))"

lemma time_Sub_range:
  assumes "- MaxInt64 \<le> d" and "d < MaxInt64"
  shows "d < time_Sub a b \<longleftrightarrow> d < a - b" and "time_Sub a b < d \<longleftrightarrow> a - b < d"
  using assms by (auto simp: time_Sub_def MaxInt64_def)

text \<open>Seconds between the zero time and the Unix epoch.\<close>

definition unix_epoch :: int where "unix_epoch = 62135596800"

definition Unix :: "time \<Rightarrow> int" where "Unix t = t div Second - unix_epoch"

definition Nanosecond :: "time \<Rightarrow> int" where "Nanosecond t = t mod Second"

definition of_unix :: "int \<Rightarrow> time" where "of_unix s = (s + unix_epoch) * Second"

lemma Unix_of_unix [simp]: "Unix (of_unix s) = s"
  by (simp add: Unix_def of_unix_def Second_def)

lemma of_unix_less_iff [simp]: "of_unix a < of_unix b \<longleftrightarrow> a < b"
  by (simp add: of_unix_def Second_def)

lemma of_unix_le_iff [simp]: "of_unix a \<le> of_unix b \<longleftrightarrow> a \<le> b"
  by (simp add: of_unix_def Second_def)

lemma of_unix_eq_iff [simp]: "of_unix a = of_unix b \<longleftrightarrow> a = b"
  by (simp add: of_unix_def Second_def)

lemma of_unix_nonzero: "- unix_epoch < s \<Longrightarrow> of_unix s \<noteq> 0"
  by (simp add: of_unix_def Second_def)

lemma time_split: "t = of_unix (Unix t) + Nanosecond t"
  by (simp add: of_unix_def Unix_def Nanosecond_def)

section \<open>Locations\<close>

text \<open>
  A location is its initial offset east of UTC, in seconds, and the Unix times at which
  another offset takes over. \<open>lookup\<close> gives the offset in force and the bounds of its
  validity, as \<open>Location.lookup\<close> does.
\<close>

datatype location = Location int "(int \<times> int) list"

definition alpha :: int where "alpha = - MaxInt64 - 1"
definition omega :: int where "omega = MaxInt64"

fun zone_lookup :: "int \<Rightarrow> int \<Rightarrow> (int \<times> int) list \<Rightarrow> int \<Rightarrow> int \<times> int \<times> int" where
  "zone_lookup off start [] sec = (off, start, omega)"
| "zone_lookup off start ((t, off') # ts) sec =
     (if sec < t then (off, start, t) else zone_lookup off' t ts sec)"

fun loc_lookup :: "location \<Rightarrow> int \<Rightarrow> int \<times> int \<times> int" where
  "loc_lookup (Location off ts) sec = zone_lookup off alpha ts sec"

definition loc_offset :: "location \<Rightarrow> int \<Rightarrow> int" where
  "loc_offset loc sec = fst (loc_lookup loc sec)"

definition UTC :: location where "UTC = Location 0 []"

text \<open>The civil date of an instant in a location.\<close>

definition civil_date :: "location \<Rightarrow> time \<Rightarrow> int" where
  "civil_date loc t = (Unix t + loc_offset loc (Unix t)) div 86400"

text \<open>
  \<open>time.Date(y, m, d, 0, 0, 0, 0, loc)\<close> for the date with day number \<open>d\<close>: the date is read
  as UTC first, and the offset found there is looked up again when the resulting instant
  falls outside its validity.
\<close>

definition Date_midnight :: "location \<Rightarrow> int \<Rightarrow> time" where
  "Date_midnight loc d =
     (let unix = d * 86400; (off, start, stop) = loc_lookup loc unix
      in if off = 0 then of_unix unix
         else let utc = unix - off
              in of_unix (unix - (if utc < start \<or> stop \<le> utc then loc_offset loc utc else off)))"

text \<open>
  Local midnight exists on day \<open>d\<close>: the offset \<open>time.Date\<close> settles on is the one in force at
  the instant it returns. A zone that springs forward at midnight lacks it that day.
\<close>

definition has_midnight :: "location \<Rightarrow> int \<Rightarrow> bool" where
  "has_midnight loc d \<longleftrightarrow>
     Unix (Date_midnight loc d) + loc_offset loc (Unix (Date_midnight loc d)) = d * 86400"

lemma civil_date_midnight: "has_midnight loc d \<Longrightarrow> civil_date loc (Date_midnight loc d) = d"
  by (simp add: has_midnight_def civil_date_def)

lemma has_midnight_UTC: "has_midnight UTC d"
  by (simp add: has_midnight_def Date_midnight_def UTC_def loc_offset_def)

text \<open>
  A location is calm when its changes are at least two days apart, its offsets are below a day,
  and no change skips a local midnight: no date begins between the wall clock before a change
  and the one after it. In a calm location every date has its midnight.
\<close>

fun calm_zone :: "int \<Rightarrow> (int \<times> int) list \<Rightarrow> bool" where
  "calm_zone off [] = (\<bar>off\<bar> < 86400)"
| "calm_zone off ((t, off') # ts) =
     (\<bar>off\<bar> < 86400 \<and> (off' \<le> off \<or> (t + off - 1) div 86400 = (t + off' - 1) div 86400) \<and>
      (case ts of [] \<Rightarrow> True | (t', _) # _ \<Rightarrow> t + 2 * 86400 \<le> t') \<and> calm_zone off' ts)"

fun calm :: "location \<Rightarrow> bool" where
  "calm (Location off ts) = calm_zone off ts"

lemma calm_zone_offset: "calm_zone off ts \<Longrightarrow> \<bar>fst (zone_lookup off start ts s)\<bar> < 86400"
  by (induction off start ts s rule: zone_lookup.induct) (auto split: if_splits)

lemma calm_zone_near:
  assumes "case ts of [] \<Rightarrow> True | (t', _) # _ \<Rightarrow> t + 2 * 86400 \<le> t'" and "s < t + 2 * 86400"
  shows "fst (zone_lookup off start ts s) = off"
  using assms by (cases ts) auto

text \<open>A midnight that is past a change on the old clock is past it on the new one.\<close>

lemma calm_gap:
  assumes "off' \<le> off \<or> (t + off - 1) div 86400 = (t + off' - 1) div 86400" and "t + off \<le> d * 86400"
  shows "t + off' \<le> d * (86400 :: int)"
proof (cases "off' \<le> off")
  case False
  have "(t + off - 1) div 86400 < d" using assms(2) by (simp add: div_less_iff_less_mult)
  then have "(t + off' - 1) div 86400 < d" using assms(1) False by simp
  then show ?thesis by (simp add: div_less_iff_less_mult)
qed (use assms(2) in simp)

text \<open>The second lookup of \<open>time.Date\<close> gives the offset in force at the instant it returns.\<close>

lemma offset_settles:
  fixes off start d :: int and ts :: "(int \<times> int) list"
  assumes "calm_zone off ts"
  defines "f \<equiv> \<lambda>s. fst (zone_lookup off start ts s)"
  shows "f (d * 86400 - f (d * 86400 - f (d * 86400))) = f (d * 86400 - f (d * 86400))"
  using assms(1) unfolding f_def
proof (induction ts arbitrary: off start)
  case (Cons p ts)
  obtain t off' where p: "p = (t, off')" by (cases p)
  define g where "g s = fst (zone_lookup off' t ts s)" for s
  let ?D = "d * 86400"
  have calm: "calm_zone off' ts" and far: "case ts of [] \<Rightarrow> True | (t', _) # _ \<Rightarrow> t + 2 * 86400 \<le> t'"
    and small: "\<bar>off\<bar> < 86400" and past: "t + off \<le> ?D \<Longrightarrow> t + off' \<le> ?D"
    using Cons.prems calm_gap[of off' off t d] by (auto simp: p)
  have gap: "?D - off < t \<or> t \<le> ?D - off'" using past by linarith
  have near: "g s = off'" if "s < t + 2 * 86400" for s
    unfolding g_def by (rule calm_zone_near[OF far that])
  have bound: "\<bar>g s\<bar> < 86400" for s using calm_zone_offset[OF calm] by (simp add: g_def)
  have f: "fst (zone_lookup off start (p # ts) s) = (if s < t then off else g s)" for s by (simp add: p g_def)
  have IH: "g (?D - g (?D - g ?D)) = g (?D - g ?D)" using Cons.IH[OF calm] by (simp add: g_def)
  show ?case
  proof (cases "?D < t")
    case True
    then show ?thesis unfolding f using gap near[of "?D - off"] near[of "?D - off'"] small bound[of t] near[of t] by auto
  next
    case False
    show ?thesis
    proof (cases "?D - g ?D < t")
      case True
      then have "g ?D = off'" using bound[of ?D] by (intro near) linarith
      then show ?thesis unfolding f using True False gap by auto
    next
      case below: False
      have "?D - g (?D - g ?D) \<ge> t"
      proof (rule ccontr)
        assume "\<not> ?thesis"
        then have "?D < t + 86400" using bound[of "?D - g ?D"] by linarith
        then have "g ?D = off'" "g (?D - g ?D) = off'" using bound[of ?D] by (auto intro!: near)
        with below \<open>\<not> ?thesis\<close> show False by simp
      qed
      then show ?thesis unfolding f using False below IH by simp
    qed
  qed
qed simp

lemma zone_lookup_start: "calm_zone off ts \<Longrightarrow> zone_lookup off t ts s = (o1, a, b) \<Longrightarrow> case ts of [] \<Rightarrow> True | (t', _) # _ \<Rightarrow> t \<le> t' \<Longrightarrow> t \<le> a"
  by (induction off t ts s rule: zone_lookup.induct) (auto split: if_splits list.splits)

lemma zone_lookup_within:
  "calm_zone off ts \<Longrightarrow> zone_lookup off start ts s = (o1, a, b) \<Longrightarrow> a \<le> u \<Longrightarrow> u < b \<Longrightarrow> fst (zone_lookup off start ts u) = o1"
proof (induction off start ts s rule: zone_lookup.induct)
  case (2 off start t off' ts sec)
  then show ?case using zone_lookup_start[of off' ts t sec o1 a b]
    by (auto split: if_splits list.splits)
qed auto

lemma Date_midnight_settles:
  assumes "calm loc"
  defines "f \<equiv> loc_offset loc"
  shows "Date_midnight loc d = of_unix (d * 86400 - f (d * 86400 - f (d * 86400)))"
proof (cases loc)
  case (Location off ts)
  obtain o1 a b where at: "zone_lookup off alpha ts (d * 86400) = (o1, a, b)" by (metis prod_cases3)
  then have "f (d * 86400) = o1" by (simp add: f_def loc_offset_def Location)
  moreover from this have "f (d * 86400 - o1) = o1" if "a \<le> d * 86400 - o1" "d * 86400 - o1 < b"
    using zone_lookup_within[OF _ at that] assms(1) by (simp add: f_def loc_offset_def Location)
  ultimately show ?thesis
    using at by (auto simp: Date_midnight_def Location f_def Let_def)
qed

lemma calm_midnight:
  assumes "calm loc"
  shows "has_midnight loc d"
proof -
  obtain off ts where loc: "loc = Location off ts" by (cases loc)
  have "loc_offset loc (d * 86400 - loc_offset loc (d * 86400 - loc_offset loc (d * 86400))) =
      loc_offset loc (d * 86400 - loc_offset loc (d * 86400))"
    using offset_settles[of off ts alpha d] assms by (simp add: loc_offset_def loc)
  then show ?thesis by (simp add: has_midnight_def Date_midnight_settles[OF assms])
qed

text \<open>
  America/New_York, where the callers read their days, with its changes of 2024 to 2031: 07:00 UTC on
  the second Sunday of March and 06:00 UTC on the first of November.
\<close>

definition New_York :: location where
  "New_York = Location (- 18000)
    [(1710054000, - 14400), (1730613600, - 18000), (1741503600, - 14400), (1762063200, - 18000),
     (1772953200, - 14400), (1793512800, - 18000), (1805007600, - 14400), (1825567200, - 18000),
     (1836457200, - 14400), (1857016800, - 18000), (1867906800, - 14400), (1888466400, - 18000),
     (1899356400, - 14400), (1919916000, - 18000), (1930806000, - 14400), (1951365600, - 18000)]"

lemma New_York_midnight: "has_midnight New_York d"
proof (rule calm_midnight)
  show "calm New_York" by code_simp
qed

text \<open>
  \<open>AddDate(0, 0, n)\<close> keeps the wall clock of the instant: it is \<open>time.Date\<close> on the date \<open>n\<close> days
  on, with the clock read in the location.
\<close>

definition local_clock :: "location \<Rightarrow> time \<Rightarrow> int" where
  "local_clock loc t = (Unix t + loc_offset loc (Unix t)) mod 86400"

definition Date_at :: "location \<Rightarrow> int \<Rightarrow> int \<Rightarrow> int \<Rightarrow> time" where
  "Date_at loc d clock ns =
     (let unix = d * 86400 + clock; (off, start, stop) = loc_lookup loc unix
      in if off = 0 then of_unix unix + ns
         else let utc = unix - off
              in of_unix (unix - (if utc < start \<or> stop \<le> utc then loc_offset loc utc else off)) + ns)"

definition AddDays :: "location \<Rightarrow> time \<Rightarrow> int \<Rightarrow> time" where
  "AddDays loc t n = Date_at loc (civil_date loc t + n) (local_clock loc t) (Nanosecond t)"

lemma local_clock_midnight: "has_midnight loc d \<Longrightarrow> local_clock loc (Date_midnight loc d) = 0"
  by (simp add: local_clock_def has_midnight_def)

lemma Nanosecond_of_unix [simp]: "Nanosecond (of_unix s) = 0"
  by (simp add: Nanosecond_def of_unix_def)

lemma Date_midnight_unix: "\<exists>s. Date_midnight loc d = of_unix s"
  by (auto simp: Date_midnight_def Let_def split: prod.splits)

lemma Date_at_midnight: "Date_at loc d 0 0 = Date_midnight loc d"
  by (cases "loc_lookup loc (d * 86400)") (simp add: Date_at_def Date_midnight_def Let_def)

lemma AddDays_midnight:
  assumes "has_midnight loc d"
  shows "AddDays loc (Date_midnight loc d) n = Date_midnight loc (d + n)"
proof -
  have "local_clock loc (Date_midnight loc d) = 0" using assms by (rule local_clock_midnight)
  moreover have "Nanosecond (Date_midnight loc d) = 0" using Date_midnight_unix[of loc d] by auto
  ultimately show ?thesis
    by (simp only: AddDays_def civil_date_midnight[OF assms] Date_at_midnight)
qed

end
