(* ===== verification/Recognition.thy ===== *)
theory Recognition
  imports Go_Time
begin

text \<open>
  Package \<open>recognition\<close> (internal/recognition/recognition.go): the donor recognition that is
  computed from verified financial facts. The theory has the package's data, its
  validation of gifts and refunds, the net amounts, the first-gift attribution and the
  founding award, in the order of the source, each with the reference it is proved equal
  to. The giving streak and its ladder follow in the theory Giving_Streak.
\<close>

section \<open>Data\<close>

datatype rec_error = ErrInvalid | ErrIncomplete

definition Grace :: duration where "Grace = 7 * 24 * Hour"

text \<open>January 1, 2027, 00:00 in New York, five hours behind UTC on that day.\<close>

definition FoundingCutoff :: time where "FoundingCutoff = of_unix 1798779600"

record candidate =
  c_ReferrerID :: string
  c_Kind :: string
  c_ExpiresAt :: time

record gift =
  g_ID :: string
  g_DonorID :: string
  g_Amount :: int
  g_PaidAt :: time
  g_Frequency :: string
  g_Candidate :: "candidate option"
  g_PeriodID :: string
  g_Currency :: string

record refund =
  r_ID :: string
  r_GiftID :: string
  r_Amount :: int
  r_Status :: string
  r_UpdatedAt :: time
  r_Currency :: string

record period =
  p_ID :: string
  p_DonorID :: string
  p_DueAt :: time
  p_EndsAt :: time
  p_Status :: string

record relationship =
  rel_DonorID :: string
  rel_FirstGiftID :: string
  rel_ReferrerID :: "string option"
  rel_Kind :: "string option"

record streak =
  s_Current :: int
  s_Best :: int
  s_AtRisk :: bool
  s_GraceEndsAt :: "time option"
  s_Since :: "time option"

definition empty_streak :: streak where
  "empty_streak = \<lparr>s_Current = 0, s_Best = 0, s_AtRisk = False, s_GraceEndsAt = None, s_Since = None\<rparr>"

text \<open>\<open>utc\<close> drops the monotonic clock and the location: the instant is unchanged.\<close>

definition utc :: "time \<Rightarrow> time" where "utc t = t"

lemma utc_id [simp]: "utc t = t"
  by (simp add: utc_def)

section \<open>Gifts\<close>

definition candidate_valid :: "candidate option \<Rightarrow> bool" where
  "candidate_valid c = (case c of None \<Rightarrow> True
     | Some c \<Rightarrow> \<not> (c_ReferrerID c = [] \<or> (c_Kind c \<noteq> ''LINK'' \<and> c_Kind c \<noteq> ''IRL'') \<or> IsZero (c_ExpiresAt c)))"

definition gift_valid :: "gift \<Rightarrow> bool" where
  "gift_valid g \<longleftrightarrow>
     \<not> (g_ID g = [] \<or> g_DonorID g = [] \<or> g_Amount g \<le> 0 \<or> g_Currency g \<noteq> ''USD'' \<or> IsZero (g_PaidAt g)
        \<or> (g_Frequency g \<noteq> ''MONTHLY'' \<and> g_Frequency g \<noteq> ''ONE_TIME'')
        \<or> (g_Frequency g = ''ONE_TIME'' \<and> g_PeriodID g \<noteq> []))
     \<and> candidate_valid (g_Candidate g)"

fun cleanGifts_loop :: "(string \<rightharpoonup> gift) \<Rightarrow> gift list \<Rightarrow> gift list \<Rightarrow> rec_error + gift list" where
  "cleanGifts_loop seen result [] = Inr result"
| "cleanGifts_loop seen result (g # input) =
     (if \<not> gift_valid g then Inl ErrInvalid
      else let g = g\<lparr>g_PaidAt := utc (g_PaidAt g),
                      g_Candidate := map_option (\<lambda>c. c\<lparr>c_ExpiresAt := utc (c_ExpiresAt c)\<rparr>) (g_Candidate g)\<rparr>
      in case seen (g_ID g) of
           Some old \<Rightarrow> if old \<noteq> g then Inl ErrInvalid else cleanGifts_loop seen result input
         | None \<Rightarrow> cleanGifts_loop (seen(g_ID g \<mapsto> g)) (result @ [g]) input)"

definition cleanGifts :: "gift list \<Rightarrow> rec_error + gift list" where
  "cleanGifts input = cleanGifts_loop Map.empty [] input"

section \<open>Net amounts\<close>

definition refund_statuses :: "string list" where
  "refund_statuses = [''PENDING'', ''REQUIRES_ACTION'', ''SUCCEEDED'', ''FAILED'', ''CANCELED'']"

definition refund_valid :: "refund \<Rightarrow> bool" where
  "refund_valid r \<longleftrightarrow>
     \<not> (r_ID r = [] \<or> r_Amount r \<le> 0 \<or> r_Currency r \<noteq> ''USD'' \<or> IsZero (r_UpdatedAt r))
     \<and> r_Status r \<in> set refund_statuses"

fun NetGifts_paid :: "time \<Rightarrow> int gomap \<Rightarrow> gift list \<Rightarrow> int gomap" where
  "NetGifts_paid asOf net [] = net"
| "NetGifts_paid asOf net (g # gifts) =
     NetGifts_paid asOf (if g_PaidAt g > asOf then net else AList.update (g_ID g) (g_Amount g) net) gifts"

fun NetGifts_refunds ::
  "(string \<rightharpoonup> gift) \<Rightarrow> time \<Rightarrow> (string \<rightharpoonup> refund) \<Rightarrow> int gomap \<Rightarrow> refund list \<Rightarrow> rec_error + int gomap" where
  "NetGifts_refunds byID asOf seen net [] = Inr net"
| "NetGifts_refunds byID asOf seen net (r # refunds) =
     (if \<not> refund_valid r then Inl ErrInvalid
      else let r = r\<lparr>r_UpdatedAt := utc (r_UpdatedAt r)\<rparr>
      in case seen (r_ID r) of
           Some old \<Rightarrow> if old \<noteq> r then Inl ErrInvalid else NetGifts_refunds byID asOf seen net refunds
         | None \<Rightarrow>
             (case byID (r_GiftID r) of
                None \<Rightarrow> Inl ErrInvalid
              | Some g \<Rightarrow>
                  if r_UpdatedAt r > asOf \<or> r_UpdatedAt r < g_PaidAt g \<or> r_Amount r > g_Amount g
                  then Inl ErrInvalid
                  else if r_Status r = ''SUCCEEDED''
                  then if goget net (g_ID g) < r_Amount r then Inl ErrInvalid
                       else NetGifts_refunds byID asOf (seen(r_ID r \<mapsto> r))
                              (AList.update (g_ID g) (goget net (g_ID g) - r_Amount r) net) refunds
                  else NetGifts_refunds byID asOf (seen(r_ID r \<mapsto> r)) net refunds))"

definition NetGifts :: "gift list \<Rightarrow> refund list \<Rightarrow> time \<Rightarrow> rec_error + int gomap" where
  "NetGifts input refunds asOf =
     (if IsZero asOf then Inl ErrInvalid
      else rbind (cleanGifts input) (\<lambda>gifts.
        NetGifts_refunds (map_of (map (\<lambda>g. (g_ID g, g)) gifts)) asOf Map.empty
          (NetGifts_paid asOf [] gifts) refunds))"

section \<open>Attribution of the first gift\<close>

fun Relationships_loop :: "time \<Rightarrow> relationship gomap \<Rightarrow> gift list \<Rightarrow> relationship gomap" where
  "Relationships_loop asOf result [] = result"
| "Relationships_loop asOf result (g # gifts) =
     (if map_of result (g_DonorID g) \<noteq> None \<or> g_PaidAt g > asOf
      then Relationships_loop asOf result gifts
      else let r = \<lparr>rel_DonorID = g_DonorID g, rel_FirstGiftID = g_ID g, rel_ReferrerID = None, rel_Kind = None\<rparr>;
               r = (case g_Candidate g of
                      Some c \<Rightarrow> if c_ReferrerID c \<noteq> g_DonorID g \<and> g_PaidAt g < c_ExpiresAt c
                                then r\<lparr>rel_ReferrerID := Some (c_ReferrerID c), rel_Kind := Some (c_Kind c)\<rparr>
                                else r
                    | None \<Rightarrow> r)
           in Relationships_loop asOf (AList.update (g_DonorID g) r result) gifts)"

text \<open>Gifts are taken by payment time, then identifier.\<close>

definition gift_order :: "gift \<Rightarrow> time \<times> string" where
  "gift_order g = (g_PaidAt g, g_ID g)"

definition Relationships :: "gift list \<Rightarrow> time \<Rightarrow> rec_error + relationship gomap" where
  "Relationships input asOf =
     (if IsZero asOf then Inl ErrInvalid
      else rbind (cleanGifts input) (\<lambda>gifts. Inr (Relationships_loop asOf [] (sort_key gift_order gifts))))"

section \<open>The founding award\<close>

fun Founding_loop :: "string \<Rightarrow> time \<Rightarrow> time \<Rightarrow> gift list \<Rightarrow> time" where
  "Founding_loop donorID asOf first [] = first"
| "Founding_loop donorID asOf first (g # gifts) =
     Founding_loop donorID asOf
       (if g_DonorID g = donorID \<and> \<not> g_PaidAt g > asOf \<and> g_PaidAt g < FoundingCutoff
           \<and> (IsZero first \<or> g_PaidAt g < first)
        then g_PaidAt g else first) gifts"

definition FoundingQualifiedAt :: "gift list \<Rightarrow> string \<Rightarrow> time \<Rightarrow> rec_error + (time \<times> bool)" where
  "FoundingQualifiedAt input donorID asOf =
     (if IsZero asOf then Inl ErrInvalid
      else rbind (cleanGifts input) (\<lambda>gifts.
        let first = Founding_loop donorID asOf 0 gifts in Inr (first, \<not> IsZero first)))"

section \<open>Validated facts\<close>

interpretation gifts: fact_dedup gift_valid g_ID "\<lambda>_. True" ErrInvalid cleanGifts_loop
  by unfold_locales (simp_all add: Let_def option.map_ident)

lemma cleanGifts_eq:
  "cleanGifts input =
     (if (\<forall>g\<in>set input. gift_valid g) \<and> inj_on g_ID (set input) then Inr (first_occs input) else Inl ErrInvalid)"
  by (simp add: cleanGifts_def gifts.loop_start)

lemma cleanGifts_clean: "cleanGifts input = Inr gifts \<Longrightarrow> cleanGifts gifts = Inr gifts"
  by (auto simp: cleanGifts_eq split: if_splits)

section \<open>The reference of the net amounts\<close>

text \<open>The reference: what the succeeded refunds of a gift add up to, each refund counted once.\<close>

definition refunded :: "refund list \<Rightarrow> string \<Rightarrow> int" where
  "refunded refunds k =
     (\<Sum>r\<leftarrow>first_occs refunds. if r_Status r = ''SUCCEEDED'' \<and> r_GiftID r = k then r_Amount r else 0)"

text \<open>A refund belongs to a gift it does not exceed, observed between its payment and now.\<close>

definition refund_fits :: "(string \<rightharpoonup> gift) \<Rightarrow> time \<Rightarrow> refund \<Rightarrow> bool" where
  "refund_fits byID asOf r = (case byID (r_GiftID r) of None \<Rightarrow> False
     | Some g \<Rightarrow> g_PaidAt g \<le> r_UpdatedAt r \<and> r_UpdatedAt r \<le> asOf \<and> r_Amount r \<le> g_Amount g)"

definition open_refunded :: "(string \<rightharpoonup> refund) \<Rightarrow> refund list \<Rightarrow> string \<Rightarrow> int" where
  "open_refunded seen rs k =
     (\<Sum>r\<leftarrow>filter (\<lambda>r. seen (r_ID r) = None) (first_occs rs).
        if r_Status r = ''SUCCEEDED'' \<and> r_GiftID r = k then r_Amount r else 0)"

lemma open_refunded_nonneg: "(\<And>r. r \<in> set rs \<Longrightarrow> refund_valid r) \<Longrightarrow> 0 \<le> open_refunded seen rs k"
  unfolding open_refunded_def by (rule sum_list_nonneg) (force simp: refund_valid_def)

lemma open_refunded_Nil [simp]: "open_refunded seen [] k = 0"
  by (simp add: open_refunded_def)

lemma open_refunded_seen:
  assumes "seen (r_ID r) = Some r"
  shows "open_refunded seen (r # rs) k = open_refunded seen rs k"
proof -
  have "filter (\<lambda>y. seen (r_ID y) = None) (filter (\<lambda>y. y \<noteq> r) (first_occs rs)) =
    filter (\<lambda>y. seen (r_ID y) = None) (first_occs rs)"
    using assms by (auto intro: filter_cong)
  with assms show ?thesis by (simp add: open_refunded_def)
qed

lemma open_refunded_fresh:
  assumes "seen (r_ID r) = None" and "\<forall>y\<in>set rs. r_ID y = r_ID r \<longrightarrow> y = r"
  shows "open_refunded seen (r # rs) k =
    (if r_Status r = ''SUCCEEDED'' \<and> r_GiftID r = k then r_Amount r else 0)
    + open_refunded (seen(r_ID r \<mapsto> r)) rs k"
proof -
  have "filter (\<lambda>y. seen (r_ID y) = None) (filter (\<lambda>y. y \<noteq> r) (first_occs rs)) =
    filter (\<lambda>y. (seen(r_ID r \<mapsto> r)) (r_ID y) = None) (first_occs rs)"
    using assms(2) by (auto intro: filter_cong)
  with assms(1) show ?thesis by (simp add: open_refunded_def del: fun_upd_apply)
qed

definition rest_ok ::
  "(string \<rightharpoonup> gift) \<Rightarrow> time \<Rightarrow> (string \<rightharpoonup> refund) \<Rightarrow> int gomap \<Rightarrow> refund list \<Rightarrow> bool" where
  "rest_ok byID asOf seen net rs \<longleftrightarrow>
     (\<forall>r\<in>set rs. refund_valid r \<and> (\<forall>old. seen (r_ID r) = Some old \<longrightarrow> old = r)
        \<and> (seen (r_ID r) = None \<longrightarrow> refund_fits byID asOf r))
     \<and> inj_on r_ID (set rs) \<and> (\<forall>k. open_refunded seen rs k \<le> goget net k)"

definition rest_net :: "(string \<rightharpoonup> refund) \<Rightarrow> int gomap \<Rightarrow> refund list \<Rightarrow> string \<Rightarrow> int option" where
  "rest_net seen net rs k =
     (if open_refunded seen rs k = 0 then map_of net k else Some (goget net k - open_refunded seen rs k))"


lemma refund_fits_Some:
  "refund_fits byID asOf r \<Longrightarrow> \<exists>g. byID (r_GiftID r) = Some g \<and> \<not> asOf < r_UpdatedAt r
     \<and> \<not> r_UpdatedAt r < g_PaidAt g \<and> \<not> g_Amount g < r_Amount r"
  by (auto simp: refund_fits_def split: option.splits)

lemma rest_ok_seen:
  assumes "seen (r_ID r) = Some r" and "refund_valid r"
  shows "rest_ok byID asOf seen net (r # rs) = rest_ok byID asOf seen net rs"
proof -
  have "r_ID r \<notin> r_ID ` (set rs - {r})" if "\<forall>y\<in>set rs. \<forall>old. seen (r_ID y) = Some old \<longrightarrow> old = y"
    using that assms(1) by fastforce
  with assms show ?thesis by (auto simp: rest_ok_def open_refunded_seen)
qed

lemma rest_ok_fresh:
  assumes "seen (r_ID r) = None" and "refund_valid r" and "refund_fits byID asOf r"
    and amount: "amt = (if r_Status r = ''SUCCEEDED'' then r_Amount r else 0)"
    and nn: "\<And>k. 0 \<le> goget net k"
  shows "rest_ok byID asOf seen net (r # rs) \<longleftrightarrow> amt \<le> goget net (r_GiftID r) \<and>
    rest_ok byID asOf (seen(r_ID r \<mapsto> r))
      (if r_Status r = ''SUCCEEDED'' then AList.update (r_GiftID r) (goget net (r_GiftID r) - amt) net else net) rs"
    (is "?L \<longleftrightarrow> _ \<and> rest_ok byID asOf ?seen ?net rs")
proof -
  have agree: "(\<forall>old. ?seen (r_ID y) = Some old \<longrightarrow> old = y) \<longleftrightarrow>
      (r_ID y = r_ID r \<longrightarrow> y = r) \<and> (\<forall>old. seen (r_ID y) = Some old \<longrightarrow> old = y)"
    and fits: "(?seen (r_ID y) = None \<longrightarrow> refund_fits byID asOf y) \<longleftrightarrow>
      (r_ID y \<noteq> r_ID r \<longrightarrow> seen (r_ID y) = None \<longrightarrow> refund_fits byID asOf y)" for y
    using assms(1) by auto
  have inj: "inj_on r_ID (set (r # rs)) \<longleftrightarrow> inj_on r_ID (set rs) \<and> (\<forall>y\<in>set rs. r_ID y = r_ID r \<longrightarrow> y = r)"
    by (auto simp: image_iff dest: sym)
  have sums: "(\<forall>k. open_refunded seen (r # rs) k \<le> goget net k) \<longleftrightarrow>
      amt \<le> goget net (r_GiftID r) \<and> (\<forall>k. open_refunded ?seen rs k \<le> goget ?net k)"
    if v: "\<forall>y\<in>set rs. refund_valid y" and u: "\<forall>y\<in>set rs. r_ID y = r_ID r \<longrightarrow> y = r"
  proof -
    let ?d = "\<lambda>k. if k = r_GiftID r then amt else 0"
    have total: "open_refunded seen (r # rs) k = ?d k + open_refunded ?seen rs k" for k
      using open_refunded_fresh[of seen r rs, OF assms(1) u] by (simp add: amount del: fun_upd_apply)
    have net: "goget ?net k = goget net k - ?d k" for k
      by (simp add: amount)
    have "amt \<le> goget net (r_GiftID r)" if "\<forall>k. ?d k + open_refunded ?seen rs k \<le> goget net k"
      using spec[OF that, of "r_GiftID r"] open_refunded_nonneg[of rs ?seen "r_GiftID r"] v by simp
    then show ?thesis
      unfolding total net by (auto simp: algebra_simps simp del: fun_upd_apply)
  qed
  have "?L \<longleftrightarrow> (\<forall>y\<in>set rs. refund_valid y \<and> (r_ID y = r_ID r \<longrightarrow> y = r)
      \<and> (\<forall>old. seen (r_ID y) = Some old \<longrightarrow> old = y)
      \<and> (r_ID y \<noteq> r_ID r \<longrightarrow> seen (r_ID y) = None \<longrightarrow> refund_fits byID asOf y))
      \<and> inj_on r_ID (set rs) \<and> (\<forall>k. open_refunded seen (r # rs) k \<le> goget net k)"
    unfolding rest_ok_def inj using assms(1-3) by auto
  also have "\<dots> \<longleftrightarrow> amt \<le> goget net (r_GiftID r) \<and> rest_ok byID asOf ?seen ?net rs"
    unfolding rest_ok_def agree fits using sums by blast
  finally show ?thesis .
qed

lemma rest_net_fresh:
  assumes "seen (r_ID r) = None" and "refund_valid r" and "\<forall>y\<in>set rs. r_ID y = r_ID r \<longrightarrow> y = r"
    and "\<forall>y\<in>set rs. refund_valid y"
    and amount: "amt = (if r_Status r = ''SUCCEEDED'' then r_Amount r else 0)"
  shows "rest_net (seen(r_ID r \<mapsto> r))
      (if r_Status r = ''SUCCEEDED'' then AList.update (r_GiftID r) (goget net (r_GiftID r) - amt) net else net) rs
    = rest_net seen net (r # rs)"
proof
  fix k
  have "0 \<le> open_refunded (seen(r_ID r \<mapsto> r)) rs k" "0 < r_Amount r"
    using assms(2,4) by (auto intro: open_refunded_nonneg simp: refund_valid_def)
  then show "rest_net (seen(r_ID r \<mapsto> r))
      (if r_Status r = ''SUCCEEDED'' then AList.update (r_GiftID r) (goget net (r_GiftID r) - amt) net else net) rs k
    = rest_net seen net (r # rs) k"
    unfolding rest_net_def open_refunded_fresh[of seen r rs, OF assms(1,3)] amount
    by (auto simp: update_conv')
qed


lemma NetGifts_refunds_eq:
  assumes "\<And>k. 0 \<le> goget net k" and "\<And>k g. byID k = Some g \<Longrightarrow> g_ID g = k"
  shows "map_sum id map_of (NetGifts_refunds byID asOf seen net rs) =
    (if rest_ok byID asOf seen net rs then Inr (rest_net seen net rs) else Inl ErrInvalid)"
  using assms(1)
proof (induction rs arbitrary: seen net)
  case Nil
  then show ?case by (auto simp: rest_ok_def rest_net_def)
next
  case (Cons r rs)
  consider (invalid) "\<not> refund_valid r" | (seen) old where "refund_valid r" "seen (r_ID r) = Some old"
    | (misfit) "refund_valid r" "seen (r_ID r) = None" "\<not> refund_fits byID asOf r"
    | (fresh) "refund_valid r" "seen (r_ID r) = None" "refund_fits byID asOf r" by blast
  then show ?case
  proof cases
    case invalid
    then show ?thesis by (simp add: rest_ok_def)
  next
    case seen
    show ?thesis
    proof (cases "old = r")
      case True
      with seen have "seen (r_ID r) = Some r" by simp
      then have "rest_net seen net (r # rs) = rest_net seen net rs"
        by (simp add: rest_net_def open_refunded_seen fun_eq_iff)
      with seen True show ?thesis using Cons.IH[OF Cons.prems, of seen]
        by (simp add: rest_ok_seen)
    next
      case False
      with seen show ?thesis by (auto simp: rest_ok_def)
    qed
  next
    case misfit
    then show ?thesis by (auto simp: rest_ok_def refund_fits_def Let_def split: option.splits)
  next
    case fresh
    then obtain g where g: "byID (r_GiftID r) = Some g" "g_ID g = r_GiftID r"
      and ok: "\<not> asOf < r_UpdatedAt r" "\<not> r_UpdatedAt r < g_PaidAt g" "\<not> g_Amount g < r_Amount r"
      using refund_fits_Some assms(2) by blast
    define amt where "amt = (if r_Status r = ''SUCCEEDED'' then r_Amount r else 0)"
    define net' where "net' = (if r_Status r = ''SUCCEEDED''
      then AList.update (r_GiftID r) (goget net (r_GiftID r) - amt) net else net)"
    let ?seen = "seen(r_ID r \<mapsto> r)"
    have step: "NetGifts_refunds byID asOf seen net (r # rs) =
      (if amt \<le> goget net (r_GiftID r) then NetGifts_refunds byID asOf ?seen net' rs else Inl ErrInvalid)"
      using fresh g ok Cons.prems by (simp add: amt_def net'_def Let_def not_less)
    have okeq: "rest_ok byID asOf seen net (r # rs) \<longleftrightarrow>
      amt \<le> goget net (r_GiftID r) \<and> rest_ok byID asOf ?seen net' rs"
      unfolding net'_def by (rule rest_ok_fresh[of seen r byID asOf, OF fresh(2,1,3) amt_def]) (rule Cons.prems)
    show ?thesis
    proof (cases "amt \<le> goget net (r_GiftID r)")
      case False
      with step okeq show ?thesis by simp
    next
      case True
      then have nn: "\<And>k. 0 \<le> goget net' k" using Cons.prems by (simp add: net'_def)
      have "rest_net ?seen net' rs = rest_net seen net (r # rs)" if "rest_ok byID asOf ?seen net' rs"
        unfolding net'_def using that
        by (intro rest_net_fresh[of seen r rs amt net, OF fresh(2,1) _ _ amt_def]) (auto simp: rest_ok_def split: if_splits)
      with True okeq Cons.IH[OF nn, of ?seen] show ?thesis
        unfolding step by (simp del: NetGifts_refunds.simps fun_upd_apply)
    qed
  qed
qed

lemma NetGifts_paid_late:
  "(\<forall>g\<in>set gifts. g_ID g = k \<longrightarrow> asOf < g_PaidAt g) \<Longrightarrow> map_of (NetGifts_paid asOf net gifts) k = map_of net k"
  by (induction gifts arbitrary: net) (auto simp: update_conv')

lemma NetGifts_paid_known:
  "inj_on g_ID (set gifts) \<Longrightarrow> g \<in> set gifts \<Longrightarrow> g_PaidAt g \<le> asOf \<Longrightarrow>
   map_of (NetGifts_paid asOf net gifts) (g_ID g) = Some (g_Amount g)"
proof (induction gifts arbitrary: net)
  case (Cons h gifts)
  show ?case
  proof (cases "g \<in> set gifts")
    case True
    with Cons show ?thesis by simp
  next
    case False
    with Cons.prems have "h = g" by simp
    moreover have "\<forall>g'\<in>set gifts. g_ID g' \<noteq> g_ID g"
      using Cons.prems(1) False \<open>h = g\<close> by (auto simp: image_iff dest: sym)
    ultimately show ?thesis using Cons.prems(3)
      by (subst NetGifts_paid.simps, subst NetGifts_paid_late) (auto simp: update_conv')
  qed
qed simp

text \<open>
  The reference semantics of \<open>NetGifts\<close>: which facts are accepted, as a condition on the
  sets of gifts and refunds, and the net amount of every gift paid by \<open>asOf\<close>.
\<close>

definition net_facts_ok :: "gift list \<Rightarrow> refund list \<Rightarrow> time \<Rightarrow> bool" where
  "net_facts_ok gifts refunds asOf \<longleftrightarrow>
     \<not> IsZero asOf \<and> (\<forall>g\<in>set gifts. gift_valid g) \<and> inj_on g_ID (set gifts)
     \<and> (\<forall>r\<in>set refunds. refund_valid r \<and> (\<exists>g\<in>set gifts. g_ID g = r_GiftID r
          \<and> g_PaidAt g \<le> r_UpdatedAt r \<and> r_UpdatedAt r \<le> asOf \<and> r_Amount r \<le> g_Amount g))
     \<and> inj_on r_ID (set refunds) \<and> (\<forall>g\<in>set gifts. refunded refunds (g_ID g) \<le> g_Amount g)"

definition net_amounts :: "gift list \<Rightarrow> refund list \<Rightarrow> time \<Rightarrow> string \<Rightarrow> int option" where
  "net_amounts gifts refunds asOf k =
     (case find (\<lambda>g. g_ID g = k \<and> g_PaidAt g \<le> asOf) gifts of
        None \<Rightarrow> None | Some g \<Rightarrow> Some (g_Amount g - refunded refunds k))"


lemma refunded_open: "open_refunded Map.empty rs = refunded rs"
  by (simp add: open_refunded_def refunded_def fun_eq_iff)

lemma refunded_foreign: "(\<forall>r\<in>set rs. r_GiftID r \<noteq> k) \<Longrightarrow> refunded rs k = 0"
  unfolding refunded_def by (subst map_cong[OF refl, where g = "\<lambda>_. 0"]) (auto simp: sum_list_0)

lemma refunded_nonneg: "(\<And>r. r \<in> set rs \<Longrightarrow> refund_valid r) \<Longrightarrow> 0 \<le> refunded rs k"
  using open_refunded_nonneg[of rs Map.empty k] by (simp add: refunded_open)

lemma goget_paid:
  assumes "inj_on g_ID (set gifts)" and "g \<in> set gifts"
  shows "map_of (NetGifts_paid asOf [] gifts) (g_ID g) = (if g_PaidAt g \<le> asOf then Some (g_Amount g) else None)"
proof (cases "g_PaidAt g \<le> asOf")
  case False
  then have "\<forall>h\<in>set gifts. g_ID h = g_ID g \<longrightarrow> asOf < g_PaidAt h"
    using inj_onD[OF assms(1) _ _ assms(2)] by fastforce
  with False show ?thesis by (simp add: NetGifts_paid_late)
qed (use assms in \<open>simp add: NetGifts_paid_known\<close>)

lemma paid_unknown: "k \<notin> g_ID ` set gifts \<Longrightarrow> map_of (NetGifts_paid asOf [] gifts) k = None"
  by (subst NetGifts_paid_late) auto


lemma refund_fits_index:
  assumes inj: "inj_on g_ID (set gifts)"
  shows "refund_fits (map_of (map (\<lambda>g. (g_ID g, g)) gifts)) asOf r \<longleftrightarrow>
    (\<exists>g\<in>set gifts. g_ID g = r_GiftID r
      \<and> g_PaidAt g \<le> r_UpdatedAt r \<and> r_UpdatedAt r \<le> asOf \<and> r_Amount r \<le> g_Amount g)"
proof (cases "map_of (map (\<lambda>g. (g_ID g, g)) gifts) (r_GiftID r)")
  case None
  then have "r_GiftID r \<notin> g_ID ` set gifts" by (simp add: map_of_eq_None_iff image_image)
  then have "\<forall>g\<in>set gifts. g_ID g \<noteq> r_GiftID r" by (auto simp: image_iff)
  with None show ?thesis by (simp add: refund_fits_def)
next
  case (Some g)
  then have g: "g \<in> set gifts" "g_ID g = r_GiftID r" by (simp_all add: map_of_index[OF inj])
  have "h = g" if "h \<in> set gifts" "g_ID h = r_GiftID r" for h
    using inj_onD[OF inj, of h g] that g by simp
  with g have "(\<exists>h\<in>set gifts. g_ID h = r_GiftID r \<and> Q h) \<longleftrightarrow> Q g" for Q by metis
  with Some show ?thesis by (simp add: refund_fits_def)
qed

lemma start_ok:
  assumes valid: "\<forall>g\<in>set gifts. gift_valid g" and inj: "inj_on g_ID (set gifts)"
  shows "rest_ok (map_of (map (\<lambda>g. (g_ID g, g)) gifts)) asOf Map.empty (NetGifts_paid asOf [] gifts) rs \<longleftrightarrow>
    (\<forall>r\<in>set rs. refund_valid r \<and> (\<exists>g\<in>set gifts. g_ID g = r_GiftID r
          \<and> g_PaidAt g \<le> r_UpdatedAt r \<and> r_UpdatedAt r \<le> asOf \<and> r_Amount r \<le> g_Amount g))
     \<and> inj_on r_ID (set rs) \<and> (\<forall>g\<in>set gifts. refunded rs (g_ID g) \<le> g_Amount g)"
  (is "_ \<longleftrightarrow> ?fit \<and> _ \<and> ?total")
proof -
  let ?net = "NetGifts_paid asOf [] gifts"
  have totals: "(\<forall>k. refunded rs k \<le> goget ?net k) \<longleftrightarrow> ?total" if fit: ?fit
  proof
    assume *: "\<forall>k. refunded rs k \<le> goget ?net k"
    show ?total
    proof
      fix g assume g: "g \<in> set gifts"
      with valid have "0 < g_Amount g" by (auto simp: gift_valid_def)
      with *[rule_format, of "g_ID g"] show "refunded rs (g_ID g) \<le> g_Amount g"
        by (simp add: goget_def goget_paid[OF inj g] split: if_splits)
    qed
  next
    assume *: ?total
    show "\<forall>k. refunded rs k \<le> goget ?net k"
    proof
      fix k
      have nn: "0 \<le> goget ?net k"
      proof (cases "k \<in> g_ID ` set gifts")
        case True
        with valid show ?thesis by (auto simp: goget_def goget_paid[OF inj] gift_valid_def)
      qed (simp add: goget_def paid_unknown)
      show "refunded rs k \<le> goget ?net k"
      proof (cases "\<exists>r\<in>set rs. r_GiftID r = k")
        case True
        then obtain g where "g \<in> set gifts" "g_ID g = k" "g_PaidAt g \<le> asOf"
          using fit by fastforce
        with * show ?thesis using goget_paid[OF inj, of g asOf] by (auto simp: goget_def)
      qed (use nn in \<open>simp add: refunded_foreign\<close>)
    qed
  qed
  show ?thesis
    unfolding rest_ok_def refund_fits_index[OF inj] refunded_open using totals by auto
qed


lemma net_amounts_alt:
  assumes "inj_on g_ID (set gifts)"
  shows "net_amounts gifts refunds asOf k =
    map_option (\<lambda>a. a - refunded refunds k) (map_of (NetGifts_paid asOf [] gifts) k)"
proof (cases "find (\<lambda>g. g_ID g = k \<and> g_PaidAt g \<le> asOf) gifts")
  case None
  then have "\<forall>g\<in>set gifts. g_ID g = k \<longrightarrow> asOf < g_PaidAt g" by (auto simp: find_None_iff)
  with None show ?thesis by (simp add: net_amounts_def NetGifts_paid_late)
next
  case (Some g)
  then have "g \<in> set gifts \<and> g_ID g = k \<and> g_PaidAt g \<le> asOf"
    by (auto simp: find_Some_iff)
  with Some show ?thesis using goget_paid[OF assms, of g asOf] by (auto simp: net_amounts_def)
qed

lemma rest_net_start:
  assumes "rest_ok byID asOf Map.empty net refunds"
  shows "rest_net Map.empty net refunds k = map_option (\<lambda>a. a - refunded refunds k) (map_of net k)"
proof (cases "map_of net k")
  case None
  with assms have "refunded refunds k \<le> 0" "0 \<le> refunded refunds k"
    using refunded_nonneg[of refunds k] by (auto simp: rest_ok_def refunded_open goget_def dest: spec[of _ k])
  then have "refunded refunds k = 0" by simp
  with None show ?thesis by (simp add: rest_net_def refunded_open)
qed (simp add: rest_net_def refunded_open goget_def)

lemma net_amounts_first_occs: "net_amounts (first_occs gifts) = net_amounts gifts"
proof -
  have "find P (filter (\<lambda>y. y \<noteq> x) zs) = find P zs" if "\<not> P x" for P :: "gift \<Rightarrow> bool" and x zs
    using that by (induction zs) auto
  then have "find P (first_occs gifts) = find P gifts" for P
    by (induction gifts) auto
  then show ?thesis by (simp add: net_amounts_def fun_eq_iff)
qed

lemma NetGifts_reference:
  "map_sum id map_of (NetGifts gifts refunds asOf) =
     (if net_facts_ok gifts refunds asOf then Inr (net_amounts gifts refunds asOf) else Inl ErrInvalid)"
proof (cases "\<not> IsZero asOf \<and> (\<forall>g\<in>set gifts. gift_valid g) \<and> inj_on g_ID (set gifts)")
  case False
  then show ?thesis by (auto simp: NetGifts_def cleanGifts_eq net_facts_ok_def)
next
  case True
  let ?clean = "first_occs gifts"
  let ?byID = "map_of (map (\<lambda>g. (g_ID g, g)) ?clean)" and ?net = "NetGifts_paid asOf [] ?clean"
  have inj: "inj_on g_ID (set ?clean)" and valid: "\<forall>g\<in>set ?clean. gift_valid g" using True by simp_all
  have "0 \<le> goget ?net k" for k
  proof (cases "k \<in> g_ID ` set ?clean")
    case True
    with valid show ?thesis by (auto simp: goget_def goget_paid[OF inj] gift_valid_def)
  qed (simp add: goget_def paid_unknown)
  moreover have "\<And>k g. ?byID k = Some g \<Longrightarrow> g_ID g = k" by (simp add: map_of_index[OF inj])
  ultimately have "map_sum id map_of (NetGifts_refunds ?byID asOf Map.empty ?net refunds) =
    (if rest_ok ?byID asOf Map.empty ?net refunds then Inr (rest_net Map.empty ?net refunds) else Inl ErrInvalid)"
    by (rule NetGifts_refunds_eq)
  moreover have "rest_ok ?byID asOf Map.empty ?net refunds \<longleftrightarrow> net_facts_ok gifts refunds asOf"
    unfolding start_ok[OF valid inj] using True by (simp add: net_facts_ok_def)
  moreover have "rest_net Map.empty ?net refunds = net_amounts gifts refunds asOf"
    if "rest_ok ?byID asOf Map.empty ?net refunds"
    using rest_net_start[OF that] net_amounts_alt[OF inj] by (simp add: net_amounts_first_occs fun_eq_iff)
  ultimately show ?thesis
    using True by (simp add: NetGifts_def cleanGifts_eq)
qed

lemma find_unique:
  assumes "inj_on f (set xs)"
  shows "find (\<lambda>x. f x = k \<and> P x) xs = Some y \<longleftrightarrow> y \<in> set xs \<and> f y = k \<and> P y"
  using assms
proof (induction xs)
  case (Cons x xs)
  have "y = x" if "f x = k" "y \<in> set (x # xs)" "f y = k"
    using inj_onD[OF Cons.prems, of y x] that by simp
  with Cons show ?case by (cases "f x = k \<and> P x") auto
qed simp

text \<open>
  C5. \<open>NetGifts\<close> is exact: it returns a map precisely when every gift is valid and their
  identifiers are unique, every refund is valid, unique, matches a gift, is dated between
  its payment and now, and the succeeded refunds of no gift exceed it; the map then holds
  for every gift paid by \<open>asOf\<close>, and for no other identifier, the amount less its
  succeeded refunds, each counted once. Otherwise it returns \<open>ErrInvalid\<close>.
\<close>

theorem NetGifts_exact:
  "map_sum id map_of (NetGifts gifts refunds asOf) =
     (if net_facts_ok gifts refunds asOf then Inr (net_amounts gifts refunds asOf) else Inl ErrInvalid)"
  by (rule NetGifts_reference)

text \<open>
  C7. The result of \<open>NetGifts\<close> does not depend on the order in which gifts and refunds arrive, nor
  on how often a redelivered fact is repeated: it is a function of the two sets.
\<close>

theorem NetGifts_order_independent:
  assumes "set gifts = set gifts'" and "set refunds = set refunds'"
  shows "map_sum id map_of (NetGifts gifts refunds asOf) = map_sum id map_of (NetGifts gifts' refunds' asOf)"
proof -
  have total: "refunded refunds = refunded refunds'"
    by (rule ext) (simp only: refunded_def sum_list_first_occs_mset assms(2))
  have "net_amounts gifts refunds asOf k = net_amounts gifts' refunds' asOf k" if "inj_on g_ID (set gifts)" for k
  proof -
    have "find (\<lambda>g. g_ID g = k \<and> g_PaidAt g \<le> asOf) xs = Some g \<longleftrightarrow> g \<in> set gifts \<and> g_ID g = k \<and> g_PaidAt g \<le> asOf"
      if "set xs = set gifts" for xs g
      using find_unique[of g_ID xs] \<open>inj_on g_ID (set gifts)\<close> that by simp
    then have "find (\<lambda>g. g_ID g = k \<and> g_PaidAt g \<le> asOf) gifts = find (\<lambda>g. g_ID g = k \<and> g_PaidAt g \<le> asOf) gifts'"
      using assms(1) by (intro option_eqI) simp
    then show ?thesis by (simp only: net_amounts_def total)
  qed
  then show ?thesis
    unfolding NetGifts_reference by (auto simp: net_facts_ok_def assms total fun_eq_iff)
qed


section \<open>Sample facts\<close>

definition sample_gift :: "string \<Rightarrow> string \<Rightarrow> int \<Rightarrow> time \<Rightarrow> string \<Rightarrow> gift" where
  "sample_gift i d amount paid period = \<lparr>g_ID = i, g_DonorID = d, g_Amount = amount, g_PaidAt = paid,
     g_Frequency = (if period = [] then ''ONE_TIME'' else ''MONTHLY''), g_Candidate = None,
     g_PeriodID = period, g_Currency = ''USD''\<rparr>"

definition sample_refund :: "string \<Rightarrow> string \<Rightarrow> int \<Rightarrow> time \<Rightarrow> refund" where
  "sample_refund i g amount at = \<lparr>r_ID = i, r_GiftID = g, r_Amount = amount, r_Status = ''SUCCEEDED'',
     r_UpdatedAt = at, r_Currency = ''USD''\<rparr>"

theorem NetGifts_order_independent_witness:
  "map_sum id map_of (NetGifts [sample_gift ''g1'' ''d1'' 5 10 [], sample_gift ''g2'' ''d1'' 7 20 []] [sample_refund ''r'' ''g2'' 3 25] 30)
   = map_sum id map_of (NetGifts [sample_gift ''g2'' ''d1'' 7 20 [], sample_gift ''g1'' ''d1'' 5 10 [], sample_gift ''g1'' ''d1'' 5 10 []]
       [sample_refund ''r'' ''g2'' 3 25, sample_refund ''r'' ''g2'' 3 25] 30)"
  by (rule NetGifts_order_independent) auto

section \<open>The reference of the attribution\<close>

definition attribution :: "gift \<Rightarrow> relationship" where
  "attribution g =
     (let credited = (case g_Candidate g of None \<Rightarrow> None
        | Some c \<Rightarrow> if c_ReferrerID c \<noteq> g_DonorID g \<and> g_PaidAt g < c_ExpiresAt c then Some c else None)
      in \<lparr>rel_DonorID = g_DonorID g, rel_FirstGiftID = g_ID g,
          rel_ReferrerID = map_option c_ReferrerID credited, rel_Kind = map_option c_Kind credited\<rparr>)"

definition first_gift :: "gift list \<Rightarrow> string \<Rightarrow> time \<Rightarrow> gift \<Rightarrow> bool" where
  "first_gift gifts donorID asOf g \<longleftrightarrow>
     g \<in> set gifts \<and> g_DonorID g = donorID \<and> g_PaidAt g \<le> asOf
     \<and> (\<forall>h\<in>set gifts. g_DonorID h = donorID \<and> g_PaidAt h \<le> asOf \<longrightarrow> gift_order g \<le> gift_order h)"

lemma Relationships_loop_find:
  "map_of (Relationships_loop asOf result gifts) d =
     (case map_of result d of Some r \<Rightarrow> Some r
      | None \<Rightarrow> map_option attribution (find (\<lambda>g. g_DonorID g = d \<and> g_PaidAt g \<le> asOf) gifts))"
proof (induction gifts arbitrary: result)
  case (Cons g gifts)
  have "Relationships_loop asOf result (g # gifts) =
    (if map_of result (g_DonorID g) \<noteq> None \<or> g_PaidAt g > asOf then Relationships_loop asOf result gifts
     else Relationships_loop asOf (AList.update (g_DonorID g) (attribution g) result) gifts)"
    by (simp add: attribution_def Let_def split: option.splits)
  with Cons.IH show ?case
    by (auto simp: update_conv' split: option.splits simp del: Relationships_loop.simps)
qed (simp split: option.splits)

lemma find_sorted_key:
  assumes "sorted (map f xs)" and "inj_on f (set xs)"
  shows "find P xs = Some x \<longleftrightarrow> x \<in> set xs \<and> P x \<and> (\<forall>y\<in>set xs. P y \<longrightarrow> f x \<le> f y)"
  using assms
proof (induction xs)
  case (Cons z zs)
  have least: "f z \<le> f y" if "y \<in> set zs" for y using Cons.prems(1) that by simp
  have "x = z" if "x \<in> set zs" "f x \<le> f z"
    using least[OF that(1)] that Cons.prems(2) by (auto dest: inj_onD[where x = x and y = z])
  with least Cons show ?case by (cases "P z") auto
qed simp

lemma gift_order_inj: "inj_on g_ID A \<Longrightarrow> inj_on gift_order A"
  unfolding inj_on_def gift_order_def by blast

lemma find_first_gift:
  assumes "inj_on g_ID (set gifts)"
  shows "find (\<lambda>g. g_DonorID g = d \<and> g_PaidAt g \<le> asOf) (sort_key gift_order (first_occs gifts)) = Some g \<longleftrightarrow>
    first_gift gifts d asOf g"
proof -
  have "inj_on gift_order (set (sort_key gift_order (first_occs gifts)))"
    using gift_order_inj[OF assms] by simp
  from find_sorted_key[OF sorted_sort_key this] show ?thesis
    by (auto simp: first_gift_def)
qed

text \<open>
  C8. \<open>Relationships\<close> keeps exactly one relationship per donor with a gift paid by \<open>asOf\<close>: the
  one of the donor's earliest gift (by payment time, then identifier), whatever the order
  in which the facts arrive, crediting its candidate exactly when the referrer is somebody
  else and the candidacy had not expired at the payment.
\<close>

theorem Relationships_first_gift:
  assumes "Relationships input asOf = Inr result"
  shows "map_of result d = Some rel \<longleftrightarrow> (\<exists>g. first_gift input d asOf g \<and> rel = attribution g)"
proof -
  from assms have inj: "inj_on g_ID (set input)"
    and result: "result = Relationships_loop asOf [] (sort_key gift_order (first_occs input))"
    by (auto simp: Relationships_def cleanGifts_eq split: if_splits)
  show ?thesis
    unfolding result Relationships_loop_find by (auto simp: find_first_gift[OF inj])
qed

theorem Relationships_first_gift_witness:
  "map_of [(''d1'', attribution (sample_gift ''g1'' ''d1'' 5 10 []))] ''d1'' = Some (attribution (sample_gift ''g1'' ''d1'' 5 10 [])) \<longleftrightarrow>
   (\<exists>g. first_gift [sample_gift ''g2'' ''d1'' 5 20 [], sample_gift ''g1'' ''d1'' 5 10 []] ''d1'' 30 g \<and>
     attribution (sample_gift ''g1'' ''d1'' 5 10 []) = attribution g)"
  by (rule Relationships_first_gift) code_simp

section \<open>The reference of the founding award\<close>

definition founding_gifts :: "gift list \<Rightarrow> string \<Rightarrow> time \<Rightarrow> gift list" where
  "founding_gifts gifts donorID asOf =
     filter (\<lambda>g. g_DonorID g = donorID \<and> g_PaidAt g \<le> asOf \<and> g_PaidAt g < FoundingCutoff) gifts"

lemma Founding_loop_least:
  assumes "\<forall>g\<in>set gifts. g_PaidAt g \<noteq> 0" and "t = Founding_loop donorID asOf first gifts"
  shows "t \<in> insert first (g_PaidAt ` set (founding_gifts gifts donorID asOf))"
    and "first \<noteq> 0 \<Longrightarrow> t \<noteq> 0 \<and> t \<le> first"
    and "\<forall>g\<in>set (founding_gifts gifts donorID asOf). t \<noteq> 0 \<and> t \<le> g_PaidAt g"
  using assms
proof (induction gifts arbitrary: first)
  case (Cons g gifts)
  {
    case 1
    with Cons.IH(1) show ?case by (fastforce simp: founding_gifts_def split: if_splits)
  next
    case 2
    with Cons.IH(2) show ?case by (fastforce simp: IsZero_def split: if_splits)
  next
    case 3
    then show ?case using Cons.IH(2,3)
      by (fastforce simp: founding_gifts_def IsZero_def not_less split: if_splits)
  }
qed (simp_all add: founding_gifts_def)

text \<open>
  C9. \<open>FoundingQualifiedAt\<close> awards the founding badge exactly when the donor has a gift paid by
  \<open>asOf\<close> and before the cutoff, and dates it at the earliest such payment; refunds and the
  order of the facts have no say in it.
\<close>

theorem FoundingQualifiedAt_earliest:
  assumes "FoundingQualifiedAt input donorID asOf = Inr (t, ok)"
  shows "(ok \<longleftrightarrow> founding_gifts input donorID asOf \<noteq> []) \<and>
    (ok \<longrightarrow> t = Min (g_PaidAt ` set (founding_gifts input donorID asOf)))"
proof -
  let ?F = "set (founding_gifts input donorID asOf)"
  have F: "set (founding_gifts (first_occs input) donorID asOf) = ?F" by (simp add: founding_gifts_def)
  from assms have t: "t = Founding_loop donorID asOf 0 (first_occs input)" and ok: "ok \<longleftrightarrow> t \<noteq> 0"
    and "\<forall>g\<in>set input. gift_valid g"
    by (auto simp: FoundingQualifiedAt_def cleanGifts_eq Let_def IsZero_def split: if_splits)
  then have nz: "\<forall>g\<in>set (first_occs input). g_PaidAt g \<noteq> 0" by (auto simp: gift_valid_def IsZero_def)
  note least = Founding_loop_least[OF nz t, unfolded F]
  have "ok \<longleftrightarrow> founding_gifts input donorID asOf \<noteq> []"
    unfolding ok using least(1,3) by (cases "founding_gifts input donorID asOf") auto
  moreover have "t = Min (g_PaidAt ` ?F)" if ok
  proof (rule Min_eqI[symmetric])
    show "t \<in> g_PaidAt ` ?F" using least(1) that ok by simp
  qed (use least(3) in auto)
  ultimately show ?thesis by blast
qed

theorem FoundingQualifiedAt_earliest_witness:
  "(True \<longleftrightarrow> founding_gifts [sample_gift ''g2'' ''d1'' 5 20 [], sample_gift ''g1'' ''d1'' 5 10 []] ''d1'' 30 \<noteq> []) \<and>
   10 = Min (g_PaidAt ` set (founding_gifts [sample_gift ''g2'' ''d1'' 5 20 [], sample_gift ''g1'' ''d1'' 5 10 []] ''d1'' 30))"
proof -
  have "FoundingQualifiedAt [sample_gift ''g2'' ''d1'' 5 20 [], sample_gift ''g1'' ''d1'' 5 10 []] ''d1'' 30 = Inr (10, True)"
    by code_simp
  from FoundingQualifiedAt_earliest[OF this] show ?thesis by simp
qed

end
