(* ===== verification/Giving_Streak.thy ===== *)
theory Giving_Streak
  imports Recognition "HOL-Library.Sublist"
begin

text \<open>
  The second half of package \<open>recognition\<close> (internal/recognition/recognition.go): the billing
  periods of a donor, the giving streak counted over them and the streak ladder. The
  references below state what the counting loop computes as longest runs of periods, and
  what the ladder shows as neighbouring rungs.
\<close>

section \<open>The giving streak\<close>

definition period_valid :: "period \<Rightarrow> bool" where
  "period_valid p \<longleftrightarrow>
     (let duration = time_Sub (p_EndsAt p) (p_DueAt p)
      in \<not> (p_ID p = [] \<or> p_DonorID p = [] \<or> IsZero (p_DueAt p) \<or> IsZero (p_EndsAt p)
            \<or> duration < 27 * 24 * Hour \<or> duration > 32 * 24 * Hour
            \<or> (p_Status p \<noteq> ''EXPECTED'' \<and> p_Status p \<noteq> ''FAILED'')))"

fun donorPeriods_loop ::
  "string \<Rightarrow> (string \<rightharpoonup> period) \<Rightarrow> period list \<Rightarrow> period list \<Rightarrow> rec_error + period list" where
  "donorPeriods_loop donorID seen periods [] = Inr periods"
| "donorPeriods_loop donorID seen periods (p # input) =
     (if \<not> period_valid p then Inl ErrInvalid
      else let p = p\<lparr>p_DueAt := utc (p_DueAt p), p_EndsAt := utc (p_EndsAt p)\<rparr>
      in case seen (p_ID p) of
           Some old \<Rightarrow> if old \<noteq> p then Inl ErrInvalid else donorPeriods_loop donorID seen periods input
         | None \<Rightarrow> donorPeriods_loop donorID (seen(p_ID p \<mapsto> p))
                     (if p_DonorID p = donorID then periods @ [p] else periods) input)"

fun overlapping :: "period list \<Rightarrow> bool" where
  "overlapping (p # q # ps) = (p_EndsAt p > p_DueAt q \<or> overlapping (q # ps))"
| "overlapping ps = False"

definition donorPeriods :: "period list \<Rightarrow> string \<Rightarrow> rec_error + period list" where
  "donorPeriods input donorID =
     rbind (donorPeriods_loop donorID Map.empty [] input) (\<lambda>periods.
       let periods = sort_key p_DueAt periods
       in if overlapping periods then Inl ErrInvalid else Inr periods)"

definition pget :: "gift list gomap \<Rightarrow> string \<Rightarrow> gift list" where
  "pget m k = (case map_of m k of None \<Rightarrow> [] | Some gs \<Rightarrow> gs)"

fun periodPayments_loop ::
  "int gomap \<Rightarrow> string set \<Rightarrow> string \<Rightarrow> gift list gomap \<Rightarrow> gift list \<Rightarrow> rec_error + gift list gomap" where
  "periodPayments_loop net known donorID result [] = Inr result"
| "periodPayments_loop net known donorID result (g # gifts) =
     (if g_DonorID g \<noteq> donorID \<or> g_Frequency g \<noteq> ''MONTHLY''
      then periodPayments_loop net known donorID result gifts
      else if map_of net (g_ID g) = None then periodPayments_loop net known donorID result gifts
      else if g_PeriodID g \<notin> known then Inl ErrIncomplete
      else periodPayments_loop net known donorID
             (AList.update (g_PeriodID g) (pget result (g_PeriodID g) @ [g]) result) gifts)"

definition periodPayments ::
  "gift list \<Rightarrow> int gomap \<Rightarrow> period list \<Rightarrow> string \<Rightarrow> rec_error + gift list gomap" where
  "periodPayments gifts net periods donorID =
     periodPayments_loop net (set (map p_ID periods)) donorID [] gifts"

fun renewalBoundaries_loop :: "time set \<Rightarrow> time list \<Rightarrow> rec_error + time set" where
  "renewalBoundaries_loop stopped [] = Inr stopped"
| "renewalBoundaries_loop stopped (t # stops) =
     (if IsZero t then Inl ErrInvalid else renewalBoundaries_loop (insert (utc t) stopped) stops)"

definition renewalBoundaries :: "time list \<Rightarrow> rec_error + time set" where
  "renewalBoundaries stops = renewalBoundaries_loop {} stops"

text \<open>The earliest payment of a period that is not wholly refunded, zero when there is none.\<close>

fun earliest_paid :: "int gomap \<Rightarrow> time \<Rightarrow> gift list \<Rightarrow> time" where
  "earliest_paid net paid [] = paid"
| "earliest_paid net paid (g # gifts) =
     earliest_paid net
       (if goget net (g_ID g) > 0 \<and> (IsZero paid \<or> g_PaidAt g < paid) then g_PaidAt g else paid) gifts"

type_synonym count_state = "streak \<times> time \<times> time"

definition countStreak_step ::
  "gift list gomap \<Rightarrow> int gomap \<Rightarrow> time \<Rightarrow> time set \<Rightarrow> count_state \<Rightarrow> period \<Rightarrow> count_state" where
  "countStreak_step payments net asOf stopped st p =
     (let (result, last, lastPaid) = st;
          result = (if last \<in> stopped \<or> last \<noteq> p_DueAt p
                    then result\<lparr>s_Current := 0, s_Since := None\<rparr> else result);
          paid = earliest_paid net 0 (pget payments (p_ID p));
          result = result\<lparr>s_AtRisk := False, s_GraceEndsAt := None\<rparr>;
          deadline = p_DueAt p + Grace
      in if \<not> IsZero paid then
           let result = (if \<not> paid < deadline \<or> (\<not> IsZero lastPaid \<and> paid < lastPaid)
                         then result\<lparr>s_Current := 0\<rparr> else result);
               result = (if s_Current result = 0 then result\<lparr>s_Since := Some (p_DueAt p)\<rparr> else result);
               result = result\<lparr>s_Current := s_Current result + 1\<rparr>
           in (result\<lparr>s_Best := max (s_Best result) (s_Current result)\<rparr>, p_EndsAt p, paid)
         else if pget payments (p_ID p) \<noteq> [] \<or> \<not> asOf < deadline then
           (result\<lparr>s_Current := 0, s_Since := None\<rparr>, p_EndsAt p, 0)
         else if s_Current result > 0 then
           (result\<lparr>s_AtRisk := True, s_GraceEndsAt := Some deadline\<rparr>, p_EndsAt p, lastPaid)
         else (result, p_EndsAt p, lastPaid))"

definition countStreak ::
  "period list \<Rightarrow> gift list gomap \<Rightarrow> int gomap \<Rightarrow> time \<Rightarrow> time set \<Rightarrow> streak" where
  "countStreak elapsed payments net asOf stopped =
     fst (foldl (countStreak_step payments net asOf stopped) (empty_streak, 0, 0) elapsed)"

definition GivingStreak ::
  "gift list \<Rightarrow> refund list \<Rightarrow> period list \<Rightarrow> string \<Rightarrow> time \<Rightarrow> int \<Rightarrow> time list \<Rightarrow> rec_error + streak" where
  "GivingStreak input refunds inputPeriods donorID asOf previousBest stops =
     (if previousBest < 0 then Inl ErrInvalid
      else rbind (cleanGifts input) (\<lambda>gifts.
        rbind (NetGifts gifts refunds asOf) (\<lambda>net.
        rbind (donorPeriods inputPeriods donorID) (\<lambda>periods.
        rbind (periodPayments gifts net periods donorID) (\<lambda>paid.
        rbind (renewalBoundaries stops) (\<lambda>stopped.
          let elapsed = filter (\<lambda>p. \<not> p_DueAt p > asOf) periods
          in if elapsed = [] then Inr (empty_streak\<lparr>s_Best := previousBest\<rparr>)
             else let next_due = p_EndsAt (last elapsed);
                      ended = next_due \<in> stopped;
                      renewalDue = (\<not> next_due > asOf)
                  in if renewalDue \<and> \<not> ended \<and> \<not> asOf < next_due + Grace then Inl ErrIncomplete
                     else let result = countStreak elapsed paid net asOf stopped;
                              result = result\<lparr>s_Best := max previousBest (s_Best result)\<rparr>
                          in Inr (if renewalDue \<and> ended
                                  then result\<lparr>s_Current := 0, s_AtRisk := False, s_GraceEndsAt := None, s_Since := None\<rparr>
                                  else result)))))))"

section \<open>The streak ladder\<close>

definition LadderMilestones :: "int list" where
  "LadderMilestones = [7, 30, 100, 365, 500, 1000, 1095, 1460]"

definition ladderBarDays :: nat where "ladderBarDays = 30"

record streak_ladder =
  l_Days :: int
  l_LastMilestone :: int
  l_NextMilestone :: "int option"
  l_DaysToNext :: "int option"
  l_Bar :: "bool list"

text \<open>\<open>None\<close> is the index panic on an empty ladder.\<close>

fun nextMilestone_loop :: "int \<Rightarrow> int list \<Rightarrow> int option" where
  "nextMilestone_loop days [] = None"
| "nextMilestone_loop days (m # ms) = (if m > days then Some m else nextMilestone_loop days ms)"

definition nextMilestone :: "int \<Rightarrow> int list \<Rightarrow> int option" where
  "nextMilestone days milestones =
     (case nextMilestone_loop days milestones of
        Some m \<Rightarrow> Some m
      | None \<Rightarrow> if milestones = [] then None
                else let m = last milestones in Some (m + (go_div (days - m) 365 + 1) * 365))"

definition lastMilestone :: "int \<Rightarrow> int list \<Rightarrow> int option" where
  "lastMilestone days milestones =
     (let reached = foldl (\<lambda>reached m. if m \<le> days then m else reached) 0 milestones
      in if milestones = [] then None
         else let m = last milestones
              in Some (if days \<ge> m then m + go_div (days - m) 365 * 365 else reached))"

text \<open>\<open>civilDay\<close> numbers the calendar date of an instant in a zone.\<close>

definition civilDay :: "time \<Rightarrow> location \<Rightarrow> int" where
  "civilDay t zone = civil_date zone t"

definition LadderWithMilestones :: "streak \<Rightarrow> time \<Rightarrow> location \<Rightarrow> int list \<Rightarrow> streak_ladder option" where
  "LadderWithMilestones s asOf zone milestones =
     (case s_Since s of
        None \<Rightarrow>
          if milestones = [] then None
          else Some \<lparr>l_Days = 0, l_LastMilestone = 0, l_NextMilestone = Some (hd milestones),
                     l_DaysToNext = Some (hd milestones), l_Bar = replicate ladderBarDays False\<rparr>
      | Some since \<Rightarrow>
          let days = max (civilDay asOf zone - civilDay since zone) 0
          in Option.bind (lastMilestone days milestones) (\<lambda>reached.
             Option.bind (nextMilestone days milestones) (\<lambda>next_m.
               Some \<lparr>l_Days = days, l_LastMilestone = reached, l_NextMilestone = Some next_m,
                     l_DaysToNext = Some (next_m - days),
                     l_Bar = map (\<lambda>i. days \<ge> int (ladderBarDays - 1 - i)) [0..<ladderBarDays]\<rparr>)))"

definition Ladder :: "streak \<Rightarrow> time \<Rightarrow> location \<Rightarrow> streak_ladder option" where
  "Ladder s asOf zone = LadderWithMilestones s asOf zone LadderMilestones"

text \<open>\<open>None\<close> is the nil dereference on a streak with no run.\<close>

definition Reaches :: "streak \<Rightarrow> int \<Rightarrow> location \<Rightarrow> time option" where
  "Reaches s days zone =
     map_option (\<lambda>since. Date_midnight zone (civil_date zone since + days)) (s_Since s)"

interpretation periods: fact_dedup period_valid p_ID "\<lambda>p. p_DonorID p = donorID" ErrInvalid
  "donorPeriods_loop donorID" for donorID
  by unfold_locales (simp_all add: Let_def)

section \<open>The reference of the giving streak\<close>

text \<open>
  When a period was paid (0 for never), and when the next period carries the run on:
  it starts where the last one ended, the donor had not stopped there, and it was paid
  within its grace and not before the last one.
\<close>

definition paid_at :: "gift list gomap \<Rightarrow> int gomap \<Rightarrow> period \<Rightarrow> time" where
  "paid_at payments net p = earliest_paid net 0 (pget payments (p_ID p))"

definition links :: "gift list gomap \<Rightarrow> int gomap \<Rightarrow> time set \<Rightarrow> period \<Rightarrow> period \<Rightarrow> bool" where
  "links payments net stopped p q \<longleftrightarrow>
     p_EndsAt p = p_DueAt q \<and> p_EndsAt p \<notin> stopped
     \<and> paid_at payments net q < p_DueAt q + Grace \<and> paid_at payments net p \<le> paid_at payments net q"

definition is_run :: "gift list gomap \<Rightarrow> int gomap \<Rightarrow> time set \<Rightarrow> period list \<Rightarrow> bool" where
  "is_run payments net stopped ps \<longleftrightarrow>
     (\<forall>p\<in>set ps. paid_at payments net p \<noteq> 0) \<and> successively (links payments net stopped) ps"

definition open_period :: "gift list gomap \<Rightarrow> time \<Rightarrow> period \<Rightarrow> bool" where
  "open_period payments asOf p \<longleftrightarrow> pget payments (p_ID p) = [] \<and> asOf < p_DueAt p + Grace"

text \<open>\<open>n\<close> is the length of the longest list of the class \<open>C\<close>.\<close>

definition longest :: "('a list \<Rightarrow> bool) \<Rightarrow> int \<Rightarrow> bool" where
  "longest C n \<longleftrightarrow> (\<exists>xs. C xs \<and> int (length xs) = n) \<and> (\<forall>xs. C xs \<longrightarrow> int (length xs) \<le> n)"

lemma longestI:
  "C xs \<Longrightarrow> int (length xs) = n \<Longrightarrow> (\<And>ys. C ys \<Longrightarrow> int (length ys) \<le> n) \<Longrightarrow> longest C n"
  by (auto simp: longest_def)

lemma is_run_Nil [simp]: "is_run payments net stopped []"
  by (simp add: is_run_def)

lemma is_run_snoc:
  "is_run payments net stopped (ps @ [q]) \<longleftrightarrow> paid_at payments net q \<noteq> 0
     \<and> (ps = [] \<or> is_run payments net stopped ps \<and> links payments net stopped (last ps) q)"
  by (cases ps rule: rev_cases) (auto simp: is_run_def successively_append_iff)

definition run_suffix where
  "run_suffix payments net stopped ps ys \<longleftrightarrow> suffix ys ps \<and> is_run payments net stopped ys"

definition run_part where
  "run_part payments net stopped ps ys \<longleftrightarrow> sublist ys ps \<and> is_run payments net stopped ys"

lemma longest_Nil: "longest (run_suffix payments net stopped []) 0"
   "longest (run_part payments net stopped []) 0"
  by (auto simp: longest_def run_suffix_def run_part_def)

lemma run_suffix_snoc:
  "run_suffix payments net stopped (ps @ [q]) ys \<longleftrightarrow> ys = [] \<or>
   (\<exists>zs. ys = zs @ [q] \<and> suffix zs ps \<and> is_run payments net stopped (zs @ [q]))"
  by (auto simp: run_suffix_def suffix_snoc)

lemma longest_suffix_snoc:
  assumes "longest (run_suffix payments net stopped ps) c"
  shows "longest (run_suffix payments net stopped (ps @ [q]))
    (if paid_at payments net q = 0 then 0
     else if ps \<noteq> [] \<and> paid_at payments net (last ps) \<noteq> 0 \<and> links payments net stopped (last ps) q
     then c + 1 else 1)"
proof -
  let ?R = "is_run payments net stopped" and ?p = "paid_at payments net" and ?L = "links payments net stopped"
  consider (unpaid) "?p q = 0"
    | (joined) "?p q \<noteq> 0" "ps \<noteq> []" "?p (last ps) \<noteq> 0" "?L (last ps) q"
    | (fresh) "?p q \<noteq> 0" "ps = [] \<or> ?p (last ps) = 0 \<or> \<not> ?L (last ps) q" by blast
  then show ?thesis
  proof cases
    case unpaid
    then show ?thesis by (auto simp: longest_def run_suffix_snoc is_run_snoc)
  next
    case joined
    have iff: "?R (zs @ [q]) \<longleftrightarrow> ?R zs" if "suffix zs ps" for zs
      using joined that by (auto simp: is_run_snoc suffix_def)
    obtain xs where xs: "suffix xs ps" "?R xs" "int (length xs) = c"
      and max: "\<And>ys. suffix ys ps \<Longrightarrow> ?R ys \<Longrightarrow> int (length ys) \<le> c"
      using assms by (auto simp: longest_def run_suffix_def)
    have "longest (run_suffix payments net stopped (ps @ [q])) (c + 1)"
    proof (rule longestI)
      show "run_suffix payments net stopped (ps @ [q]) (xs @ [q])" using xs iff by (simp add: run_suffix_def)
    qed (use xs iff max in \<open>auto simp: run_suffix_snoc\<close>)
    with joined show ?thesis by simp
  next
    case fresh
    have "zs = []" if "suffix zs ps" "?R (zs @ [q])" for zs
    proof (rule ccontr)
      assume "zs \<noteq> []"
      with that(1) have "last ps = last zs" "ps \<noteq> []" "last zs \<in> set zs" by (auto simp: suffix_def)
      moreover from that(2) \<open>zs \<noteq> []\<close> have "?R zs" "?L (last zs) q" by (simp_all add: is_run_snoc)
      ultimately show False using fresh(2) by (auto simp: is_run_def)
    qed
    then have "longest (run_suffix payments net stopped (ps @ [q])) 1"
      using fresh(1) by (intro longestI[of _ "[q]"]) (auto simp: run_suffix_snoc is_run_def)
    with fresh show ?thesis by auto
  qed
qed

lemma longest_part_snoc:
  assumes "longest (run_part payments net stopped ps) b" and "longest (run_suffix payments net stopped (ps @ [q])) c"
  shows "longest (run_part payments net stopped (ps @ [q])) (max b c)"
proof -
  have "run_part payments net stopped (ps @ [q]) ys \<longleftrightarrow>
    run_part payments net stopped ps ys \<or> run_suffix payments net stopped (ps @ [q]) ys" for ys
    by (auto simp: run_part_def run_suffix_def sublist_snoc)
  then have "run_part payments net stopped (ps @ [q]) = (\<lambda>ys.
    run_part payments net stopped ps ys \<or> run_suffix payments net stopped (ps @ [q]) ys)" by blast
  with assms show ?thesis unfolding longest_def by (auto simp: max_def intro: order_trans)
qed

text \<open>The state of the loop after the closed periods \<open>ps\<close>.\<close>

definition counted ::
  "gift list gomap \<Rightarrow> int gomap \<Rightarrow> time set \<Rightarrow> period list \<Rightarrow> count_state \<Rightarrow> bool" where
  "counted payments net stopped ps st \<longleftrightarrow>
     (let (result, last_end, lastPaid) = st
      in longest (run_suffix payments net stopped ps) (s_Current result)
         \<and> longest (run_part payments net stopped ps) (s_Best result)
         \<and> last_end = (if ps = [] then 0 else p_EndsAt (last ps))
         \<and> lastPaid = (if ps = [] then 0 else paid_at payments net (last ps))
         \<and> s_Since result = (if s_Current result = 0 then None
              else Some (p_DueAt (ps ! nat (int (length ps) - s_Current result))))
         \<and> \<not> s_AtRisk result \<and> s_GraceEndsAt result = None)"

lemma longest_bounds:
  assumes "longest (run_suffix payments net stopped ps) c"
  shows "0 \<le> c" and "c \<le> int (length ps)"
  using assms by (auto simp: longest_def run_suffix_def dest: suffix_length_le)

lemma longest_unpaid:
  assumes "longest (run_suffix payments net stopped ps) c" and "ps \<noteq> []" and "paid_at payments net (last ps) = 0"
  shows "c = 0"
proof -
  obtain xs where xs: "run_suffix payments net stopped ps xs" "int (length xs) = c"
    using assms(1) by (auto simp: longest_def)
  have "xs = []"
  proof (rule ccontr)
    assume "xs \<noteq> []"
    with xs(1) have "last ps = last xs" "last xs \<in> set xs" by (auto simp: run_suffix_def suffix_def)
    with xs(1) assms(3) show False by (auto simp: run_suffix_def is_run_def)
  qed
  with xs(2) show ?thesis by simp
qed

lemma counted_step:
  assumes "counted payments net stopped ps st" and "\<not> open_period payments asOf q"
  shows "counted payments net stopped (ps @ [q]) (countStreak_step payments net asOf stopped st q)"
proof -
  obtain res l lp where st: "st = (res, l, lp)" by (cases st) auto
  let ?p = "paid_at payments net" and ?L = "links payments net stopped"
  let ?joined = "ps \<noteq> [] \<and> ?p (last ps) \<noteq> 0 \<and> ?L (last ps) q"
  define c where "c = (if ?p q = 0 then 0 else if ?joined then s_Current res + 1 else 1)"
  have inv: "longest (run_suffix payments net stopped ps) (s_Current res)"
      "longest (run_part payments net stopped ps) (s_Best res)"
      "l = (if ps = [] then 0 else p_EndsAt (last ps))" "lp = (if ps = [] then 0 else ?p (last ps))"
      "s_Since res = (if s_Current res = 0 then None
              else Some (p_DueAt (ps ! nat (int (length ps) - s_Current res))))"
    using assms(1) by (auto simp: counted_def st)
  have suf: "longest (run_suffix payments net stopped (ps @ [q])) c"
    unfolding c_def by (rule longest_suffix_snoc[OF inv(1)])
  have part: "longest (run_part payments net stopped (ps @ [q])) (max (s_Best res) c)"
    by (rule longest_part_snoc[OF inv(2) suf])
  note bounds = longest_bounds[OF inv(1)]
  have zero: "ps = [] \<Longrightarrow> s_Current res = 0" using bounds by simp
  note unpaid = longest_unpaid[OF inv(1)]
  have best: "0 \<le> s_Best res" using inv(2) by (auto simp: longest_def)
  obtain res' where step: "countStreak_step payments net asOf stopped st q = (res', p_EndsAt q, ?p q)"
    and cur: "s_Current res' = c" and "s_Best res' = max (s_Best res) c"
    and "\<not> s_AtRisk res'" "s_GraceEndsAt res' = None"
    and "s_Since res' = (if c = 0 then None else if c = 1 then Some (p_DueAt q) else s_Since res)"
  proof (cases "?p q = 0")
    case True
    with assms(2) best show ?thesis
      by (intro that[of "fst (countStreak_step payments net asOf stopped st q)"]) (auto simp: countStreak_step_def st Let_def paid_at_def IsZero_def open_period_def c_def)
  next
    case False
    have "s_Current res \<noteq> - 1" using bounds by simp
    have "?joined \<longleftrightarrow> ps \<noteq> [] \<and> ?p (last ps) \<noteq> 0 \<and> l = p_DueAt q \<and> l \<notin> stopped \<and> ?p q < p_DueAt q + Grace \<and> lp \<le> ?p q"
      using inv(3,4) by (auto simp: links_def)
    with False zero unpaid inv(4) bounds(1) show ?thesis
      by (intro that[of "fst (countStreak_step payments net asOf stopped st q)"]) (auto simp: countStreak_step_def st Let_def IsZero_def c_def simp flip: paid_at_def)
  qed
  moreover have "(if c = 0 then None else if c = 1 then Some (p_DueAt q) else s_Since res) =
    (if c = 0 then None else Some (p_DueAt ((ps @ [q]) ! nat (int (length (ps @ [q])) - c))))"
    using inv(5) bounds by (auto simp: c_def nth_append)
  ultimately show ?thesis using suf part by (simp add: counted_def)
qed


lemma counted_fold:
  "\<forall>p\<in>set ps. \<not> open_period payments asOf p \<Longrightarrow>
   counted payments net stopped ps (foldl (countStreak_step payments net asOf stopped) (empty_streak, 0, 0) ps)"
proof (induction ps rule: rev_induct)
  case Nil
  then show ?case by (simp add: counted_def empty_streak_def longest_Nil)
next
  case (snoc q ps)
  then show ?case by (simp add: counted_step)
qed

text \<open>The periods of a donor follow each other, so only the latest may still be in its grace.\<close>

lemma period_valid_length: "period_valid p \<Longrightarrow> p_DueAt p + 27 * 24 * Hour \<le> p_EndsAt p"
  using time_Sub_range(2)[of "27 * 24 * Hour" "p_EndsAt p" "p_DueAt p"]
  by (simp add: period_valid_def Let_def duration_defs MaxInt64_def not_less)

lemma not_overlapping: "\<not> overlapping ps \<Longrightarrow> successively (\<lambda>p q. p_EndsAt p \<le> p_DueAt q) ps"
  by (induction ps rule: overlapping.induct) auto

lemma donorPeriods_spaced:
  assumes "donorPeriods input donorID = Inr periods"
  shows "sorted_wrt (\<lambda>p q. p_DueAt p + 27 * 24 * Hour \<le> p_DueAt q) periods"
    and "\<forall>p\<in>set periods. p \<in> set input \<and> period_valid p \<and> p_DonorID p = donorID"
proof -
  have valid: "\<forall>p\<in>set periods. p \<in> set input \<and> period_valid p \<and> p_DonorID p = donorID"
    and apart: "\<not> overlapping periods"
    using assms by (auto simp: donorPeriods_def periods.loop_start Let_def split: if_splits)
  show "\<forall>p\<in>set periods. p \<in> set input \<and> period_valid p \<and> p_DonorID p = donorID" by (rule valid)
  have "successively (\<lambda>p q. p_DueAt p + 27 * 24 * Hour \<le> p_DueAt q) periods"
    using not_overlapping[OF apart]
    by (rule successively_mono) (use valid period_valid_length in \<open>force\<close>)
  then show "sorted_wrt (\<lambda>p q. p_DueAt p + 27 * 24 * Hour \<le> p_DueAt q) periods"
    by (subst (asm) successively_conv_sorted_wrt) (auto simp: transp_def duration_defs)
qed

lemma closed_then_open:
  assumes "sorted_wrt (\<lambda>p q. p_DueAt p + 27 * 24 * Hour \<le> p_DueAt q) ps" and "\<forall>p\<in>set ps. p_DueAt p \<le> asOf"
  shows "ps = filter (\<lambda>p. \<not> open_period payments asOf p) ps \<or>
    (\<exists>q. ps = filter (\<lambda>p. \<not> open_period payments asOf p) ps @ [q] \<and> open_period payments asOf q)"
proof (cases ps rule: rev_cases)
  case (snoc qs q)
  have "\<not> open_period payments asOf p" if "p \<in> set qs" for p
    using assms that by (force simp: snoc sorted_wrt_append open_period_def Grace_def duration_defs)
  then have "filter (\<lambda>p. \<not> open_period payments asOf p) qs = qs" by simp
  with snoc show ?thesis by auto
qed simp


definition carried :: "time set \<Rightarrow> period list \<Rightarrow> period list \<Rightarrow> bool" where
  "carried stopped closed elapsed \<longleftrightarrow> closed = elapsed
     \<or> (closed \<noteq> [] \<and> p_EndsAt (last closed) = p_DueAt (last elapsed) \<and> p_EndsAt (last closed) \<notin> stopped)"

definition streak_reference ::
  "gift list gomap \<Rightarrow> int gomap \<Rightarrow> time set \<Rightarrow> time \<Rightarrow> period list \<Rightarrow> streak \<Rightarrow> bool" where
  "streak_reference payments net stopped asOf elapsed s \<longleftrightarrow>
     (let closed = filter (\<lambda>p. \<not> open_period payments asOf p) elapsed
      in longest (run_part payments net stopped closed) (s_Best s)
         \<and> (\<exists>c. longest (run_suffix payments net stopped closed) c
              \<and> s_Current s = (if carried stopped closed elapsed then c else 0))
         \<and> s_Since s = (if s_Current s = 0 then None
              else Some (p_DueAt (closed ! nat (int (length closed) - s_Current s))))
         \<and> s_GraceEndsAt s = (if closed \<noteq> elapsed \<and> 0 < s_Current s then Some (p_DueAt (last elapsed) + Grace) else None)
         \<and> s_AtRisk s = (s_GraceEndsAt s \<noteq> None)
         \<and> (closed \<noteq> elapsed \<longrightarrow> open_period payments asOf (last elapsed)))"

lemma countStreak_step_open:
  assumes "counted payments net stopped ps (res, l, lp)" and "open_period payments asOf q"
    and that: "s = fst (countStreak_step payments net asOf stopped (res, l, lp) q)"
  shows "s_Best s = s_Best res" and "s_Current s = (if carried stopped ps (ps @ [q]) then s_Current res else 0)"
    and "s_Since s = (if s_Current s = 0 then None else s_Since res)"
    and "s_GraceEndsAt s = (if 0 < s_Current s then Some (p_DueAt q + Grace) else None)"
    and "s_AtRisk s = (0 < s_Current s)"
proof -
  have suffix: "longest (run_suffix payments net stopped ps) (s_Current res)"
    and l: "l = (if ps = [] then 0 else p_EndsAt (last ps))"
    and since: "s_Current res = 0 \<longrightarrow> s_Since res = None"
    and calm: "\<not> s_AtRisk res" "s_GraceEndsAt res = None"
    using assms(1) by (auto simp: counted_def)
  have nn: "0 \<le> s_Current res" "ps = [] \<longrightarrow> s_Current res = 0" using longest_bounds[OF suffix] by auto
  have carried: "carried stopped ps (ps @ [q]) \<longleftrightarrow> ps \<noteq> [] \<and> l = p_DueAt q \<and> l \<notin> stopped"
    using l by (auto simp: carried_def)
  have unpaid: "earliest_paid net 0 (pget payments (p_ID q)) = 0" "pget payments (p_ID q) = []" "asOf < p_DueAt q + Grace"
    using assms(2) by (auto simp: open_period_def)
  note facts = that countStreak_step_def Let_def IsZero_def unpaid carried
  show "s_Best s = s_Best res" by (simp add: facts)
  show "s_Current s = (if carried stopped ps (ps @ [q]) then s_Current res else 0)" using nn by (auto simp: facts)
  show "s_Since s = (if s_Current s = 0 then None else s_Since res)" using since by (simp add: facts)
  show "s_GraceEndsAt s = (if 0 < s_Current s then Some (p_DueAt q + Grace) else None)" by (simp add: facts)
  show "s_AtRisk s = (0 < s_Current s)" by (simp add: facts)
qed

lemma countStreak_reference:
  assumes spaced: "sorted_wrt (\<lambda>p q. p_DueAt p + 27 * 24 * Hour \<le> p_DueAt q) elapsed"
    and due: "\<forall>p\<in>set elapsed. p_DueAt p \<le> asOf"
  shows "streak_reference payments net stopped asOf elapsed (countStreak elapsed payments net asOf stopped)"
proof -
  let ?closed = "filter (\<lambda>p. \<not> open_period payments asOf p) elapsed"
  obtain res l lp where st: "foldl (countStreak_step payments net asOf stopped) (empty_streak, 0, 0) ?closed = (res, l, lp)"
    by (metis prod_cases3)
  have counted: "counted payments net stopped ?closed (res, l, lp)"
    using counted_fold[of ?closed payments asOf net stopped] by (simp add: st)
  then have longest: "longest (run_suffix payments net stopped ?closed) (s_Current res)"
    "longest (run_part payments net stopped ?closed) (s_Best res)" by (auto simp: counted_def)
  from closed_then_open[OF spaced due, of payments] show ?thesis
  proof (elim disjE exE conjE)
    assume eq: "elapsed = ?closed"
    then have "countStreak elapsed payments net asOf stopped = res" using st by (simp add: countStreak_def)
    with counted longest eq show ?thesis
      by (auto simp: streak_reference_def counted_def Let_def carried_def)
  next
    fix q assume eq: "elapsed = ?closed @ [q]" and q: "open_period payments asOf q"
    define s where "s = countStreak elapsed payments net asOf stopped"
    have "s = fst (countStreak_step payments net asOf stopped (res, l, lp) q)"
      unfolding s_def by (subst eq) (simp add: countStreak_def st)
    note s = countStreak_step_open[OF counted q this]
    have "last elapsed = q" "?closed \<noteq> elapsed" using eq by (metis last_snoc, metis append_self_conv list.distinct(1))
    with s longest counted q show ?thesis
      unfolding streak_reference_def Let_def s_def[symmetric] eq[symmetric] by (auto simp: counted_def)
  qed
qed


lemma GivingStreak_cases:
  assumes "GivingStreak input refunds inputPeriods donorID asOf previousBest stops = Inr s"
  obtains net payments periods elapsed where
    "NetGifts (first_occs input) refunds asOf = Inr net" and "donorPeriods inputPeriods donorID = Inr periods"
    and "periodPayments (first_occs input) net periods donorID = Inr payments"
    and "0 \<le> previousBest" and "elapsed = filter (\<lambda>p. \<not> p_DueAt p > asOf) periods"
    and "renewalBoundaries stops = Inr (set stops)"
    and "elapsed \<noteq> [] \<Longrightarrow> p_EndsAt (last elapsed) \<le> asOf \<Longrightarrow> p_EndsAt (last elapsed) \<notin> set stops \<Longrightarrow>
      asOf < p_EndsAt (last elapsed) + Grace"
    and "s = (let r = countStreak elapsed payments net asOf (set stops); r = r\<lparr>s_Best := max previousBest (s_Best r)\<rparr>
      in if elapsed \<noteq> [] \<and> p_EndsAt (last elapsed) \<le> asOf \<and> p_EndsAt (last elapsed) \<in> set stops
         then r\<lparr>s_Current := 0, s_AtRisk := False, s_GraceEndsAt := None, s_Since := None\<rparr> else r)"
proof -
  have bounds: "renewalBoundaries_loop seen ts = (if 0 \<in> set ts then Inl ErrInvalid else Inr (seen \<union> set ts))" for seen ts
    by (induction ts arbitrary: seen) (auto simp: IsZero_def utc_def)
  from assms obtain gifts net periods payments stopped where *: "0 \<le> previousBest" "cleanGifts input = Inr gifts"
      "NetGifts gifts refunds asOf = Inr net" "donorPeriods inputPeriods donorID = Inr periods"
      "periodPayments gifts net periods donorID = Inr payments" "renewalBoundaries stops = Inr stopped"
    by (auto simp: GivingStreak_def rbind_eq_Inr split: if_splits)
  then have "gifts = first_occs input" "stopped = set stops"
    by (auto simp: cleanGifts_eq renewalBoundaries_def bounds split: if_splits)
  with * assms show ?thesis
    by (intro that[of net periods payments "filter (\<lambda>p. \<not> p_DueAt p > asOf) periods"])
       (auto simp: GivingStreak_def Let_def not_less empty_streak_def countStreak_def max_def split: if_splits)
qed


lemma periodPayments_loop_exact:
  "map_sum id pget (periodPayments_loop net known donorID result gifts) =
     (let mine = filter (\<lambda>g. g_DonorID g = donorID \<and> g_Frequency g = ''MONTHLY'' \<and> map_of net (g_ID g) \<noteq> None) gifts
      in if \<forall>g\<in>set mine. g_PeriodID g \<in> known
         then Inr (\<lambda>k. pget result k @ filter (\<lambda>g. g_PeriodID g = k) mine) else Inl ErrIncomplete)"
proof (induction gifts arbitrary: result)
  case (Cons g gifts)
  have "pget (AList.update (g_PeriodID g) (pget result (g_PeriodID g) @ [g]) result) k =
    pget result k @ (if g_PeriodID g = k then [g] else [])" for k
    by (simp add: pget_def update_conv' split: option.splits)
  then show ?case using Cons.IH[of result]
    Cons.IH[of "AList.update (g_PeriodID g) (pget result (g_PeriodID g) @ [g]) result"]
    by (auto simp: Let_def)
qed (simp add: Let_def)

definition sample_period :: "string \<Rightarrow> string \<Rightarrow> time \<Rightarrow> period" where
  "sample_period i d due = \<lparr>p_ID = i, p_DonorID = d, p_DueAt = due, p_EndsAt = due + 30 * 24 * Hour, p_Status = ''EXPECTED''\<rparr>"

text \<open>
  \<open>periodPayments\<close> gives each billing period exactly the donor's monthly gifts that name it and
  have a net amount, in order; a monthly gift that names no known period of the donor makes
  it \<open>ErrIncomplete\<close> instead of being dropped.
\<close>

lemma periodPayments_exact:
  "map_sum id pget (periodPayments gifts net periods donorID) =
     (let mine = filter (\<lambda>g. g_DonorID g = donorID \<and> g_Frequency g = ''MONTHLY'' \<and> map_of net (g_ID g) \<noteq> None) gifts
      in if g_PeriodID ` set mine \<subseteq> p_ID ` set periods
         then Inr (\<lambda>k. filter (\<lambda>g. g_PeriodID g = k) mine) else Inl ErrIncomplete)"
  unfolding periodPayments_def periodPayments_loop_exact by (auto simp: pget_def Let_def)

definition giving_streak_spec ::
  "gift list \<Rightarrow> refund list \<Rightarrow> period list \<Rightarrow> string \<Rightarrow> time \<Rightarrow> int \<Rightarrow> time list \<Rightarrow> streak \<Rightarrow> bool" where
  "giving_streak_spec input refunds inputPeriods donorID asOf previousBest stops s \<longleftrightarrow>
    (\<exists>net payments periods r. NetGifts (first_occs input) refunds asOf = Inr net
    \<and> donorPeriods inputPeriods donorID = Inr periods
    \<and> periodPayments (first_occs input) net periods donorID = Inr payments
    \<and> (let elapsed = filter (\<lambda>p. p_DueAt p \<le> asOf) periods;
           renewal = p_EndsAt (last elapsed);
           due = (elapsed \<noteq> [] \<and> renewal \<le> asOf)
       in streak_reference payments net (set stops) asOf elapsed r
          \<and> (due \<longrightarrow> renewal \<in> set stops \<or> asOf < renewal + Grace)
          \<and> s_Best s = max previousBest (s_Best r)
          \<and> s = (if due \<and> renewal \<in> set stops then empty_streak\<lparr>s_Best := s_Best s\<rparr> else r\<lparr>s_Best := s_Best s\<rparr>)))"

text \<open>
  C6. \<open>GivingStreak\<close> computes the reference streak: over the elapsed billing periods of the donor,
  \<open>Best\<close> is the longest run of paid, adjoining, timely and unstopped periods (never less than
  the best already recorded), \<open>Current\<close> the longest run that reaches the latest period (or the
  one before it while the latest is unpaid within its grace), \<open>Since\<close> the due date that run
  began, and the streak is at risk exactly while the latest period is unpaid in its grace.
  A renewal due at a boundary the donor stopped at ends the current run, and no streak is
  reported at all when a renewal is overdue by the grace and nobody stopped it.
\<close>

theorem GivingStreak_reference:
  assumes "GivingStreak input refunds inputPeriods donorID asOf previousBest stops = Inr s"
  shows "giving_streak_spec input refunds inputPeriods donorID asOf previousBest stops s"
proof -
  from assms show ?thesis
  proof (rule GivingStreak_cases)
    fix net payments periods elapsed
    assume *: "NetGifts (first_occs input) refunds asOf = Inr net" "donorPeriods inputPeriods donorID = Inr periods"
      "periodPayments (first_occs input) net periods donorID = Inr payments"
      and elapsed: "elapsed = filter (\<lambda>p. \<not> p_DueAt p > asOf) periods"
      and due: "elapsed \<noteq> [] \<Longrightarrow> p_EndsAt (last elapsed) \<le> asOf \<Longrightarrow> p_EndsAt (last elapsed) \<notin> set stops \<Longrightarrow>
        asOf < p_EndsAt (last elapsed) + Grace"
      and s: "s = (let r = countStreak elapsed payments net asOf (set stops); r = r\<lparr>s_Best := max previousBest (s_Best r)\<rparr>
        in if elapsed \<noteq> [] \<and> p_EndsAt (last elapsed) \<le> asOf \<and> p_EndsAt (last elapsed) \<in> set stops
           then r\<lparr>s_Current := 0, s_AtRisk := False, s_GraceEndsAt := None, s_Since := None\<rparr> else r)"
    have "streak_reference payments net (set stops) asOf elapsed (countStreak elapsed payments net asOf (set stops))"
      using donorPeriods_spaced(1)[OF *(2)]
      by (intro countStreak_reference) (auto simp: elapsed intro: sorted_wrt_filter)
    moreover have "elapsed = filter (\<lambda>p. p_DueAt p \<le> asOf) periods" by (simp add: elapsed not_less)
    ultimately show ?thesis
      using * due s unfolding giving_streak_spec_def
      by (intro exI[of _ net] exI[of _ payments] exI[of _ periods] exI[of _ "countStreak elapsed payments net asOf (set stops)"])
         (auto simp: Let_def empty_streak_def)
  qed
qed


theorem GivingStreak_reference_witness:
  "giving_streak_spec
     [sample_gift ''g1'' ''d1'' 5 (of_unix 1000) ''p1'', sample_gift ''g2'' ''d1'' 5 (of_unix 2592100) ''p2'']
     [] [sample_period ''p2'' ''d1'' (of_unix 2592000), sample_period ''p1'' ''d1'' (of_unix 0),
         sample_period ''p3'' ''d1'' (of_unix 5184000)] ''d1'' (of_unix 5184001) 1 []
     \<lparr>s_Current = 2, s_Best = 2, s_AtRisk = True, s_GraceEndsAt = Some (of_unix 5788800), s_Since = Some (of_unix 0)\<rparr>"
  by (rule GivingStreak_reference) code_simp

definition streak_ok :: "time \<Rightarrow> int \<Rightarrow> streak \<Rightarrow> bool" where
  "streak_ok asOf previousBest s \<longleftrightarrow>
     0 \<le> s_Current s \<and> s_Current s \<le> s_Best s \<and> previousBest \<le> s_Best s
     \<and> (s_Since s \<noteq> None \<longleftrightarrow> 0 < s_Current s)
     \<and> (s_AtRisk s \<longleftrightarrow> s_GraceEndsAt s \<noteq> None)
     \<and> (\<forall>d. s_GraceEndsAt s = Some d \<longrightarrow> 0 < s_Current s \<and> asOf < d)"

lemma streak_reference_ok:
  assumes "streak_reference payments net stopped asOf elapsed r"
  shows "streak_ok asOf 0 r"
proof -
  let ?closed = "filter (\<lambda>p. \<not> open_period payments asOf p) elapsed"
  from assms obtain c where c: "longest (run_suffix payments net stopped ?closed) c"
    "longest (run_part payments net stopped ?closed) (s_Best r)"
    "s_Current r = (if carried stopped ?closed elapsed then c else 0)"
    by (auto simp: streak_reference_def Let_def)
  have "c \<le> s_Best r" "0 \<le> c" "0 \<le> s_Best r"
    using c(1,2) by (auto simp: longest_def run_suffix_def run_part_def)
  moreover have "asOf < p_DueAt (last elapsed) + Grace" if "?closed \<noteq> elapsed"
    using assms that by (auto simp: streak_reference_def Let_def open_period_def)
  ultimately show ?thesis
    using assms c(3) unfolding streak_ok_def streak_reference_def Let_def by (auto split: if_splits)
qed

lemma GivingStreak_streak_ok:
  assumes "GivingStreak input refunds inputPeriods donorID asOf previousBest stops = Inr s"
  shows "streak_ok asOf previousBest s"
proof -
  from assms show ?thesis
  proof (rule GivingStreak_cases)
    fix net payments periods elapsed
    assume *: "donorPeriods inputPeriods donorID = Inr periods" "0 \<le> previousBest"
      and elapsed: "elapsed = filter (\<lambda>p. \<not> p_DueAt p > asOf) periods"
      and s: "s = (let r = countStreak elapsed payments net asOf (set stops); r = r\<lparr>s_Best := max previousBest (s_Best r)\<rparr>
        in if elapsed \<noteq> [] \<and> p_EndsAt (last elapsed) \<le> asOf \<and> p_EndsAt (last elapsed) \<in> set stops
           then r\<lparr>s_Current := 0, s_AtRisk := False, s_GraceEndsAt := None, s_Since := None\<rparr> else r)"
    have "streak_reference payments net (set stops) asOf elapsed (countStreak elapsed payments net asOf (set stops))"
      using donorPeriods_spaced(1)[OF *(1)]
      by (intro countStreak_reference) (auto simp: elapsed intro: sorted_wrt_filter)
    from streak_reference_ok[OF this] show ?thesis
      using *(2) by (auto simp: s streak_ok_def Let_def)
  qed
qed

text \<open>
  Every streak \<open>GivingStreak\<close> returns is well formed: \<open>Current\<close> lies between 0 and \<open>Best\<close>,
  \<open>Best\<close> never falls below the recorded one, a run has a start exactly when it is not empty,
  and only a live run is at risk, with a grace that ends after \<open>asOf\<close>.
\<close>

lemma GivingStreak_ok:
  assumes "GivingStreak input refunds inputPeriods donorID asOf previousBest stops = Inr s"
  shows "streak_ok asOf previousBest s"
  using assms by (rule GivingStreak_streak_ok)

section \<open>The reference of the ladder\<close>

text \<open>The rungs: the listed milestones, and every further 365 days after the last of them.\<close>

definition rungs :: "int list \<Rightarrow> int set" where
  "rungs ms = set ms \<union> {last ms + k * 365 | k. 1 \<le> k}"

lemma nextMilestone_loop_sorted:
  "sorted ms \<Longrightarrow> nextMilestone_loop days ms = Some n \<Longrightarrow>
   n \<in> set ms \<and> days < n \<and> (\<forall>m\<in>set ms. days < m \<longrightarrow> n \<le> m)"
  by (induction ms) (auto split: if_splits)

lemma nextMilestone_loop_None: "nextMilestone_loop days ms = None \<longleftrightarrow> (\<forall>m\<in>set ms. m \<le> days)"
  by (induction ms) auto

lemma sorted_le_last: "sorted ms \<Longrightarrow> m \<in> set ms \<Longrightarrow> m \<le> last ms" for m :: int
  by (induction ms) auto

lemma div_year:
  fixes d j :: int
  shows "d < j * 365 \<Longrightarrow> d div 365 < j" and "j * 365 \<le> d \<Longrightarrow> j \<le> d div 365"
    and "d < (d div 365 + 1) * 365" and "d div 365 * 365 \<le> d"
proof -
  define q r where "q = d div 365" and "r = d mod 365"
  have year: "d = q * 365 + r" "0 \<le> r" "r < 365" by (simp_all add: q_def r_def)
  show "d < j * 365 \<Longrightarrow> d div 365 < j" and "j * 365 \<le> d \<Longrightarrow> j \<le> d div 365"
    and "d < (d div 365 + 1) * 365" and "d div 365 * 365 \<le> d"
    unfolding q_def[symmetric] using year by simp_all
qed

lemma nextMilestone_least:
  assumes "sorted ms" and "nextMilestone days ms = Some n"
  shows "n \<in> rungs ms" and "days < n" and "\<And>m. m \<in> rungs ms \<Longrightarrow> days < m \<Longrightarrow> n \<le> m"
proof -
  have "n \<in> rungs ms \<and> days < n \<and> (\<forall>m\<in>rungs ms. days < m \<longrightarrow> n \<le> m)"
  proof (cases "nextMilestone_loop days ms")
    case (Some m)
    with assms have "n = m" by (simp add: nextMilestone_def)
    with nextMilestone_loop_sorted[OF assms(1) Some] sorted_le_last[OF assms(1), of m]
    show ?thesis by (fastforce simp: rungs_def)
  next
    case None
    define k where "k = (days - last ms) div 365"
    from None assms(2) have ne: "ms \<noteq> []" and le: "last ms \<le> days"
      by (auto simp: nextMilestone_def nextMilestone_loop_None split: if_splits)
    with None assms(2) have n: "n = last ms + (k + 1) * 365"
      by (simp add: nextMilestone_def Let_def go_div_nonneg k_def)
    have "0 \<le> k" using le by (simp add: k_def pos_imp_zdiv_nonneg_iff)
    moreover have "days - last ms < (k + 1) * 365" unfolding k_def by (rule div_year)
    moreover have "n \<le> last ms + j * 365" if "days < last ms + j * 365" for j
    proof -
      have "k < j" using that div_year(1)[of "days - last ms" j] by (simp add: k_def)
      then show ?thesis by (simp add: n)
    qed
    moreover from \<open>0 \<le> k\<close> have "n \<in> rungs ms" by (auto simp: rungs_def n intro!: exI[of _ "k + 1"])
    ultimately show ?thesis using None by (auto simp: rungs_def n nextMilestone_loop_None)
  qed
  then show "n \<in> rungs ms" and "days < n" and "\<And>m. m \<in> rungs ms \<Longrightarrow> days < m \<Longrightarrow> n \<le> m" by auto
qed

lemma lastMilestone_fold:
  fixes days :: int
  shows "sorted ms \<Longrightarrow> \<forall>m\<in>set ms. start \<le> m \<Longrightarrow> start \<le> days \<Longrightarrow>
   (let r = foldl (\<lambda>reached m. if m \<le> days then m else reached) start ms
    in r \<in> insert start (set ms) \<and> r \<le> days \<and> (\<forall>m\<in>insert start (set ms). m \<le> days \<longrightarrow> m \<le> r))"
proof (induction ms arbitrary: start)
  case (Cons m ms)
  show ?case
  proof (cases "m \<le> days")
    case True
    with Cons.IH[of m] Cons.prems show ?thesis by (auto simp: Let_def)
  next
    case False
    with Cons.IH[of start] Cons.prems show ?thesis by (auto simp: Let_def)
  qed
qed (simp add: Let_def)

lemma lastMilestone_greatest:
  assumes "sorted ms" and "\<forall>m\<in>set ms. 0 \<le> m" and "0 \<le> days" and "lastMilestone days ms = Some r"
  shows "r \<in> insert 0 (rungs ms)" and "r \<le> days" and "\<And>m. m \<in> insert 0 (rungs ms) \<Longrightarrow> m \<le> days \<Longrightarrow> m \<le> r"
proof -
  have ne: "ms \<noteq> []" using assms(4) by (auto simp: lastMilestone_def Let_def split: if_splits)
  have "r \<in> insert 0 (rungs ms) \<and> r \<le> days \<and> (\<forall>m\<in>insert 0 (rungs ms). m \<le> days \<longrightarrow> m \<le> r)"
  proof (cases "last ms \<le> days")
    case True
    define k where "k = (days - last ms) div 365"
    have r: "r = last ms + k * 365" and k: "0 \<le> k"
      using True assms(4) ne by (auto simp: lastMilestone_def Let_def go_div_nonneg k_def)
    have nn: "0 \<le> last ms" using assms(2) ne by simp
    have "r \<in> rungs ms" using k ne by (cases "k = 0") (auto simp: rungs_def r)
    moreover have "r \<le> days" using div_year(4)[of "days - last ms"] by (simp add: r k_def)
    moreover have "last ms + j * 365 \<le> r" if "last ms + j * 365 \<le> days" for j
    proof -
      have "j \<le> k" using that div_year(2)[of j "days - last ms"] by (simp add: k_def)
      then show ?thesis by (simp add: r)
    qed
    moreover have "m \<le> r" if "m \<in> insert 0 (set ms)" for m
      using sorted_le_last[OF assms(1), of m] that k nn by (auto simp: r)
    ultimately show ?thesis unfolding rungs_def by blast
  next
    case False
    then have "r = foldl (\<lambda>reached m. if m \<le> days then m else reached) 0 ms"
      using assms(4) ne by (simp add: lastMilestone_def Let_def)
    with lastMilestone_fold[OF assms(1,2,3)] False show ?thesis by (auto simp: rungs_def Let_def)
  qed
  then show "r \<in> insert 0 (rungs ms)" and "r \<le> days" and "\<And>m. m \<in> insert 0 (rungs ms) \<Longrightarrow> m \<le> days \<Longrightarrow> m \<le> r"
    by auto
qed

definition ladder_ok :: "int list \<Rightarrow> streak_ladder \<Rightarrow> bool" where
  "ladder_ok ms l \<longleftrightarrow>
     0 \<le> l_Days l \<and> length (l_Bar l) = 30
     \<and> l_LastMilestone l \<in> insert 0 (rungs ms) \<and> l_LastMilestone l \<le> l_Days l
     \<and> (\<exists>n. l_NextMilestone l = Some n \<and> n \<in> rungs ms \<and> l_Days l < n \<and> l_DaysToNext l = Some (n - l_Days l)
          \<and> (\<forall>m\<in>insert 0 (rungs ms). m \<le> l_LastMilestone l \<or> n \<le> m))"

lemma ladder_complete:
  assumes "sorted ms" and "\<forall>m\<in>set ms. 0 < m" and "ms \<noteq> []"
  shows "\<exists>l. LadderWithMilestones s asOf zone ms = Some l \<and> ladder_ok ms l"
proof (cases "s_Since s")
  case None
  have "hd ms \<le> m" if "m \<in> set ms" for m using assms(1,3) that by (cases ms) auto
  moreover from assms have "0 < hd ms" "hd ms \<in> set ms" "hd ms \<le> last ms"
    using sorted_le_last[OF assms(1), of "hd ms"] by auto
  ultimately have "ladder_ok ms \<lparr>l_Days = 0, l_LastMilestone = 0, l_NextMilestone = Some (hd ms),
      l_DaysToNext = Some (hd ms), l_Bar = replicate ladderBarDays False\<rparr>"
    by (auto simp: ladder_ok_def rungs_def ladderBarDays_def)
  with None assms(3) show ?thesis by (simp add: LadderWithMilestones_def)
next
  case (Some since)
  define days where "days = max (civilDay asOf zone - civilDay since zone) 0"
  obtain r where r: "lastMilestone days ms = Some r" using assms(3) by (simp add: lastMilestone_def Let_def)
  obtain n where n: "nextMilestone days ms = Some n"
    using assms(3) by (cases "nextMilestone_loop days ms") (auto simp: nextMilestone_def Let_def)
  have nn: "0 \<le> days" "\<forall>m\<in>set ms. 0 \<le> m" using assms(2) by (auto simp: days_def)
  note next_m = nextMilestone_least[OF assms(1) n] and last_m = lastMilestone_greatest[OF assms(1) nn(2,1) r]
  have "m \<le> r \<or> n \<le> m" if "m \<in> insert 0 (rungs ms)" for m
    using next_m last_m that nn by (cases "m \<le> days") (auto simp: not_le)
  with Some r n next_m last_m nn show ?thesis
    by (simp add: LadderWithMilestones_def ladder_ok_def Let_def ladderBarDays_def flip: days_def)
qed

text \<open>
  For milestones in ascending order, the ladder of every streak is complete: the days are
  never negative, the last and the next milestone are neighbouring rungs (the listed ones,
  then every further year) around the days of the run, and the distance to the next is
  exact and positive.
\<close>

lemma LadderWithMilestones_ok:
  assumes "sorted ms" and "\<forall>m\<in>set ms. 0 < m" and "ms \<noteq> []"
  shows "\<exists>l. LadderWithMilestones s asOf zone ms = Some l \<and> ladder_ok ms l"
  using assms by (rule ladder_complete)

text \<open>
  C10. \<open>Reaches\<close> agrees with the ladder: for a number of days that is not negative and in a zone whose
  clock changes never skip a midnight (as New York's), \<open>Reaches\<close> returns a local midnight at which
  the ladder shows exactly that many days, with the milestone last passed at that number and the bar filled
  accordingly, however many clock changes lie between.
\<close>

theorem Reaches_ladder:
  assumes "s_Since s = Some since" and "0 \<le> days" and "calm zone"
    and "Reaches s days zone = Some t" and "LadderWithMilestones s t zone ms = Some l"
  shows "local_clock zone t = 0 \<and> l_Days l = days \<and> lastMilestone days ms = Some (l_LastMilestone l)
    \<and> l_Bar l = map (\<lambda>i. days \<ge> 29 - int i) [0..<30]"
proof -
  have m: "has_midnight zone (civil_date zone since + days)" by (rule calm_midnight) fact
  then have "civilDay t zone - civilDay since zone = days" and "local_clock zone t = 0"
    using assms(1,4) by (auto simp: Reaches_def civilDay_def civil_date_midnight local_clock_midnight)
  with assms show ?thesis
    by (auto simp: LadderWithMilestones_def Let_def bind_eq_Some_conv ladderBarDays_def of_nat_diff)
qed

text \<open>A run that began on March 1, 2026 in New York, across the clock change of March 8.\<close>

theorem Reaches_ladder_witness:
  "\<exists>l. LadderWithMilestones (empty_streak\<lparr>s_Since := Some (of_unix 1772366400)\<rparr>) (of_unix 1773028800) New_York [7] = Some l \<and>
     l_Days l = 8 \<and> lastMilestone 8 [7] = Some (l_LastMilestone l) \<and> l_Bar l = map (\<lambda>i. 8 \<ge> 29 - int i) [0..<30]"
proof -
  let ?s = "empty_streak\<lparr>s_Since := Some (of_unix 1772366400)\<rparr>"
  have "LadderWithMilestones ?s (of_unix 1773028800) New_York [7] \<noteq> None" by code_simp
  then obtain l where l: "LadderWithMilestones ?s (of_unix 1773028800) New_York [7] = Some l" by blast
  have "Reaches ?s 8 New_York = Some (of_unix 1773028800)" and "calm New_York" by code_simp+
  from Reaches_ladder[OF _ _ this(2,1) l] l show ?thesis by simp
qed

end
