(* ===== verification/Badges.thy ===== *)
theory Badges
  imports Giving_Streak
begin

text \<open>
  Package \<open>badges\<close> (internal/badges/badges.go), the catalog and the earn engine, and the rules
  staff can change (internal/store/recognition_rules.go) with the two tables that hold
  them. The engine and the default rules are proved to award the same badges, and the
  validation of changed rules to keep the catalog complete and the ladder well defined.
\<close>

section \<open>Catalog\<close>

type_synonym Perk = string

definition PerkNone :: Perk where "PerkNone = []"
definition PerkFoundingEvents :: Perk where "PerkFoundingEvents = ''FOUNDING_EVENTS''"
definition PerkMilestoneEvents :: Perk where "PerkMilestoneEvents = ''MILESTONE_EVENTS''"
definition PerkTeamCaptain :: Perk where "PerkTeamCaptain = ''TEAM_CAPTAIN''"

lemmas perk_defs = PerkNone_def PerkFoundingEvents_def PerkMilestoneEvents_def PerkTeamCaptain_def

datatype Badge = Badge (b_Code: string) (b_Title: string) (b_Rule: string) (b_Perk: Perk) (b_Live: bool)

definition Catalog :: "Badge list" where
  "Catalog =
    [Badge ''F'' ''Founding Donor'' ''Start a monthly gift before January 2027, or join the website waitlist'' PerkFoundingEvents True,
     Badge ''1D'' ''First Day'' ''Complete your first gift'' PerkNone True,
     Badge ''7'' ''One Week'' ''Reach a 7-day streak'' PerkNone True,
     Badge ''30'' ''One Month'' ''Reach a 30-day streak'' PerkNone True,
     Badge ''100'' ''Hundred'' ''Reach a 100-day streak'' PerkNone True,
     Badge ''Y1'' ''One Year'' ''Reach a 365-day streak'' PerkNone True,
     Badge ''1K'' ''1,000 Days'' ''Reach a 1,000-day streak'' PerkMilestoneEvents True,
     Badge ''Y3'' ''Three Years'' ''Reach a 1,095-day streak'' PerkNone True,
     Badge ''CB'' ''Comeback'' ''Restart giving after a lapse and reach 30 days'' PerkNone True,
     Badge ''UP'' ''Level Up'' ''Raise your daily amount'' PerkNone True,
     Badge ''REF1'' ''First Referral'' ''Someone you invited completes a gift'' PerkNone True,
     Badge ''REF3'' ''Brought 3 In'' ''Three people you invited complete a gift'' PerkNone True,
     Badge ''REF12'' ''Brought 12 In'' ''Twelve people you invited complete a gift'' PerkNone True,
     Badge ''TC'' ''Team Captain'' ''Twenty people you invited complete a gift'' PerkTeamCaptain True,
     Badge ''IRL'' ''IRL'' ''Someone joins by scanning your IRL code'' PerkNone True,
     Badge ''V'' ''Volunteer'' ''Opt in as a volunteer'' PerkNone True,
     Badge ''SU'' ''Showed Up'' ''Check in at your first event'' PerkNone True,
     Badge ''V3'' (''Volunteer '' @ [CHR 0xC3, CHR 0x97] @ ''3'') ''Check in at 3 events'' PerkNone True,
     Badge ''V10'' (''Volunteer '' @ [CHR 0xC3, CHR 0x97] @ ''10'') ''Check in at 10 events'' PerkNone True,
     Badge ''INIT7'' ''7 Initiatives'' ''Fund 7 different initiatives'' PerkNone True,
     Badge ''CITY50'' ''Top 50 City'' ''Rank in the top 50 in your city'' PerkNone True,
     Badge ''NAT2'' ''Top 2%'' ''Rank in the top 2% nationally by streak'' PerkNone True,
     Badge ''TP'' ''Team Player'' ''Join a company team'' PerkNone True,
     Badge ''WT'' ''Winning Team'' ''Your team finishes a month at #1 on your company leaderboard'' PerkNone False]"

definition byCode :: "string \<rightharpoonup> Badge" where
  "byCode = map_of (rev (map (\<lambda>b. (b_Code b, b)) Catalog))"

definition Lookup :: "string \<Rightarrow> Badge option" where
  "Lookup code = byCode code"

definition CodesForPerk :: "Perk \<Rightarrow> string list" where
  "CodesForPerk perk = (if perk = PerkNone then [] else map b_Code (filter (\<lambda>b. b_Perk b = perk) Catalog))"

definition HoldsPerk :: "string set \<Rightarrow> Perk \<Rightarrow> bool" where
  "HoldsPerk earned perk =
     (if perk = PerkNone then False else list_ex (\<lambda>code. code \<in> earned) (CodesForPerk perk))"

section \<open>Signals and the earn engine\<close>

record Signals =
  FirstGiftMade :: bool
  FoundingQualified :: bool
  StreakDays :: int
  ComebackReached30 :: bool
  RaisedAmount :: bool
  ConvertedReferrals :: int
  HasIRLReferral :: bool
  DistinctInitiatives :: int
  NationalTopPercent :: "int option"
  NationalPopulation :: int
  CityRank :: "int option"
  City :: string
  CityPopulation :: int
  VolunteerOptIn :: bool
  EventCheckins :: int
  JoinedTeam :: bool

definition MinRankPopulation :: int where "MinRankPopulation = 100"

definition streakDayBadges :: "(string \<times> int) list" where
  "streakDayBadges = [(''7'', 7), (''30'', 30), (''100'', 100), (''Y1'', 365), (''1K'', 1000), (''Y3'', 1095)]"

text \<open>\<open>earned[code] = true\<close>, for every code whose threshold the count reaches.\<close>

definition earn :: "bool \<Rightarrow> string \<Rightarrow> string set \<Rightarrow> string set" where
  "earn holds code earned = (if holds then insert code earned else earned)"

definition earn_counts :: "int \<Rightarrow> (string \<times> int) list \<Rightarrow> string set \<Rightarrow> string set" where
  "earn_counts n table earned = foldl (\<lambda>earned (code, t). earn (n \<ge> t) code earned) earned table"

definition Evaluate :: "Signals \<Rightarrow> string set" where
  "Evaluate s =
     (let earned = {};
          earned = earn (FoundingQualified s) ''F'' earned;
          earned = earn (FirstGiftMade s) ''1D'' earned;
          earned = earn_counts (StreakDays s) streakDayBadges earned;
          earned = earn (ComebackReached30 s) ''CB'' earned;
          earned = earn (RaisedAmount s) ''UP'' earned;
          earned = earn_counts (ConvertedReferrals s) [(''REF1'', 1), (''REF3'', 3), (''REF12'', 12), (''TC'', 20)] earned;
          earned = earn (HasIRLReferral s) ''IRL'' earned;
          earned = earn (DistinctInitiatives s \<ge> 7) ''INIT7'' earned;
          earned = earn (case NationalTopPercent s of None \<Rightarrow> False
                         | Some p \<Rightarrow> p \<le> 2 \<and> NationalPopulation s \<ge> MinRankPopulation) ''NAT2'' earned;
          earned = earn (case CityRank s of None \<Rightarrow> False
                         | Some r \<Rightarrow> r \<le> 50 \<and> CityPopulation s \<ge> MinRankPopulation) ''CITY50'' earned;
          earned = earn (VolunteerOptIn s) ''V'' earned;
          earned = earn_counts (EventCheckins s) [(''SU'', 1), (''V3'', 3), (''V10'', 10)] earned;
          earned = earn (JoinedTeam s) ''TP'' earned
      in {code \<in> earned. case byCode code of None \<Rightarrow> False | Some b \<Rightarrow> b_Live b})"

section \<open>Configured rules\<close>

record BadgeRule =
  br_Code :: string
  br_Signal :: string
  br_Threshold :: int
  br_MinPopulation :: int
  br_Artwork :: string

record RecognitionRules =
  rr_Badges :: "BadgeRule list"
  rr_Milestones :: "int list"

definition default_rule :: "string \<Rightarrow> int \<Rightarrow> int \<Rightarrow> BadgeRule" where
  "default_rule signal threshold population =
     \<lparr>br_Code = [], br_Signal = signal, br_Threshold = threshold, br_MinPopulation = population, br_Artwork = []\<rparr>"

definition defaultBadgeRules :: "BadgeRule gomap" where
  "defaultBadgeRules =
    [(''F'', default_rule ''founding'' 1 0), (''1D'', default_rule ''first_gift'' 1 0),
     (''7'', default_rule ''streak_days'' 7 0), (''30'', default_rule ''streak_days'' 30 0),
     (''100'', default_rule ''streak_days'' 100 0), (''Y1'', default_rule ''streak_days'' 365 0),
     (''1K'', default_rule ''streak_days'' 1000 0), (''Y3'', default_rule ''streak_days'' 1095 0),
     (''CB'', default_rule ''comeback'' 1 0), (''UP'', default_rule ''raised_amount'' 1 0),
     (''REF1'', default_rule ''referrals'' 1 0), (''REF3'', default_rule ''referrals'' 3 0),
     (''REF12'', default_rule ''referrals'' 12 0), (''TC'', default_rule ''referrals'' 20 0),
     (''IRL'', default_rule ''irl_referral'' 1 0), (''V'', default_rule ''volunteer'' 1 0),
     (''SU'', default_rule ''checkins'' 1 0), (''V3'', default_rule ''checkins'' 3 0),
     (''V10'', default_rule ''checkins'' 10 0), (''INIT7'', default_rule ''initiatives'' 7 0),
     (''CITY50'', default_rule ''city_rank'' 50 MinRankPopulation),
     (''NAT2'', default_rule ''national_percentile'' 2 MinRankPopulation),
     (''TP'', default_rule ''team'' 1 0), (''WT'', default_rule ''monthly_winner'' 1 0)]"

text \<open>
  The tables \<open>donor_badge_rules\<close>, unique by code, and \<open>donor_milestone_rules\<close>, at most one row;
  the queries read them ordered by code and write them by upsert. Beside them, what a change
  also touches: the time each donor's projection is next refreshed, and the staff audit
  log. The bookkeeping columns \<open>updated_at\<close> and \<open>actor_id\<close> of the rule tables, which no query
  reads, and the random identifiers of audit rows are left out.
\<close>

record staff_audit =
  a_actor :: string
  a_action :: string
  a_target :: string
  a_details :: "int list"
  a_created_at :: time

record rules_db =
  t_badge_rules :: "BadgeRule gomap"
  t_milestone_rules :: "int list option"
  t_next_refresh_at :: "time gomap"
  t_staff_audit :: "staff_audit list"

definition q_BadgeRules :: "rules_db \<Rightarrow> BadgeRule list" where
  "q_BadgeRules db = map snd (sort_key fst (t_badge_rules db))"

definition q_SetBadgeRule :: "BadgeRule \<Rightarrow> rules_db \<Rightarrow> rules_db" where
  "q_SetBadgeRule r db = db\<lparr>t_badge_rules := AList.update (br_Code r) r (t_badge_rules db)\<rparr>"

definition q_MilestoneRules :: "rules_db \<Rightarrow> int list list" where
  "q_MilestoneRules db = (case t_milestone_rules db of None \<Rightarrow> [] | Some days \<Rightarrow> [days])"

definition q_SetMilestoneRules :: "int list \<Rightarrow> rules_db \<Rightarrow> rules_db" where
  "q_SetMilestoneRules days db = db\<lparr>t_milestone_rules := Some days\<rparr>"

definition q_RefreshRecognitionSchedule :: "time \<Rightarrow> rules_db \<Rightarrow> rules_db" where
  "q_RefreshRecognitionSchedule now db =
     db\<lparr>t_next_refresh_at := map (\<lambda>(donor, t). (donor, min t now)) (t_next_refresh_at db)\<rparr>"

definition auditStaff :: "string \<Rightarrow> string \<Rightarrow> string \<Rightarrow> int list \<Rightarrow> time \<Rightarrow> rules_db \<Rightarrow> rules_db" where
  "auditStaff actor action target details now db =
     db\<lparr>t_staff_audit := t_staff_audit db @ [\<lparr>a_actor = actor, a_action = action, a_target = target,
           a_details = details, a_created_at = now\<rparr>]\<rparr>"

text \<open>Reading a missing key of the default table gives the zero rule.\<close>

definition zero_rule :: BadgeRule where
  "zero_rule = \<lparr>br_Code = [], br_Signal = [], br_Threshold = 0, br_MinPopulation = 0, br_Artwork = []\<rparr>"

definition recognitionRules :: "rules_db \<Rightarrow> RecognitionRules" where
  "recognitionRules db =
     (let custom = foldl (\<lambda>m r. AList.update (br_Code r) r m) [] (q_BadgeRules db);
          badges = map (\<lambda>b.
            let rule = (case map_of defaultBadgeRules (b_Code b) of None \<Rightarrow> zero_rule | Some r \<Rightarrow> r);
                rule = rule\<lparr>br_Code := b_Code b\<rparr>;
                rule = rule\<lparr>br_MinPopulation := max (br_MinPopulation rule) 1\<rparr>
            in case map_of custom (b_Code b) of Some c \<Rightarrow> c | None \<Rightarrow> rule) Catalog;
          ms = q_MilestoneRules db
      in \<lparr>rr_Badges = badges, rr_Milestones = (if ms \<noteq> [] then hd ms else LadderMilestones)\<rparr>)"

definition configuredLadder :: "rules_db \<Rightarrow> streak \<Rightarrow> time \<Rightarrow> location \<Rightarrow> streak_ladder option" where
  "configuredLadder db run now zone = LadderWithMilestones run now zone (rr_Milestones (recognitionRules db))"

definition ruleEarned :: "BadgeRule \<Rightarrow> Signals \<Rightarrow> bool" where
  "ruleEarned r s =
     (let signal = br_Signal r; reached = (\<lambda>n. n \<ge> br_Threshold r)
      in if signal = ''streak_days'' then reached (StreakDays s)
         else if signal = ''referrals'' then reached (ConvertedReferrals s)
         else if signal = ''checkins'' then reached (EventCheckins s)
         else if signal = ''initiatives'' then reached (DistinctInitiatives s)
         else if signal = ''city_rank'' then
           (case CityRank s of None \<Rightarrow> False
            | Some n \<Rightarrow> n \<le> br_Threshold r \<and> CityPopulation s \<ge> br_MinPopulation r)
         else if signal = ''national_percentile'' then
           (case NationalTopPercent s of None \<Rightarrow> False
            | Some n \<Rightarrow> n \<le> br_Threshold r \<and> NationalPopulation s \<ge> br_MinPopulation r)
         else if signal = ''founding'' then FoundingQualified s
         else if signal = ''first_gift'' then FirstGiftMade s
         else if signal = ''comeback'' then ComebackReached30 s
         else if signal = ''raised_amount'' then RaisedAmount s
         else if signal = ''irl_referral'' then HasIRLReferral s
         else if signal = ''volunteer'' then VolunteerOptIn s
         else if signal = ''team'' then JoinedTeam s
         else False)"

section \<open>Changing the rules\<close>

datatype staff_error = ErrStaffInput | ErrStaffOther string

text \<open>
  \<open>SetRules\<close> first validates its input. \<open>cleanLogo\<close> decodes and re-encodes the artwork
  (image codecs of the standard library, a parameter), \<open>base64\<close> encodes its bytes.
\<close>

fun milestones_ok :: "int option \<Rightarrow> int list \<Rightarrow> bool" where
  "milestones_ok prev [] = True"
| "milestones_ok prev (n # ns) =
     (\<not> (n < 1 \<or> n > 1000000 \<or> prev = Some n) \<and> milestones_ok (Some n) ns)"

fun badge_rules_ok :: "(string \<Rightarrow> string option) \<Rightarrow> string set \<Rightarrow> BadgeRule list \<Rightarrow> bool" where
  "badge_rules_ok cleanLogo seen [] = True"
| "badge_rules_ok cleanLogo seen (b # bs) =
     (case map_of defaultBadgeRules (br_Code b) of
        None \<Rightarrow> False
      | Some def \<Rightarrow>
          if br_Code b \<in> seen \<or> br_Signal b \<noteq> br_Signal def \<or> br_Threshold b < 1 \<or> br_Threshold b > 1000000
          then False
          else if br_Signal b = ''national_percentile'' \<and> br_Threshold b > 100 then False
          else let ranked = (br_Signal b = ''city_rank'' \<or> br_Signal b = ''national_percentile'')
          in if br_MinPopulation b < 1 \<or> br_MinPopulation b > 1000000 \<or> (\<not> ranked \<and> br_MinPopulation b \<noteq> 1) then False
          else if br_Signal b \<noteq> ''streak_days'' \<and> br_Signal b \<noteq> ''referrals'' \<and> br_Signal b \<noteq> ''checkins''
               \<and> br_Signal b \<noteq> ''initiatives'' \<and> br_Signal b \<noteq> ''city_rank''
               \<and> br_Signal b \<noteq> ''national_percentile'' \<and> br_Threshold b \<noteq> 1 then False
          else if br_Artwork b \<noteq> [] \<and> cleanLogo (br_Artwork b) = None then False
          else badge_rules_ok cleanLogo (insert (br_Code b) seen) bs)"

definition rules_ok :: "(string \<Rightarrow> string option) \<Rightarrow> RecognitionRules \<Rightarrow> bool" where
  "rules_ok cleanLogo rules \<longleftrightarrow>
     \<not> (length (rr_Milestones rules) = 0 \<or> length (rr_Milestones rules) > 32 \<or> \<not> sorted (rr_Milestones rules))
     \<and> milestones_ok None (rr_Milestones rules)
     \<and> length (rr_Badges rules) = length Catalog
     \<and> badge_rules_ok cleanLogo {} (rr_Badges rules)"

text \<open>
  Then it writes in the transaction \<open>staffWrite\<close> opens for an authorised actor; the outcome
  of the authorisation is an argument.
\<close>

definition stored_rule :: "(string \<Rightarrow> string option) \<Rightarrow> (string \<Rightarrow> string) \<Rightarrow> BadgeRule \<Rightarrow> BadgeRule" where
  "stored_rule cleanLogo base64 b =
     (if br_Artwork b \<noteq> []
      then b\<lparr>br_Artwork := ''data:image/png;base64,'' @ base64 (case cleanLogo (br_Artwork b) of None \<Rightarrow> [] | Some png \<Rightarrow> png)\<rparr>
      else b)"

definition SetRules ::
  "(string \<Rightarrow> string option) \<Rightarrow> (string \<Rightarrow> string) \<Rightarrow> staff_error + string \<Rightarrow> RecognitionRules \<Rightarrow> time \<Rightarrow> rules_db
     \<Rightarrow> staff_error + rules_db" where
  "SetRules cleanLogo base64 auth rules now db =
     (if \<not> rules_ok cleanLogo rules then Inl ErrStaffInput
      else rbind auth (\<lambda>actor.
        let db = foldl (\<lambda>db b. q_SetBadgeRule (stored_rule cleanLogo base64 b) db) db (rr_Badges rules);
            db = q_SetMilestoneRules (rr_Milestones rules) db;
            db = q_RefreshRecognitionSchedule now db
        in Inr (auditStaff actor ''content.recognition_rules_changed'' ''recognition'' (rr_Milestones rules) now db)))"

section \<open>The engine awards what the default rules award\<close>

lemma mem_earn [simp]: "c \<in> earn holds code E \<longleftrightarrow> c \<in> E \<or> (c = code \<and> holds)"
  by (auto simp: earn_def)

lemma mem_earn_counts [simp]: "c \<in> earn_counts n table E \<longleftrightarrow> c \<in> E \<or> (\<exists>x\<in>set table. c = fst x \<and> snd x \<le> n)"
  unfolding earn_counts_def
proof (induction table arbitrary: E)
  case (Cons x table)
  then show ?case by (cases x) auto
qed simp

definition live_code :: "string \<Rightarrow> bool" where
  "live_code code = (case byCode code of None \<Rightarrow> False | Some b \<Rightarrow> b_Live b)"

definition engine_codes :: "string list" where
  "engine_codes = [''F'', ''1D'', ''7'', ''30'', ''100'', ''Y1'', ''1K'', ''Y3'', ''CB'', ''UP'', ''REF1'', ''REF3'', ''REF12'',
     ''TC'', ''IRL'', ''V'', ''SU'', ''V3'', ''V10'', ''INIT7'', ''CITY50'', ''NAT2'', ''TP'']"

lemma engine_codes_live: "list_all live_code engine_codes"
  by code_simp

lemma mem_Evaluate:
  "c \<in> Evaluate s \<longleftrightarrow>
     c = ''F'' \<and> FoundingQualified s \<or> c = ''1D'' \<and> FirstGiftMade s
     \<or> c = ''7'' \<and> 7 \<le> StreakDays s \<or> c = ''30'' \<and> 30 \<le> StreakDays s \<or> c = ''100'' \<and> 100 \<le> StreakDays s
     \<or> c = ''Y1'' \<and> 365 \<le> StreakDays s \<or> c = ''1K'' \<and> 1000 \<le> StreakDays s \<or> c = ''Y3'' \<and> 1095 \<le> StreakDays s
     \<or> c = ''CB'' \<and> ComebackReached30 s \<or> c = ''UP'' \<and> RaisedAmount s
     \<or> c = ''REF1'' \<and> 1 \<le> ConvertedReferrals s \<or> c = ''REF3'' \<and> 3 \<le> ConvertedReferrals s
     \<or> c = ''REF12'' \<and> 12 \<le> ConvertedReferrals s \<or> c = ''TC'' \<and> 20 \<le> ConvertedReferrals s
     \<or> c = ''IRL'' \<and> HasIRLReferral s \<or> c = ''V'' \<and> VolunteerOptIn s
     \<or> c = ''SU'' \<and> 1 \<le> EventCheckins s \<or> c = ''V3'' \<and> 3 \<le> EventCheckins s \<or> c = ''V10'' \<and> 10 \<le> EventCheckins s
     \<or> c = ''INIT7'' \<and> 7 \<le> DistinctInitiatives s
     \<or> c = ''CITY50'' \<and> (\<exists>r. CityRank s = Some r \<and> r \<le> 50 \<and> 100 \<le> CityPopulation s)
     \<or> c = ''NAT2'' \<and> (\<exists>p. NationalTopPercent s = Some p \<and> p \<le> 2 \<and> 100 \<le> NationalPopulation s)
     \<or> c = ''TP'' \<and> JoinedTeam s"
  (is "_ \<longleftrightarrow> ?R")
proof -
  have live: "?R \<Longrightarrow> live_code c"
    using engine_codes_live unfolding engine_codes_def list.pred_inject by blast
  have ranks: "(case CityRank s of None \<Rightarrow> False | Some r \<Rightarrow> r \<le> 50 \<and> MinRankPopulation \<le> CityPopulation s)
      \<longleftrightarrow> (\<exists>r. CityRank s = Some r \<and> r \<le> 50 \<and> 100 \<le> CityPopulation s)"
    "(case NationalTopPercent s of None \<Rightarrow> False | Some r \<Rightarrow> r \<le> 2 \<and> MinRankPopulation \<le> NationalPopulation s)
      \<longleftrightarrow> (\<exists>r. NationalTopPercent s = Some r \<and> r \<le> 2 \<and> 100 \<le> NationalPopulation s)"
    by (auto simp: MinRankPopulation_def split: option.splits)
  have eq: "c \<in> Evaluate s \<longleftrightarrow> ?R \<and> live_code c"
    unfolding Evaluate_def Let_def live_code_def[symmetric] ranks
    by (simp only: mem_Collect_eq mem_earn mem_earn_counts streakDayBadges_def list.set(1,2) bex_simps(5,7) fst_conv snd_conv
        empty_iff bex_empty simp_thms disj_ac)
  have absorb: "P \<and> Q \<longleftrightarrow> P" if "P \<Longrightarrow> Q" for P Q using that by blast
  show ?thesis unfolding eq by (rule absorb) (rule live)
qed


definition no_rules :: rules_db where "no_rules = \<lparr>t_badge_rules = [], t_milestone_rules = None, t_next_refresh_at = [], t_staff_audit = []\<rparr>"

lemma default_rules_eq:
  "rr_Badges (recognitionRules no_rules) = map (\<lambda>(c, signal, n, m). (default_rule signal n m)\<lparr>br_Code := c\<rparr>)
    [(''F'', ''founding'', 1, 1), (''1D'', ''first_gift'', 1, 1), (''7'', ''streak_days'', 7, 1), (''30'', ''streak_days'', 30, 1),
     (''100'', ''streak_days'', 100, 1), (''Y1'', ''streak_days'', 365, 1), (''1K'', ''streak_days'', 1000, 1),
     (''Y3'', ''streak_days'', 1095, 1), (''CB'', ''comeback'', 1, 1), (''UP'', ''raised_amount'', 1, 1),
     (''REF1'', ''referrals'', 1, 1), (''REF3'', ''referrals'', 3, 1), (''REF12'', ''referrals'', 12, 1), (''TC'', ''referrals'', 20, 1),
     (''IRL'', ''irl_referral'', 1, 1), (''V'', ''volunteer'', 1, 1), (''SU'', ''checkins'', 1, 1), (''V3'', ''checkins'', 3, 1),
     (''V10'', ''checkins'', 10, 1), (''INIT7'', ''initiatives'', 7, 1), (''CITY50'', ''city_rank'', 50, 100),
     (''NAT2'', ''national_percentile'', 2, 100), (''TP'', ''team'', 1, 1), (''WT'', ''monthly_winner'', 1, 1)]"
  by code_simp

lemma ruleEarned_defaults:
  fixes c n m s
  defines "rule \<equiv> \<lambda>signal. (default_rule signal n m)\<lparr>br_Code := c\<rparr>"
  shows "ruleEarned (rule ''founding'') s = FoundingQualified s"
    "ruleEarned (rule ''first_gift'') s = FirstGiftMade s"
    "ruleEarned (rule ''streak_days'') s = (n \<le> StreakDays s)"
    "ruleEarned (rule ''comeback'') s = ComebackReached30 s"
    "ruleEarned (rule ''raised_amount'') s = RaisedAmount s"
    "ruleEarned (rule ''referrals'') s = (n \<le> ConvertedReferrals s)"
    "ruleEarned (rule ''irl_referral'') s = HasIRLReferral s"
    "ruleEarned (rule ''volunteer'') s = VolunteerOptIn s"
    "ruleEarned (rule ''checkins'') s = (n \<le> EventCheckins s)"
    "ruleEarned (rule ''initiatives'') s = (n \<le> DistinctInitiatives s)"
    "ruleEarned (rule ''city_rank'') s = (\<exists>r. CityRank s = Some r \<and> r \<le> n \<and> m \<le> CityPopulation s)"
    "ruleEarned (rule ''national_percentile'') s =
       (\<exists>r. NationalTopPercent s = Some r \<and> r \<le> n \<and> m \<le> NationalPopulation s)"
    "ruleEarned (rule ''team'') s = JoinedTeam s"
    "ruleEarned (rule ''monthly_winner'') s = False"
  by (simp_all add: ruleEarned_def rule_def default_rule_def) (auto split: option.splits)

text \<open>
  C11. The engine and the configurable rules agree: \<open>Evaluate\<close> awards a badge exactly when the rule
  that \<open>recognitionRules\<close> serves for it, with nothing configured, is earned by the signals;
  Winning Team is never among them.
\<close>

theorem Evaluate_default_rules:
  "Evaluate s = br_Code ` {r \<in> set (rr_Badges (recognitionRules no_rules)). ruleEarned r s}"
proof (rule set_eqI)
  fix c
  let ?rule = "\<lambda>(c, signal, n, m). (default_rule signal n m)\<lparr>br_Code := c\<rparr>"
  have image: "c \<in> br_Code ` {r \<in> set (map ?rule xs). ruleEarned r s} \<longleftrightarrow>
    (\<exists>x\<in>set xs. c = fst x \<and> ruleEarned (?rule x) s)" for xs
    by (force simp: image_iff)
  show "c \<in> Evaluate s \<longleftrightarrow> c \<in> br_Code ` {r \<in> set (rr_Badges (recognitionRules no_rules)). ruleEarned r s}"
    unfolding mem_Evaluate default_rules_eq image
    by (simp only: list.set(1,2) bex_simps(5,7) bex_empty prod.case fst_conv ruleEarned_defaults simp_thms)
qed


text \<open>What a donor has can only grow: counts rise, ranks improve, populations grow.\<close>

definition rank_le :: "int option \<Rightarrow> int option \<Rightarrow> bool" where
  "rank_le a b = (case a of None \<Rightarrow> True | Some m \<Rightarrow> (case b of None \<Rightarrow> False | Some n \<Rightarrow> n \<le> m))"

definition signals_le :: "Signals \<Rightarrow> Signals \<Rightarrow> bool" where
  "signals_le s t \<longleftrightarrow>
     (FirstGiftMade s \<longrightarrow> FirstGiftMade t) \<and> (FoundingQualified s \<longrightarrow> FoundingQualified t)
     \<and> StreakDays s \<le> StreakDays t \<and> (ComebackReached30 s \<longrightarrow> ComebackReached30 t)
     \<and> (RaisedAmount s \<longrightarrow> RaisedAmount t) \<and> ConvertedReferrals s \<le> ConvertedReferrals t
     \<and> (HasIRLReferral s \<longrightarrow> HasIRLReferral t) \<and> DistinctInitiatives s \<le> DistinctInitiatives t
     \<and> rank_le (NationalTopPercent s) (NationalTopPercent t) \<and> NationalPopulation s \<le> NationalPopulation t
     \<and> rank_le (CityRank s) (CityRank t) \<and> CityPopulation s \<le> CityPopulation t
     \<and> (VolunteerOptIn s \<longrightarrow> VolunteerOptIn t) \<and> EventCheckins s \<le> EventCheckins t
     \<and> (JoinedTeam s \<longrightarrow> JoinedTeam t)"

lemma ruleEarned_mono:
  assumes "signals_le s t" and "ruleEarned r s"
  shows "ruleEarned r t"
proof -
  have ranks: "rank_le (CityRank s) (CityRank t)" "rank_le (NationalTopPercent s) (NationalTopPercent t)"
    using assms(1) by (simp_all add: signals_le_def)
  show ?thesis
    using assms ranks unfolding ruleEarned_def Let_def
    by (auto simp: signals_le_def rank_le_def split: if_splits option.splits)
qed

text \<open>
  Badges are monotone in the signals: whatever rules staff configured, better signals never
  lose a badge that worse ones earned.
\<close>

lemma configured_badges_mono:
  assumes "signals_le s t"
  shows "{r \<in> set (rr_Badges (recognitionRules db)). ruleEarned r s} \<subseteq> {r \<in> set (rr_Badges (recognitionRules db)). ruleEarned r t}"
  using ruleEarned_mono[OF assms] by blast


definition some_signals :: "int \<Rightarrow> Signals" where
  "some_signals n = \<lparr>FirstGiftMade = True, FoundingQualified = False, StreakDays = n, ComebackReached30 = False,
     RaisedAmount = False, ConvertedReferrals = 0, HasIRLReferral = False, DistinctInitiatives = 0,
     NationalTopPercent = Some 2, NationalPopulation = 100 + n, CityRank = None, City = [], CityPopulation = 0,
     VolunteerOptIn = False, EventCheckins = 0, JoinedTeam = False\<rparr>"

section \<open>Changed rules\<close>

text \<open>The table is keyed by code, which its primary key ensures.\<close>

definition rules_db_ok :: "rules_db \<Rightarrow> bool" where
  "rules_db_ok db \<longleftrightarrow> distinct (map fst (t_badge_rules db)) \<and> (\<forall>k r. map_of (t_badge_rules db) k = Some r \<longrightarrow> br_Code r = k)"

lemma q_SetBadgeRule_ok: "rules_db_ok db \<Longrightarrow> rules_db_ok (q_SetBadgeRule r db)"
  by (simp add: rules_db_ok_def q_SetBadgeRule_def distinct_update update_conv')

lemma map_of_foldl_update:
  "inj_on f (set xs) \<Longrightarrow>
   map_of (foldl (\<lambda>m x. AList.update (f x) x m) m xs) k =
     (case find (\<lambda>x. f x = k) xs of Some x \<Rightarrow> Some x | None \<Rightarrow> map_of m k)"
proof (induction xs arbitrary: m)
  case (Cons x xs)
  have "y = x" if "find (\<lambda>x. f x = k) xs = Some y" "f x = k" for y
    using Cons.prems that inj_onD[OF Cons.prems, of y x] by (auto simp: find_Some_iff)
  with Cons show ?case by (auto simp: update_conv' split: option.splits)
qed simp

lemma custom_rules:
  assumes "rules_db_ok db"
  shows "map_of (foldl (\<lambda>m r. AList.update (br_Code r) r m) [] (q_BadgeRules db)) k = map_of (t_badge_rules db) k"
proof -
  let ?t = "t_badge_rules db"
  have mem: "(c, r) \<in> set ?t \<longleftrightarrow> map_of ?t c = Some r" for c r
    using assms by (simp add: rules_db_ok_def)
  have rows: "r \<in> set (q_BadgeRules db) \<longleftrightarrow> map_of ?t (br_Code r) = Some r" for r
  proof -
    have "r \<in> set (q_BadgeRules db) \<longleftrightarrow> (\<exists>c. (c, r) \<in> set ?t)" unfolding q_BadgeRules_def by simp force
    also have "\<dots> \<longleftrightarrow> map_of ?t (br_Code r) = Some r"
      unfolding mem using assms unfolding rules_db_ok_def by blast
    finally show ?thesis .
  qed
  have inj: "inj_on br_Code (set (q_BadgeRules db))"
    by (rule inj_onI) (metis rows option.inject)
  have "find (\<lambda>x. br_Code x = k) (q_BadgeRules db) = map_of ?t k"
  proof (rule option_eqI)
    fix r
    show "find (\<lambda>x. br_Code x = k) (q_BadgeRules db) = Some r \<longleftrightarrow> map_of ?t k = Some r"
      using find_unique[OF inj, of k "\<lambda>_. True" r] assms by (auto simp: rows rules_db_ok_def)
  qed
  then show ?thesis by (simp add: map_of_foldl_update[OF inj] split: option.splits)
qed

lemma badge_rules_ok_codes:
  "badge_rules_ok cleanLogo seen bs \<Longrightarrow>
   distinct (map br_Code bs) \<and> set (map br_Code bs) \<inter> seen = {} \<and> set (map br_Code bs) \<subseteq> dom (map_of defaultBadgeRules)"
proof (induction bs arbitrary: seen)
  case (Cons b bs)
  then obtain def where "map_of defaultBadgeRules (br_Code b) = Some def" "br_Code b \<notin> seen"
    "badge_rules_ok cleanLogo (insert (br_Code b) seen) bs"
    by (auto simp: Let_def split: option.splits if_splits)
  with Cons.IH show ?case by auto
qed simp

lemma default_codes: "map fst defaultBadgeRules = map b_Code Catalog" "distinct (map b_Code Catalog)"
  by code_simp+


lemma foldl_SetBadgeRule:
  "t_badge_rules (foldl (\<lambda>db b. q_SetBadgeRule (g b) db) db bs) =
     foldl (\<lambda>m r. AList.update (br_Code r) r m) (t_badge_rules db) (map g bs)"
  by (induction bs arbitrary: db) (simp_all add: q_SetBadgeRule_def)

lemma stored_rule_code [simp]: "br_Code (stored_rule cleanLogo base64 b) = br_Code b"
  by (simp add: stored_rule_def)

lemma SetRules_cases:
  assumes "SetRules cleanLogo base64 auth rules now db = Inr db'"
  shows "rules_ok cleanLogo rules"
    and "t_badge_rules db' = t_badge_rules (foldl (\<lambda>db b. q_SetBadgeRule (stored_rule cleanLogo base64 b) db) db (rr_Badges rules))"
    and "t_milestone_rules db' = Some (rr_Milestones rules)"
    and "\<forall>t\<in>set (map snd (t_next_refresh_at db')). t \<le> now"
  using assms by (auto simp: SetRules_def rbind_eq_Inr Let_def auditStaff_def q_RefreshRecognitionSchedule_def
    q_SetMilestoneRules_def split: if_splits)

text \<open>Reading a uniquely keyed list in the order of another list of its keys.\<close>

lemma find_by_key:
  assumes inj: "inj_on f (set xs)" and keys: "f ` set xs = g ` set ys"
  shows "map (\<lambda>b. f (the (find (\<lambda>r. f r = g b) xs))) ys = map g ys"
    and "(\<lambda>b. the (find (\<lambda>r. f r = g b) xs)) ` set ys = set xs"
proof -
  have found: "\<exists>r. find (\<lambda>r. f r = g b) xs = Some r \<and> r \<in> set xs \<and> f r = g b" if "b \<in> set ys" for b
  proof -
    from that have "g b \<in> f ` set xs" by (simp add: keys)
    then obtain r where "r \<in> set xs" "f r = g b" by auto
    with find_unique[OF inj, of "g b" "\<lambda>_. True" r] show ?thesis by simp
  qed
  show "map (\<lambda>b. f (the (find (\<lambda>r. f r = g b) xs))) ys = map g ys"
    by (rule map_cong[OF refl]) (auto dest: found)
  have "r \<in> (\<lambda>b. the (find (\<lambda>r. f r = g b) xs)) ` set ys" if "r \<in> set xs" for r
  proof -
    from that have "f r \<in> g ` set ys" by (simp flip: keys)
    then obtain b where b: "b \<in> set ys" "g b = f r" by auto
    have "find (\<lambda>r. f r = g b) xs = Some r"
      using find_unique[OF inj, of "f r" "\<lambda>_. True" r] that by (simp add: b(2))
    then show ?thesis by (intro image_eqI[OF _ b(1)]) simp
  qed
  moreover have "the (find (\<lambda>r. f r = g b) xs) \<in> set xs" if "b \<in> set ys" for b
    using found[OF that] by auto
  ultimately show "(\<lambda>b. the (find (\<lambda>r. f r = g b) xs)) ` set ys = set xs" by blast
qed

text \<open>
  C12. Changed rules round trip: after \<open>SetRules\<close> accepted an input, \<open>recognitionRules\<close> serves exactly
  its milestones and, in catalog order and for every badge of the catalog, exactly the rules
  given (their artwork re-encoded); no default and no earlier rule shines through. Every
  donor's projection is due for a refresh by then.
\<close>

theorem SetRules_roundtrip:
  assumes "rules_db_ok db" and "SetRules cleanLogo base64 auth rules now db = Inr db'"
  shows "rules_db_ok db' \<and> rr_Milestones (recognitionRules db') = rr_Milestones rules
    \<and> map br_Code (rr_Badges (recognitionRules db')) = map b_Code Catalog
    \<and> set (rr_Badges (recognitionRules db')) = stored_rule cleanLogo base64 ` set (rr_Badges rules)
    \<and> (\<forall>t\<in>set (map snd (t_next_refresh_at db')). t \<le> now)"
proof -
  let ?stored = "map (stored_rule cleanLogo base64) (rr_Badges rules)"
  note ok = SetRules_cases(1)[OF assms(2)] and db' = SetRules_cases(2)[OF assms(2)]
  have "rules_db_ok (foldl (\<lambda>db b. q_SetBadgeRule (stored_rule cleanLogo base64 b) db) db bs)" for bs
    using assms(1) by (induction bs rule: rev_induct) (simp_all add: q_SetBadgeRule_ok)
  then have ok': "rules_db_ok db'" by (simp add: rules_db_ok_def db')
  have codes: "distinct (map br_Code ?stored)" "set (map br_Code ?stored) \<subseteq> set (map b_Code Catalog)"
    "length ?stored = length Catalog"
    using ok badge_rules_ok_codes[of cleanLogo "{}" "rr_Badges rules"]
    by (auto simp: rules_ok_def comp_def dom_map_of_conv_image_fst simp flip: default_codes(1) set_map)
  have inj: "inj_on br_Code (set ?stored)" using codes(1) unfolding distinct_map by blast
  have all: "set (map br_Code ?stored) = set (map b_Code Catalog)"
    using codes by (intro card_subset_eq) (simp_all add: distinct_card default_codes(2) del: set_map)
  have table: "map_of (t_badge_rules db') c = find (\<lambda>r. br_Code r = c) ?stored" if "c \<in> set (map b_Code Catalog)" for c
  proof -
    have "find (\<lambda>r. br_Code r = c) ?stored \<noteq> None" using that unfolding all[symmetric] by (auto simp: find_None_iff)
    then show ?thesis
      by (auto simp: db' foldl_SetBadgeRule map_of_foldl_update[OF inj])
  qed
  have badges: "rr_Badges (recognitionRules db') = map (\<lambda>b. the (find (\<lambda>r. br_Code r = b_Code b) ?stored)) Catalog"
  proof -
    have "\<exists>r. map_of (t_badge_rules db') (b_Code b) = Some r \<and> find (\<lambda>r. br_Code r = b_Code b) ?stored = Some r"
      if "b \<in> set Catalog" for b
    proof -
      from that have "b_Code b \<in> set (map br_Code ?stored)" unfolding all by simp
      then have "find (\<lambda>r. br_Code r = b_Code b) ?stored \<noteq> None" by (auto simp: find_None_iff)
      with table[of "b_Code b"] that show ?thesis by auto
    qed
    then show ?thesis
      by (fastforce simp: recognitionRules_def Let_def custom_rules[OF ok'])
  qed
  have keys: "br_Code ` set ?stored = b_Code ` set Catalog" using all by (simp only: set_map)
  have "rr_Milestones (recognitionRules db') = rr_Milestones rules"
    by (simp add: recognitionRules_def q_MilestoneRules_def Let_def SetRules_cases(3)[OF assms(2)])
  moreover have "map br_Code (rr_Badges (recognitionRules db')) = map b_Code Catalog"
    unfolding badges map_map comp_def by (rule find_by_key(1)[OF inj keys])
  moreover have "set (rr_Badges (recognitionRules db')) = stored_rule cleanLogo base64 ` set (rr_Badges rules)"
    unfolding badges set_map[of _ Catalog] find_by_key(2)[OF inj keys] by simp
  ultimately show ?thesis using ok' SetRules_cases(4)[OF assms(2)] by blast
qed

text \<open>The rule tables that accepted changes lead to.\<close>

inductive configured :: "(string \<Rightarrow> string option) \<Rightarrow> (string \<Rightarrow> string) \<Rightarrow> rules_db \<Rightarrow> bool"
  for cleanLogo base64 where
  configured_start: "configured cleanLogo base64 no_rules"
| configured_set: "configured cleanLogo base64 db \<Longrightarrow> SetRules cleanLogo base64 auth rules now db = Inr db' \<Longrightarrow>
    configured cleanLogo base64 db'"

lemma milestones_ok_positive: "milestones_ok prev ms \<Longrightarrow> \<forall>m\<in>set ms. 0 < m"
  by (induction prev ms rule: milestones_ok.induct) auto

lemma configured_milestones:
  "configured cleanLogo base64 db \<Longrightarrow>
   (let ms = rr_Milestones (recognitionRules db) in sorted ms \<and> (\<forall>m\<in>set ms. 0 < m) \<and> ms \<noteq> [])"
proof (induction rule: configured.induct)
  case configured_start
  then show ?case by (simp add: recognitionRules_def no_rules_def q_MilestoneRules_def LadderMilestones_def Let_def)
next
  case (configured_set db auth rules now db')
  from SetRules_cases[OF configured_set.hyps(2)] show ?case
    using milestones_ok_positive[of None "rr_Milestones rules"]
    by (auto simp: recognitionRules_def q_MilestoneRules_def Let_def rules_ok_def)
qed

text \<open>
  C13. The ladder is safe under configured rules: starting from no configuration and after any
  sequence of accepted changes, \<open>configuredLadder\<close> never indexes an empty list and shows a
  well-formed ladder.
\<close>

theorem configuredLadder_ok:
  assumes "configured cleanLogo base64 db"
  shows "\<exists>l. configuredLadder db run now zone = Some l \<and> ladder_ok (rr_Milestones (recognitionRules db)) l"
  using configured_milestones[OF assms] unfolding configuredLadder_def Let_def
  by (intro ladder_complete) auto


text \<open>A concrete change: longer milestones, every other rule as served by default.\<close>

definition sample_rules :: RecognitionRules where
  "sample_rules = (recognitionRules no_rules)\<lparr>rr_Milestones := [10, 20]\<rparr>"

definition no_logo :: "string \<Rightarrow> string option" where "no_logo s = None"

lemma sample_rules_accepted: "\<exists>db. SetRules no_logo id (Inr ''staff'') sample_rules 5 no_rules = Inr db"
proof -
  have "rules_ok no_logo sample_rules" by code_simp
  then show ?thesis by (simp add: SetRules_def Let_def)
qed

theorem SetRules_roundtrip_witness:
  "\<exists>db. rr_Milestones (recognitionRules db) = [10, 20] \<and>
     map br_Code (rr_Badges (recognitionRules db)) = map b_Code Catalog"
proof -
  obtain db where db: "SetRules no_logo id (Inr ''staff'') sample_rules 5 no_rules = Inr db"
    using sample_rules_accepted by blast
  have "rules_db_ok no_rules" by (simp add: rules_db_ok_def no_rules_def)
  from SetRules_roundtrip[OF this db] show ?thesis by (auto simp: sample_rules_def)
qed

theorem configuredLadder_ok_witness:
  "\<exists>db l. rr_Milestones (recognitionRules db) = [10, 20] \<and>
     configuredLadder db empty_streak 5 UTC = Some l \<and> ladder_ok [10, 20] l"
proof -
  obtain db where db: "SetRules no_logo id (Inr ''staff'') sample_rules 5 no_rules = Inr db"
    using sample_rules_accepted by blast
  have ms: "rr_Milestones (recognitionRules db) = [10, 20]"
    using SetRules_cases(3)[OF db] by (simp add: recognitionRules_def q_MilestoneRules_def Let_def sample_rules_def)
  have "configured no_logo id db" by (rule configured_set[OF configured_start db])
  from configuredLadder_ok[OF this, of empty_streak 5 UTC] ms show ?thesis by auto
qed

end
