(* ===== verification/Json_Facts.thy ===== *)
theory Json_Facts
  imports Go_Time
begin

text \<open>
  Processor objects (internal/payments/facts.go). An \<open>Object\<close> keeps the raw JSON of its
  members; here a raw message is the JSON value it denotes, so the accessors below are the
  decodings \<open>json.Unmarshal\<close> performs for the types the code asks for. A number keeps its
  literal, since only an integer literal in range decodes into an \<open>int64\<close>.
\<close>

section \<open>JSON values\<close>

datatype json =
    JNull
  | JBool bool
  | JNum string
  | JStr string
  | JArr "json list"
  | JObj "(string \<times> json) list"

text \<open>Decimal literals of integers, as \<open>strconv.ParseInt\<close> reads them for an \<open>int64\<close>.\<close>

definition digit :: "char \<Rightarrow> bool" where
  "digit c \<longleftrightarrow> CHR ''0'' \<le> c \<and> c \<le> CHR ''9''"

definition digits_value :: "string \<Rightarrow> int" where
  "digits_value s = foldl (\<lambda>n c. 10 * n + (of_char c - 48)) 0 s"

definition ParseInt :: "string \<Rightarrow> int option" where
  "ParseInt s =
     (let (sign, body) = (case s of c # cs \<Rightarrow> if c = CHR ''-'' then (- 1, cs) else (1, s) | [] \<Rightarrow> (1, []))
      in if body = [] \<or> \<not> list_all digit body then None
         else let n = sign * digits_value body in if - MaxInt64 - 1 \<le> n \<and> n \<le> MaxInt64 then Some n else None)"

lemma ParseInt_range: "ParseInt s = Some n \<Longrightarrow> - MaxInt64 - 1 \<le> n \<and> n \<le> MaxInt64"
  by (auto simp: ParseInt_def Let_def split: prod.splits if_splits)

section \<open>Objects\<close>

datatype facts_error = ErrFacts

definition maxUnix :: int where "maxUnix = 253402300799"

text \<open>The members in document order; a repeated name keeps its last value.\<close>

type_synonym Object = "(string \<times> json) list"

definition member :: "Object \<Rightarrow> string \<Rightarrow> json option" where
  "member obj key = map_of (rev obj) key"

text \<open>
  \<open>DecodeObject\<close> on the value of a document: \<open>None\<close> is text that is not JSON, an absent member
  among it (its raw message is empty).
\<close>

fun DecodeObject :: "json option \<Rightarrow> facts_error + Object" where
  "DecodeObject (Some (JObj kvs)) = Inr kvs"
| "DecodeObject _ = Inl ErrFacts"

definition Absent :: "Object \<Rightarrow> string \<Rightarrow> bool" where
  "Absent obj key \<longleftrightarrow> member obj key = None \<or> member obj key = Some JNull"

definition Text :: "Object \<Rightarrow> string \<Rightarrow> string" where
  "Text obj key = (case member obj key of Some (JStr s) \<Rightarrow> s | _ \<Rightarrow> [])"

definition facts_Int :: "Object \<Rightarrow> string \<Rightarrow> facts_error + int" where
  "facts_Int obj key =
     (if Absent obj key then Inl ErrFacts
      else case member obj key of
             Some (JNum lit) \<Rightarrow> (case ParseInt lit of Some n \<Rightarrow> Inr n | None \<Rightarrow> Inl ErrFacts)
           | _ \<Rightarrow> Inl ErrFacts)"

definition IntDefault :: "Object \<Rightarrow> string \<Rightarrow> facts_error + int" where
  "IntDefault obj key = (if member obj key = None then Inr 0 else facts_Int obj key)"

definition facts_Unix :: "Object \<Rightarrow> string \<Rightarrow> facts_error + time" where
  "facts_Unix obj key =
     rbind (facts_Int obj key) (\<lambda>seconds.
       if seconds < 0 \<or> seconds > maxUnix then Inl ErrFacts else Inr (of_unix seconds))"

definition BoolIs :: "Object \<Rightarrow> string \<Rightarrow> bool \<Rightarrow> bool" where
  "BoolIs obj key want \<longleftrightarrow> member obj key = Some (JBool want)"

definition facts_Object :: "Object \<Rightarrow> string \<Rightarrow> facts_error + Object" where
  "facts_Object obj key = DecodeObject (member obj key)"

text \<open>In an array of objects a null element decodes to the nil map, which reads as empty.\<close>

fun array_elements :: "json list \<Rightarrow> facts_error + Object list" where
  "array_elements [] = Inr []"
| "array_elements (JObj kvs # js) = rbind (array_elements js) (\<lambda>xs. Inr (kvs # xs))"
| "array_elements (JNull # js) = rbind (array_elements js) (\<lambda>xs. Inr ([] # xs))"
| "array_elements (j # js) = Inl ErrFacts"

definition facts_Array :: "Object \<Rightarrow> string \<Rightarrow> facts_error + Object list" where
  "facts_Array obj key =
     (case member obj key of
        Some (JArr js) \<Rightarrow> array_elements js
      | Some JNull \<Rightarrow> Inr []
      | _ \<Rightarrow> Inl ErrFacts)"

section \<open>Facts\<close>

lemma facts_Int_member: "facts_Int obj key = Inr n \<longleftrightarrow> (\<exists>lit. member obj key = Some (JNum lit) \<and> ParseInt lit = Some n)"
  by (auto simp: facts_Int_def Absent_def split: option.splits json.splits)

lemma facts_Unix_range:
  "facts_Unix obj key = Inr t \<longleftrightarrow> (\<exists>s. facts_Int obj key = Inr s \<and> 0 \<le> s \<and> s \<le> maxUnix \<and> t = of_unix s)"
  by (auto simp: facts_Unix_def rbind_eq_Inr not_less)

lemma BoolIs_unique: "BoolIs obj key a \<Longrightarrow> BoolIs obj key b \<Longrightarrow> a = b"
  by (simp add: BoolIs_def)

end
