(* ===== verification/Webhook.thy ===== *)
theory Webhook
  imports Json_Facts
begin

text \<open>
  The Stripe webhook boundary (internal/payments/webhook.go): verification of a delivery and
  its reduction to the allowlisted fields the worker verifies later. Two libraries are
  parameters: the signature check \<open>stripe.ConstructEvent\<close> and \<open>pgtype.UUID.Scan\<close>. A body is its
  bytes; \<open>decode\<close> is the JSON value they denote, \<open>None\<close> when they are not JSON.
\<close>

section \<open>Data\<close>

definition APIVersion :: string where "APIVersion = ''2026-09-30.endive''"
definition MaxWebhookBytes :: int where "MaxWebhookBytes = 256 * 1024"

datatype webhook_error = ErrUnavailable | ErrInvalidEvent | ErrEventShape | ErrInbox string

record VerifiedEvent =
  e_id :: string
  e_kind :: string
  e_occurred :: time
  e_data :: json

text \<open>What \<open>stripe.ConstructEvent\<close> returns; \<open>event.Data\<close> may be nil, its raw object may not be JSON.\<close>

record stripe_event =
  se_ID :: string
  se_Type :: string
  se_Account :: string
  se_APIVersion :: string
  se_Data :: "json option option"

text \<open>A decoded \<open>map[string]any\<close>; a missing key reads as nil, which is \<open>JNull\<close>.\<close>

definition field :: "(string \<times> json) list \<Rightarrow> string \<Rightarrow> json" where
  "field obj key = (case member obj key of None \<Rightarrow> JNull | Some v \<Rightarrow> v)"

fun object :: "json \<Rightarrow> webhook_error + (string \<times> json) list" where
  "object JNull = Inr []"
| "object (JObj kvs) = Inr kvs"
| "object _ = Inl ErrEventShape"

definition pick :: "(string \<times> json) list \<Rightarrow> string list \<Rightarrow> (string \<times> json) list" where
  "pick obj names = foldl (\<lambda>result key. AList.update key (field obj key) result) [] names"

definition uuid :: "(string \<Rightarrow> bool) \<Rightarrow> json \<Rightarrow> webhook_error + unit" where
  "uuid scan value =
     (if value = JNull \<or> value = JStr [] then Inr ()
      else case value of JStr text \<Rightarrow> if scan text then Inr () else Inl ErrEventShape | _ \<Rightarrow> Inl ErrEventShape)"

section \<open>Invoices\<close>

definition page :: "json \<Rightarrow> webhook_error + (json list \<times> bool)" where
  "page value =
     rbind (object value) (\<lambda>obj.
       let complete = (case field obj ''has_more'' of JBool has_more \<Rightarrow> \<not> has_more | _ \<Rightarrow> False)
       in case field obj ''data'' of
            JNull \<Rightarrow> Inr ([], complete)
          | JArr rows \<Rightarrow> Inr (rows, complete)
          | _ \<Rightarrow> Inl ErrEventShape)"

fun each_row :: "(json \<Rightarrow> webhook_error + json) \<Rightarrow> json list \<Rightarrow> webhook_error + json list" where
  "each_row f [] = Inr []"
| "each_row f (raw # input) = rbind (f raw) (\<lambda>row. rbind (each_row f input) (\<lambda>rows. Inr (row # rows)))"

definition invoice_line :: "json \<Rightarrow> webhook_error + json" where
  "invoice_line raw =
     rbind (object raw) (\<lambda>line.
     rbind (object (field line ''parent'')) (\<lambda>parent.
     rbind (object (field parent ''subscription_item_details'')) (\<lambda>details.
     rbind (object (field line ''period'')) (\<lambda>period.
       let row = pick line [''amount'', ''currency''];
           row = AList.update ''period'' (JObj (pick period [''start'', ''end''])) row;
           row = AList.update ''parent_type'' (field parent ''type'') row;
           row = AList.update ''subscription'' (field details ''subscription'') row;
           row = AList.update ''proration'' (field details ''proration'') row
       in Inr (JObj row)))))"

definition invoiceLines :: "json \<Rightarrow> webhook_error + (string \<times> json) list" where
  "invoiceLines value =
     rbind (page value) (\<lambda>(input, complete).
     rbind (each_row invoice_line input) (\<lambda>rows.
       Inr [(''lines_complete'', JBool complete), (''lines'', JArr rows)]))"

definition invoice_payment :: "json \<Rightarrow> webhook_error + json" where
  "invoice_payment raw =
     rbind (object raw) (\<lambda>p.
     rbind (object (field p ''payment'')) (\<lambda>payment.
       let row = pick p [''status'', ''amount_paid'', ''currency'', ''invoice'', ''livemode''];
           row = AList.update ''type'' (field payment ''type'') row;
           row = AList.update ''payment_intent'' (field payment ''payment_intent'') row
       in Inr (JObj row)))"

definition invoicePayments :: "json \<Rightarrow> webhook_error + (string \<times> json) list" where
  "invoicePayments value =
     rbind (page value) (\<lambda>(input, complete).
     rbind (each_row invoice_payment input) (\<lambda>rows.
       Inr [(''payments_complete'', JBool complete), (''payments'', JArr rows)]))"

definition maps_Copy :: "(string \<times> json) list \<Rightarrow> (string \<times> json) list \<Rightarrow> (string \<times> json) list" where
  "maps_Copy dst src = foldl (\<lambda>m (k, v). AList.update k v m) dst src"

definition addInvoiceFacts :: "(string \<times> json) list \<Rightarrow> (string \<times> json) list \<Rightarrow> webhook_error + (string \<times> json) list" where
  "addInvoiceFacts data invoice =
     rbind (invoiceLines (field invoice ''lines'')) (\<lambda>lines.
     rbind (invoicePayments (field invoice ''payments'')) (\<lambda>payments.
     rbind (object (field invoice ''status_transitions'')) (\<lambda>transitions.
       Inr (AList.update ''paid_at'' (field transitions ''paid_at'') (maps_Copy (maps_Copy data lines) payments)))))"

section \<open>The stored object\<close>

definition kept_keys :: "string list" where
  "kept_keys = [''status'', ''currency'', ''amount_received'', ''amount_paid'', ''amount_due'', ''total'',
     ''billing_reason'', ''starting_balance'', ''ending_balance'']"

text \<open>The metadata and the subscription of an event: an invoice has them under its parent.\<close>

definition event_metadata :: "string \<Rightarrow> (string \<times> json) list \<Rightarrow> webhook_error + ((string \<times> json) list \<times> json)" where
  "event_metadata kind obj =
     rbind (object (field obj ''metadata'')) (\<lambda>metadata.
       if HasPrefix kind ''invoice.''
       then rbind (object (field obj ''parent'')) (\<lambda>parent.
            rbind (object (field parent ''subscription_details'')) (\<lambda>details.
            rbind (object (field details ''metadata'')) (\<lambda>metadata.
              Inr (metadata, field details ''subscription''))))
       else Inr (metadata, field obj ''subscription''))"

text \<open>\<open>Inr None\<close> is \<open>keep = false\<close>.\<close>

definition minimalObject ::
  "(string \<Rightarrow> bool) \<Rightarrow> string \<Rightarrow> (string \<times> json) list \<Rightarrow> webhook_error + (string \<times> json) list option" where
  "minimalObject scan kind obj =
     rbind (event_metadata kind obj) (\<lambda>(metadata, subscription).
       let checkout = field metadata ''dad_checkout_id'';
           update = (if HasPrefix kind ''checkout.session.'' then field metadata ''dad_payment_update_id'' else JNull);
           checkout = (if checkout = JStr [] then JNull else checkout);
           update = (if update = JStr [] then JNull else update)
       in if checkout = JNull \<and> update = JNull \<and> \<not> HasPrefix kind ''refund.'' then Inr None
          else if uuid scan checkout \<noteq> Inr () \<or> uuid scan update \<noteq> Inr () then Inl ErrEventShape
          else case field obj ''id'' of
            JStr i \<Rightarrow>
              if i = [] \<or> length i > 255 then Inl ErrEventShape
              else
                let data = [(''id'', JStr i), (''checkout_id'', checkout), (''subscription'', subscription)];
                    data = foldl (\<lambda>data key. case member obj key of Some v \<Rightarrow> AList.update key v data | None \<Rightarrow> data) data kept_keys
                in rbind (if HasPrefix kind ''invoice.'' then addInvoiceFacts data obj else Inr data) (\<lambda>data.
                     let data = (if HasPrefix kind ''refund.''
                                 then pick obj [''id'', ''payment_intent'', ''amount'', ''currency'', ''status''] else data);
                         data = (if update \<noteq> JNull then [(''id'', JStr i), (''payment_update_id'', update)] else data)
                     in Inr (Some data))
          | _ \<Rightarrow> Inl ErrEventShape)"

section \<open>Verification\<close>

definition handled_types :: "string list" where
  "handled_types =
    [''invoice.payment_succeeded'', ''invoice.payment_failed'', ''refund.created'', ''refund.updated'', ''refund.failed'',
     ''checkout.session.completed'', ''checkout.session.expired'', ''customer.subscription.created'',
     ''customer.subscription.updated'', ''customer.subscription.deleted'',
     ''customer.subscription.pending_update_applied'', ''customer.subscription.pending_update_expired'']"

text \<open>
  The envelope struct: names match without regard to case and a later member wins; null
  clears the pointer, another type is an error.
\<close>

record envelope =
  env_Livemode :: "bool option"
  env_Created :: "int option"

fun decode_envelope :: "envelope \<Rightarrow> (string \<times> json) list \<Rightarrow> envelope option" where
  "decode_envelope env [] = Some env"
| "decode_envelope env ((k, v) # kvs) =
     (if ToLower k = ''livemode'' then
        (case v of JNull \<Rightarrow> decode_envelope (env\<lparr>env_Livemode := None\<rparr>) kvs
         | JBool b \<Rightarrow> decode_envelope (env\<lparr>env_Livemode := Some b\<rparr>) kvs | _ \<Rightarrow> None)
      else if ToLower k = ''created'' then
        (case v of JNull \<Rightarrow> decode_envelope (env\<lparr>env_Created := None\<rparr>) kvs
         | JNum lit \<Rightarrow> (case ParseInt lit of None \<Rightarrow> None | Some n \<Rightarrow> decode_envelope (env\<lparr>env_Created := Some n\<rparr>) kvs)
         | _ \<Rightarrow> None)
      else decode_envelope env kvs)"

definition unmarshal_envelope :: "json option \<Rightarrow> envelope option" where
  "unmarshal_envelope doc =
     (case doc of Some (JObj kvs) \<Rightarrow> decode_envelope \<lparr>env_Livemode = None, env_Created = None\<rparr> kvs
      | Some JNull \<Rightarrow> Some \<lparr>env_Livemode = None, env_Created = None\<rparr> | _ \<Rightarrow> None)"

text \<open>\<open>Inr None\<close> is a delivery that is accepted and ignored.\<close>

definition verifyEvent ::
  "(string \<Rightarrow> string \<Rightarrow> string \<Rightarrow> stripe_event option) \<Rightarrow> (string \<Rightarrow> bool) \<Rightarrow> (string \<Rightarrow> json option)
     \<Rightarrow> string \<Rightarrow> string \<Rightarrow> string \<Rightarrow> webhook_error + VerifiedEvent option" where
  "verifyEvent construct scan decode body signature secret =
     (if secret = [] then Inl ErrUnavailable
      else if int (length body) > MaxWebhookBytes then Inl ErrInvalidEvent
      else case construct body signature secret of
        None \<Rightarrow> Inl ErrInvalidEvent
      | Some event \<Rightarrow>
          (case unmarshal_envelope (decode body) of
             None \<Rightarrow> Inl ErrInvalidEvent
           | Some env \<Rightarrow>
               if env_Livemode env \<noteq> Some False \<or> se_Account event \<noteq> [] \<or> se_APIVersion event \<noteq> APIVersion
               then Inl ErrInvalidEvent
               else if se_Type event \<notin> set handled_types then Inr None
               else case env_Created env of
                 None \<Rightarrow> Inl ErrEventShape
               | Some created \<Rightarrow>
                   if created < 0 \<or> created > maxUnix \<or> se_ID event = [] \<or> length (se_ID event) > 255 then Inl ErrEventShape
                   else case se_Data event of
                     Some (Some (JObj obj)) \<Rightarrow>
                       rbind (minimalObject scan (se_Type event) obj) (\<lambda>data.
                         case data of
                           None \<Rightarrow> Inr None
                         | Some data \<Rightarrow> Inr (Some \<lparr>e_id = se_ID event, e_kind = se_Type event,
                                                    e_occurred = of_unix created, e_data = JObj data\<rparr>))
                   | _ \<Rightarrow> Inl ErrEventShape))"

text \<open>The inbox is the state behind \<open>SaveVerifiedEvent\<close>; \<open>None\<close> is a receiver without one.\<close>

definition Receive ::
  "(string \<Rightarrow> string \<Rightarrow> string \<Rightarrow> stripe_event option) \<Rightarrow> (string \<Rightarrow> bool) \<Rightarrow> (string \<Rightarrow> json option)
     \<Rightarrow> string \<Rightarrow> (VerifiedEvent \<Rightarrow> 's \<Rightarrow> webhook_error + 's) option \<Rightarrow> string \<Rightarrow> string \<Rightarrow> 's \<Rightarrow> webhook_error + 's" where
  "Receive construct scan decode secret inbox body signature st =
     rbind (verifyEvent construct scan decode body signature secret) (\<lambda>event.
       case event of
         None \<Rightarrow> Inr st
       | Some e \<Rightarrow> (case inbox of None \<Rightarrow> Inl ErrUnavailable | Some save \<Rightarrow> save e st))"


section \<open>What is accepted\<close>

lemma verifyEvent_cases:
  assumes "verifyEvent construct scan decode body signature secret = Inr (Some e)"
  obtains event env created obj data where "secret \<noteq> []" and "int (length body) \<le> MaxWebhookBytes"
    and "construct body signature secret = Some event" and "unmarshal_envelope (decode body) = Some env"
    and "env_Livemode env = Some False" and "se_Account event = []" and "se_APIVersion event = APIVersion"
    and "se_Type event \<in> set handled_types" and "env_Created env = Some created" and "0 \<le> created" and "created \<le> maxUnix"
    and "se_ID event \<noteq> []" and "length (se_ID event) \<le> 255" and "se_Data event = Some (Some (JObj obj))"
    and "minimalObject scan (se_Type event) obj = Inr (Some data)"
    and "e = \<lparr>e_id = se_ID event, e_kind = se_Type event, e_occurred = of_unix created, e_data = JObj data\<rparr>"
  using assms unfolding verifyEvent_def
  by (auto simp: rbind_eq_Inr not_less split: if_splits option.splits json.splits)

text \<open>
  C14. Only authentic sandbox events are stored: whatever \<open>verifyEvent\<close> returns for storing was
  signed with the configured secret, fits the size bound, is explicitly not live-mode, has the
  exact API version and no connected account, is of a handled type, and carries the signed
  event's identifier and a creation time that databases can represent.
\<close>

theorem verifyEvent_authentic:
  assumes "verifyEvent construct scan decode body signature secret = Inr (Some e)"
  shows "secret \<noteq> [] \<and> length body \<le> 262144 \<and> (\<exists>event env created. construct body signature secret = Some event
    \<and> unmarshal_envelope (decode body) = Some env \<and> env_Livemode env = Some False \<and> se_Account event = []
    \<and> se_APIVersion event = APIVersion \<and> e_id e = se_ID event \<and> 0 < length (e_id e) \<and> length (e_id e) \<le> 255
    \<and> e_kind e = se_Type event \<and> e_kind e \<in> set handled_types
    \<and> env_Created env = Some created \<and> e_occurred e = of_unix created \<and> 0 \<le> created \<and> created \<le> 253402300799)"
  using assms by (rule verifyEvent_cases) (simp add: MaxWebhookBytes_def maxUnix_def)

definition sample_object :: "(string \<times> json) list" where
  "sample_object = [(''id'', JStr ''cs_1''), (''status'', JStr ''complete''), (''customer_email'', JStr ''a@b.c''),
     (''metadata'', JObj [(''dad_checkout_id'', JStr ''c1'')])]"

definition sample_construct :: "string \<Rightarrow> string \<Rightarrow> string \<Rightarrow> stripe_event option" where
  "sample_construct body signature secret =
     (if signature = secret then Some \<lparr>se_ID = ''evt_1'', se_Type = ''checkout.session.completed'', se_Account = [],
        se_APIVersion = APIVersion, se_Data = Some (Some (JObj sample_object))\<rparr> else None)"

definition sample_decode :: "string \<Rightarrow> json option" where
  "sample_decode body = Some (JObj [(''livemode'', JBool False), (''created'', JNum ''5'')])"

theorem verifyEvent_authentic_witness:
  "\<exists>event. sample_construct ''body'' ''key'' ''key'' = Some event \<and> se_ID event = ''evt_1'' \<and> se_APIVersion event = APIVersion"
proof -
  let ?e = "\<lparr>e_id = ''evt_1'', e_kind = ''checkout.session.completed'', e_occurred = of_unix 5,
    e_data = JObj [(''id'', JStr ''cs_1''), (''checkout_id'', JStr ''c1''), (''subscription'', JNull), (''status'', JStr ''complete'')]\<rparr>"
  have "verifyEvent sample_construct (\<lambda>_. True) sample_decode ''body'' ''key'' ''key'' = Inr (Some ?e)"
    by code_simp
  from verifyEvent_authentic[OF this] show ?thesis by auto
qed

section \<open>What is stored\<close>

definition allowed_keys :: "string \<Rightarrow> string set" where
  "allowed_keys kind =
     (if HasPrefix kind ''refund.'' then {''id'', ''payment_intent'', ''amount'', ''currency'', ''status''}
      else {''id'', ''checkout_id'', ''subscription'', ''payment_update_id''} \<union> set kept_keys
        \<union> (if HasPrefix kind ''invoice.'' then {''lines_complete'', ''lines'', ''payments_complete'', ''payments'', ''paid_at''} else {}))"

lemma keys_update: "fst ` set (AList.update k v m) = insert k (fst ` set m)"
  by (simp add: dom_update)

lemma keys_pick: "fst ` set (pick obj names) = set names"
proof -
  have "fst ` set (foldl (\<lambda>result key. AList.update key (field obj key) result) acc names) = fst ` set acc \<union> set names" for acc
    by (induction names arbitrary: acc) (auto simp: keys_update)
  then show ?thesis by (simp add: pick_def)
qed

lemma keys_maps_Copy: "fst ` set (maps_Copy dst src) = fst ` set dst \<union> fst ` set src"
proof -
  have "fst ` set (foldl (\<lambda>m (k, v). AList.update k v m) dst src) = fst ` set dst \<union> fst ` set src"
  proof (induction src arbitrary: dst)
    case (Cons x src)
    then show ?case by (cases x) (simp add: keys_update)
  qed simp
  then show ?thesis by (simp add: maps_Copy_def)
qed

lemma keys_kept:
  "fst ` set (foldl (\<lambda>data key. case member obj key of Some v \<Rightarrow> AList.update key v data | None \<Rightarrow> data) data keys)
   \<subseteq> fst ` set data \<union> set keys"
proof (induction keys arbitrary: data)
  case (Cons k keys)
  show ?case
  proof (cases "member obj k")
    case None
    with Cons[of data] show ?thesis by auto
  next
    case (Some v)
    with Cons[of "AList.update k v data"] show ?thesis by (simp add: keys_update)
  qed
qed simp

lemma keys_invoice:
  assumes "addInvoiceFacts data invoice = Inr data'"
  shows "fst ` set data' = fst ` set data \<union> {''lines_complete'', ''lines'', ''payments_complete'', ''payments'', ''paid_at''}"
proof -
  obtain ls ps where "invoiceLines (field invoice ''lines'') = Inr ls" "invoicePayments (field invoice ''payments'') = Inr ps"
    and data': "fst ` set data' = insert ''paid_at'' (fst ` set data \<union> fst ` set ls \<union> fst ` set ps)"
    using assms by (auto simp: addInvoiceFacts_def rbind_eq_Inr keys_update keys_maps_Copy simp del: set_map)
  moreover from this have "fst ` set ls = {''lines_complete'', ''lines''}" "fst ` set ps = {''payments_complete'', ''payments''}"
    by (auto simp: invoiceLines_def invoicePayments_def rbind_eq_Inr)
  ultimately show ?thesis by auto
qed


definition update_of :: "string \<Rightarrow> (string \<times> json) list \<Rightarrow> json" where
  "update_of kind metadata = (if HasPrefix kind ''checkout.session.'' then field metadata ''dad_payment_update_id'' else JNull)"

definition dad_id :: "json \<Rightarrow> bool" where
  "dad_id v \<longleftrightarrow> v \<noteq> JNull \<and> v \<noteq> JStr []"

text \<open>
  Events about objects DAD did not create are dropped, and only those: \<open>minimalObject\<close> says
  not to keep an event exactly when its metadata is readable and names neither a checkout
  nor (for a checkout session) a payment update, and it is not about a refund.
\<close>

lemma minimalObject_foreign:
  "minimalObject scan kind obj = Inr None \<longleftrightarrow>
     \<not> HasPrefix kind ''refund.'' \<and> (\<exists>metadata subscription. event_metadata kind obj = Inr (metadata, subscription)
       \<and> \<not> dad_id (field metadata ''dad_checkout_id'') \<and> \<not> dad_id (update_of kind metadata))"
proof (cases "event_metadata kind obj")
  case (Inr r)
  obtain metadata subscription where r: "r = (metadata, subscription)" by (cases r)
  show ?thesis
    unfolding minimalObject_def Inr r dad_id_def update_of_def
    by (auto simp: Let_def rbind_eq_Inr split: json.splits)
qed (simp add: minimalObject_def)

lemma uuid_iff: "uuid scan v = Inr () \<longleftrightarrow> \<not> dad_id v \<or> (\<exists>text. v = JStr text \<and> scan text)"
  by (cases v) (auto simp: uuid_def dad_id_def)

definition kept_data :: "(string \<times> json) list \<Rightarrow> (string \<times> json) list \<Rightarrow> (string \<times> json) list" where
  "kept_data obj data = foldl (\<lambda>data key. case member obj key of Some v \<Rightarrow> AList.update key v data | None \<Rightarrow> data) data kept_keys"

lemma kept_data_keys: "fst ` set (kept_data obj data) \<subseteq> fst ` set data \<union> set kept_keys"
  unfolding kept_data_def by (rule keys_kept)

lemma map_of_kept_data: "k \<notin> set kept_keys \<Longrightarrow> map_of (kept_data obj data) k = map_of data k"
proof -
  have "k \<notin> set keys \<Longrightarrow> map_of (foldl (\<lambda>data key. case member obj key of Some v \<Rightarrow> AList.update key v data | None \<Rightarrow> data) data keys) k
    = map_of data k" for keys
    by (induction keys arbitrary: data) (auto simp: update_conv' split: option.splits)
  then show "k \<notin> set kept_keys \<Longrightarrow> map_of (kept_data obj data) k = map_of data k" by (simp add: kept_data_def)
qed

lemma map_of_pick: "k \<in> set names \<Longrightarrow> map_of (pick obj names) k = Some (field obj k)"
proof -
  have "map_of (foldl (\<lambda>result key. AList.update key (field obj key) result) acc names) k =
    (if k \<in> set names then Some (field obj k) else map_of acc k)" for acc
    by (induction names arbitrary: acc) (auto simp: update_conv')
  then show "k \<in> set names \<Longrightarrow> map_of (pick obj names) k = Some (field obj k)" by (simp add: pick_def)
qed

lemma map_of_maps_Copy: "k \<notin> fst ` set src \<Longrightarrow> map_of (maps_Copy dst src) k = map_of dst k"
  unfolding maps_Copy_def by (induction src arbitrary: dst) (auto simp: update_conv')

lemma map_of_invoice:
  assumes "addInvoiceFacts data invoice = Inr data'"
    and "k \<notin> {''lines_complete'', ''lines'', ''payments_complete'', ''payments'', ''paid_at''}"
  shows "map_of data' k = map_of data k"
  using assms
  by (auto simp: addInvoiceFacts_def invoiceLines_def invoicePayments_def rbind_eq_Inr update_conv' map_of_maps_Copy)

lemma minimalObject_cases:
  assumes "minimalObject scan kind obj = Inr (Some data)"
  obtains metadata subscription checkout update i base where
    "event_metadata kind obj = Inr (metadata, subscription)"
    and "checkout = (if dad_id (field metadata ''dad_checkout_id'') then field metadata ''dad_checkout_id'' else JNull)"
    and "update = (if dad_id (update_of kind metadata) then update_of kind metadata else JNull)"
    and "HasPrefix kind ''refund.'' \<or> checkout \<noteq> JNull \<or> update \<noteq> JNull"
    and "uuid scan checkout = Inr ()" and "uuid scan update = Inr ()"
    and "field obj ''id'' = JStr i" and "0 < length i" and "length i \<le> 255"
    and "(if HasPrefix kind ''invoice.''
       then addInvoiceFacts (kept_data obj [(''id'', JStr i), (''checkout_id'', checkout), (''subscription'', subscription)]) obj
       else Inr (kept_data obj [(''id'', JStr i), (''checkout_id'', checkout), (''subscription'', subscription)])) = Inr base"
    and "data = (if update \<noteq> JNull then [(''id'', JStr i), (''payment_update_id'', update)]
       else if HasPrefix kind ''refund.'' then pick obj [''id'', ''payment_intent'', ''amount'', ''currency'', ''status''] else base)"
proof -
  obtain metadata subscription where md: "event_metadata kind obj = Inr (metadata, subscription)"
    using assms by (cases "event_metadata kind obj") (auto simp: minimalObject_def)
  obtain i where i: "field obj ''id'' = JStr i" "0 < length i" "length i \<le> 255"
    using assms unfolding minimalObject_def md by (auto simp: Let_def split: if_splits json.splits)
  define checkout where "checkout = (if dad_id (field metadata ''dad_checkout_id'') then field metadata ''dad_checkout_id'' else JNull)"
  define update where "update = (if dad_id (update_of kind metadata) then update_of kind metadata else JNull)"
  have norm: "(if v = JStr [] then JNull else v) = (if dad_id v then v else JNull)" for v
    by (auto simp: dad_id_def)
  note unfolded = assms[unfolded minimalObject_def md rbind_simps prod.case Let_def norm update_of_def[symmetric]
    checkout_def[symmetric] update_def[symmetric] i(1) json.case kept_data_def[symmetric]]
  from unfolded have 1: "HasPrefix kind ''refund.'' \<or> checkout \<noteq> JNull \<or> update \<noteq> JNull"
    and 2: "uuid scan checkout = Inr ()" "uuid scan update = Inr ()"
    by (auto split: if_splits)
  with unfolded i obtain base where "(if HasPrefix kind ''invoice.''
       then addInvoiceFacts (kept_data obj [(''id'', JStr i), (''checkout_id'', checkout), (''subscription'', subscription)]) obj
       else Inr (kept_data obj [(''id'', JStr i), (''checkout_id'', checkout), (''subscription'', subscription)])) = Inr base"
    and "data = (if update \<noteq> JNull then [(''id'', JStr i), (''payment_update_id'', update)]
       else if HasPrefix kind ''refund.'' then pick obj [''id'', ''payment_intent'', ''amount'', ''currency'', ''status''] else base)"
    by (auto simp: rbind_eq_Inr not_less)
  with md checkout_def update_def 1 2 i show ?thesis by (rule that)
qed

text \<open>
  C15. The stored object is minimal: its top-level members are allowlisted for the kind of event,
  it is identified by a short string, and for anything but a refund it names a checkout or a
  payment update by a well-formed UUID.
\<close>

theorem minimalObject_allowlist:
  assumes "minimalObject scan kind obj = Inr (Some data)"
  shows "fst ` set data \<subseteq> allowed_keys kind \<union> {''payment_update_id''} \<and>
    (\<exists>i. field obj ''id'' = JStr i \<and> map_of data ''id'' = Some (JStr i) \<and> 0 < length i \<and> length i \<le> 255) \<and>
    (HasPrefix kind ''refund.'' \<or> (\<exists>key text. key \<in> {''checkout_id'', ''payment_update_id''}
       \<and> map_of data key = Some (JStr text) \<and> scan text))"
proof -
  let ?allowed = "allowed_keys kind \<union> {''payment_update_id''}"
  from assms show ?thesis
  proof (rule minimalObject_cases)
    fix metadata subscription checkout update i base
    assume id: "field obj ''id'' = JStr i" "0 < length i" "length i \<le> 255"
      and some: "HasPrefix kind ''refund.'' \<or> checkout \<noteq> JNull \<or> update \<noteq> JNull"
      and ok: "uuid scan checkout = Inr ()" "uuid scan update = Inr ()"
      and co: "checkout = (if dad_id (field metadata ''dad_checkout_id'') then field metadata ''dad_checkout_id'' else JNull)"
      and up: "update = (if dad_id (update_of kind metadata) then update_of kind metadata else JNull)"
      and base: "(if HasPrefix kind ''invoice.''
       then addInvoiceFacts (kept_data obj [(''id'', JStr i), (''checkout_id'', checkout), (''subscription'', subscription)]) obj
       else Inr (kept_data obj [(''id'', JStr i), (''checkout_id'', checkout), (''subscription'', subscription)])) = Inr base"
      and data: "data = (if update \<noteq> JNull then [(''id'', JStr i), (''payment_update_id'', update)]
       else if HasPrefix kind ''refund.'' then pick obj [''id'', ''payment_intent'', ''amount'', ''currency'', ''status''] else base)"
    have kept: "''id'' \<notin> set kept_keys" "''checkout_id'' \<notin> set kept_keys" by (simp_all add: kept_keys_def)
    have base_of: "map_of base ''id'' = Some (JStr i)" "map_of base ''checkout_id'' = Some checkout"
      using base kept by (auto simp: map_of_kept_data map_of_invoice split: if_splits)
    have base_keys: "fst ` set base \<subseteq> allowed_keys kind" if "\<not> HasPrefix kind ''refund.''"
      using base that kept_data_keys[of obj "[(''id'', JStr i), (''checkout_id'', checkout), (''subscription'', subscription)]"]
      by (auto simp: allowed_keys_def keys_invoice split: if_splits)
    have "fst ` set data \<subseteq> ?allowed"
    proof -
      consider "update \<noteq> JNull" | "update = JNull" "HasPrefix kind ''refund.''" | "update = JNull" "\<not> HasPrefix kind ''refund.''"
        by blast
      then show ?thesis
        using base_keys by cases (auto simp: data allowed_keys_def keys_pick)
    qed
    moreover have "map_of data ''id'' = Some (JStr i)"
      using base_of id by (simp add: data map_of_pick)
    moreover have "\<exists>key text. key \<in> {''checkout_id'', ''payment_update_id''} \<and> map_of data key = Some (JStr text) \<and> scan text"
      if "\<not> HasPrefix kind ''refund.''"
      using that some ok co up base_of by (auto simp: data uuid_iff split: if_splits)
    ultimately show ?thesis using id by blast
  qed
qed

theorem minimalObject_allowlist_witness:
  "fst ` set [(''id'', JStr ''cs_1''), (''checkout_id'', JStr ''c1''), (''subscription'', JNull), (''status'', JStr ''complete'')]
     \<subseteq> allowed_keys ''checkout.session.completed'' \<union> {''payment_update_id''}"
proof -
  have "minimalObject (\<lambda>_. True) ''checkout.session.completed'' sample_object =
    Inr (Some [(''id'', JStr ''cs_1''), (''checkout_id'', JStr ''c1''), (''subscription'', JNull), (''status'', JStr ''complete'')])"
    by code_simp
  from minimalObject_allowlist[OF this] show ?thesis by (rule conjunct1)
qed

end
