(* ===== verification/Reconcile.thy ===== *)
theory Reconcile
  imports Json_Facts
begin

text \<open>
  Package \<open>reconcile\<close> (internal/reconcile/reconcile.go): the daily comparison of processor
  charges and refunds with the stored financial facts. The New York zone is a parameter,
  the table of its offsets; the formatted date of a window is kept as its day number.
\<close>

section \<open>Windows\<close>

datatype window_error = ErrWindow

record Window =
  w_Start :: time
  w_End :: time
  w_MaxLag :: duration
  w_NYDate :: int

definition RangeWindow :: "location \<Rightarrow> time \<Rightarrow> time \<Rightarrow> duration \<Rightarrow> window_error + Window" where
  "RangeWindow NewYork start stop maxLag =
     (if IsZero start \<or> IsZero stop \<or> \<not> stop > start \<or> maxLag < 0 then Inl ErrWindow
      else Inr \<lparr>w_Start = start, w_End = stop, w_MaxLag = maxLag, w_NYDate = civil_date NewYork start\<rparr>)"

definition DayWindow :: "location \<Rightarrow> time \<Rightarrow> duration \<Rightarrow> window_error + Window" where
  "DayWindow NewYork day maxLag =
     (if maxLag < 0 then Inl ErrWindow
      else let start = Date_midnight NewYork (civil_date NewYork day);
               stop = AddDays NewYork start 1
           in RangeWindow NewYork start stop maxLag)"

definition YesterdayWindow :: "location \<Rightarrow> time \<Rightarrow> duration \<Rightarrow> window_error + Window" where
  "YesterdayWindow NewYork now maxLag =
     (let midnight = Date_midnight NewYork (civil_date NewYork now)
      in DayWindow NewYork (AddDays NewYork midnight (- 1)) maxLag)"

definition ceil_seconds :: "time \<Rightarrow> int" where
  "ceil_seconds t = (if Nanosecond t \<noteq> 0 then Unix t + 1 else Unix t)"

definition StripeCreatedRange :: "Window \<Rightarrow> int \<times> int" where
  "StripeCreatedRange w = (ceil_seconds (w_Start w), ceil_seconds (w_End w) - 1)"

definition Settled :: "Window \<Rightarrow> time \<Rightarrow> bool" where
  "Settled w now \<longleftrightarrow> \<not> now < w_End w + w_MaxLag w"

section \<open>Facts\<close>

record rgift =
  rg_StripeObjectID :: string
  rg_StripePaymentIntentID :: string
  rg_AmountMinor :: int
  rg_Currency :: string
  rg_PaidAt :: time

record InvoicePayment =
  ip_InvoiceID :: string
  ip_PaymentIntentID :: string
  ip_Currency :: string
  ip_AmountMinor :: int

record rrefund =
  rr_StripeRefundID :: string
  rr_AmountMinor :: int
  rr_Currency :: string
  rr_Status :: string
  rr_ObservedAt :: time

definition id_char :: "char \<Rightarrow> bool" where
  "id_char c \<longleftrightarrow> c = CHR ''_'' \<or> c = CHR ''-'' \<or> (CHR ''a'' \<le> c \<and> c \<le> CHR ''z'')
     \<or> (CHR ''A'' \<le> c \<and> c \<le> CHR ''Z'') \<or> (CHR ''0'' \<le> c \<and> c \<le> CHR ''9'')"

definition processorID :: "string \<Rightarrow> string \<Rightarrow> bool" where
  "processorID i prefix =
     (if \<not> HasPrefix i prefix \<or> length i \<le> length prefix \<or> length i > 255 then False else list_all id_char i)"

definition InvoicePaymentFacts :: "Object \<Rightarrow> facts_error + InvoicePayment" where
  "InvoicePaymentFacts obj =
     (case (facts_Object obj ''payment'', facts_Int obj ''amount_paid'', facts_Unix obj ''created'') of
        (Inr payment, Inr amount, Inr _) \<Rightarrow>
          if amount \<le> 0 \<or> \<not> BoolIs obj ''livemode'' False \<or> Text obj ''status'' \<noteq> ''paid''
             \<or> Text payment ''type'' \<noteq> ''payment_intent'' \<or> \<not> processorID (Text obj ''id'') ''inpay_''
             \<or> \<not> processorID (Text obj ''invoice'') ''in_'' \<or> \<not> processorID (Text payment ''payment_intent'') ''pi_''
             \<or> Text obj ''currency'' \<noteq> ''usd''
          then Inl ErrFacts
          else Inr \<lparr>ip_InvoiceID = Text obj ''invoice'', ip_PaymentIntentID = Text payment ''payment_intent'',
                    ip_Currency = Text obj ''currency'', ip_AmountMinor = amount\<rparr>
      | _ \<Rightarrow> Inl ErrFacts)"

definition financialObject :: "Object \<Rightarrow> string \<Rightarrow> facts_error + (string \<times> int)" where
  "financialObject obj prefix =
     (let i = Text obj ''id''
      in case (facts_Int obj ''amount'', facts_Unix obj ''created'') of
           (Inr amount, Inr _) \<Rightarrow>
             if \<not> processorID i prefix \<or> amount \<le> 0 \<or> \<not> BoolIs obj ''livemode'' False \<or> length (Text obj ''currency'') \<noteq> 3
             then Inl ErrFacts
             else if \<not> list_all (\<lambda>c. CHR ''a'' \<le> c \<and> c \<le> CHR ''z'') (lowered (Text obj ''currency'')) then Inl ErrFacts
             else Inr (i, amount)
         | _ \<Rightarrow> Inl ErrFacts)"

text \<open>The amount captured, and whether the charge was collected at all.\<close>

definition CollectedCharge :: "Object \<Rightarrow> facts_error + (int \<times> bool)" where
  "CollectedCharge obj =
     (case (financialObject obj ''ch_'', facts_Int obj ''amount_captured'') of
        (Inr (_, amount), Inr captured) \<Rightarrow>
          if captured < 0 \<or> captured > amount \<or> (\<not> BoolIs obj ''paid'' True \<and> \<not> BoolIs obj ''paid'' False)
             \<or> (\<not> BoolIs obj ''captured'' True \<and> \<not> BoolIs obj ''captured'' False)
          then Inl ErrFacts
          else if Text obj ''status'' = ''failed'' \<or> Text obj ''status'' = ''pending'' then
            (if BoolIs obj ''paid'' True \<or> captured > 0 then Inl ErrFacts else Inr (0, False))
          else if Text obj ''status'' = ''succeeded'' then
            (if BoolIs obj ''paid'' True \<and> BoolIs obj ''captured'' True \<and> captured > 0
             then Inr (captured, True) else Inr (0, False))
          else Inl ErrFacts
      | _ \<Rightarrow> Inl ErrFacts)"

definition refundStatus :: "string \<Rightarrow> string" where
  "refundStatus stripe =
     (if stripe = ''pending'' then ''PENDING'' else if stripe = ''requires_action'' then ''REQUIRES_ACTION''
      else if stripe = ''succeeded'' then ''SUCCEEDED'' else if stripe = ''failed'' then ''FAILED''
      else if stripe = ''canceled'' then ''CANCELED'' else [])"

section \<open>The report\<close>

record Report =
  PendingRefundsChecked :: int
  PendingRefundBatches :: int
  r_Window :: Window
  MissingGifts :: int
  MissingRefunds :: int
  AmountMismatches :: int
  StatusMismatches :: int
  DBWithoutStripe :: int
  CurrencyMismatches :: int
  InvalidObjects :: int
  MissingGiftIDs :: "string list"
  MissingRefundIDs :: "string list"
  AmountMismatchIDs :: "string list"
  StatusMismatchIDs :: "string list"
  DBWithoutStripeIDs :: "string list"
  CurrencyMismatchIDs :: "string list"
  InvalidObjectIDs :: "string list"

definition maxIDs :: nat where "maxIDs = 100"

definition merge_ids :: "string list \<Rightarrow> string list \<Rightarrow> string list" where
  "merge_ids into from = take maxIDs (sort (into @ from))"

definition Report_Add :: "Report \<Rightarrow> Report \<Rightarrow> Report" where
  "Report_Add r other = r
     \<lparr>MissingGifts := MissingGifts r + MissingGifts other, MissingRefunds := MissingRefunds r + MissingRefunds other,
      AmountMismatches := AmountMismatches r + AmountMismatches other,
      StatusMismatches := StatusMismatches r + StatusMismatches other,
      DBWithoutStripe := DBWithoutStripe r + DBWithoutStripe other,
      CurrencyMismatches := CurrencyMismatches r + CurrencyMismatches other,
      InvalidObjects := InvalidObjects r + InvalidObjects other,
      MissingGiftIDs := merge_ids (MissingGiftIDs r) (MissingGiftIDs other),
      MissingRefundIDs := merge_ids (MissingRefundIDs r) (MissingRefundIDs other),
      AmountMismatchIDs := merge_ids (AmountMismatchIDs r) (AmountMismatchIDs other),
      StatusMismatchIDs := merge_ids (StatusMismatchIDs r) (StatusMismatchIDs other),
      DBWithoutStripeIDs := merge_ids (DBWithoutStripeIDs r) (DBWithoutStripeIDs other),
      CurrencyMismatchIDs := merge_ids (CurrencyMismatchIDs r) (CurrencyMismatchIDs other),
      InvalidObjectIDs := merge_ids (InvalidObjectIDs r) (InvalidObjectIDs other)\<rparr>"

definition HasDiscrepancies :: "Report \<Rightarrow> bool" where
  "HasDiscrepancies r \<longleftrightarrow> MissingGifts r > 0 \<or> MissingRefunds r > 0 \<or> AmountMismatches r > 0
     \<or> StatusMismatches r > 0 \<or> DBWithoutStripe r > 0 \<or> CurrencyMismatches r > 0 \<or> InvalidObjects r > 0"

definition appendID :: "string \<Rightarrow> string list \<Rightarrow> string list" where
  "appendID i ids =
     (let valid = (processorID i ''ch_'' \<or> processorID i ''pi_'' \<or> processorID i ''in_'' \<or> processorID i ''re_'')
      in if valid \<and> length ids < maxIDs then ids @ [i] else ids)"

definition sortIDs :: "Report \<Rightarrow> Report" where
  "sortIDs r = r\<lparr>MissingGiftIDs := sort (MissingGiftIDs r), MissingRefundIDs := sort (MissingRefundIDs r),
     AmountMismatchIDs := sort (AmountMismatchIDs r), StatusMismatchIDs := sort (StatusMismatchIDs r),
     DBWithoutStripeIDs := sort (DBWithoutStripeIDs r), CurrencyMismatchIDs := sort (CurrencyMismatchIDs r),
     InvalidObjectIDs := sort (InvalidObjectIDs r)\<rparr>"

section \<open>The comparison\<close>

definition new_report :: "Window \<Rightarrow> Report" where
  "new_report w = \<lparr>PendingRefundsChecked = 0, PendingRefundBatches = 0, r_Window = w, MissingGifts = 0, MissingRefunds = 0,
     AmountMismatches = 0, StatusMismatches = 0, DBWithoutStripe = 0, CurrencyMismatches = 0, InvalidObjects = 0,
     MissingGiftIDs = [], MissingRefundIDs = [], AmountMismatchIDs = [], StatusMismatchIDs = [], DBWithoutStripeIDs = [],
     CurrencyMismatchIDs = [], InvalidObjectIDs = []\<rparr>"

definition gift_row_ok :: "rgift \<Rightarrow> bool" where
  "gift_row_ok g \<longleftrightarrow>
     \<not> ((\<not> processorID (rg_StripeObjectID g) ''pi_'' \<and> \<not> processorID (rg_StripeObjectID g) ''in_''
         \<and> \<not> processorID (rg_StripeObjectID g) ''ch_'') \<or> rg_AmountMinor g \<le> 0 \<or> rg_Currency g \<noteq> ''USD'')"

definition refund_row_ok :: "rrefund \<Rightarrow> bool" where
  "refund_row_ok r \<longleftrightarrow>
     \<not> (\<not> processorID (rr_StripeRefundID r) ''re_'' \<or> rr_AmountMinor r \<le> 0 \<or> rr_Currency r \<noteq> ''USD''
        \<or> refundStatus (lowered (rr_Status r)) = [])"

definition index_gift ::
  "Report \<times> (string \<rightharpoonup> rgift) \<times> (string \<rightharpoonup> rgift) \<Rightarrow> rgift \<Rightarrow> Report \<times> (string \<rightharpoonup> rgift) \<times> (string \<rightharpoonup> rgift)" where
  "index_gift st g =
     (let (report, giftByCharge, giftByIntent) = st;
          report = (if gift_row_ok g then report else report\<lparr>InvalidObjects := InvalidObjects report + 1\<rparr>);
          giftByCharge = (if rg_StripeObjectID g \<noteq> [] then giftByCharge(rg_StripeObjectID g \<mapsto> g) else giftByCharge);
          giftByIntent = (if rg_StripePaymentIntentID g \<noteq> [] then giftByIntent(rg_StripePaymentIntentID g \<mapsto> g) else giftByIntent);
          giftByIntent = (if HasPrefix (rg_StripeObjectID g) ''pi_'' then giftByIntent(rg_StripeObjectID g \<mapsto> g) else giftByIntent)
      in (report, giftByCharge, giftByIntent))"

definition index_refund :: "Report \<times> (string \<rightharpoonup> rrefund) \<Rightarrow> rrefund \<Rightarrow> Report \<times> (string \<rightharpoonup> rrefund)" where
  "index_refund st r =
     (let (report, refundByID) = st;
          report = (if refund_row_ok r then report else report\<lparr>InvalidObjects := InvalidObjects report + 1\<rparr>)
      in (report, if rr_StripeRefundID r \<noteq> [] then refundByID(rr_StripeRefundID r \<mapsto> r) else refundByID))"

definition mark_invalid :: "string \<Rightarrow> string \<Rightarrow> Report \<Rightarrow> Report" where
  "mark_invalid i prefix report =
     (let report = report\<lparr>InvalidObjects := InvalidObjects report + 1\<rparr>
      in if processorID i prefix then report\<lparr>InvalidObjectIDs := appendID i (InvalidObjectIDs report)\<rparr> else report)"

definition mark_amount :: "bool \<Rightarrow> string \<Rightarrow> Report \<Rightarrow> Report" where
  "mark_amount differs i report =
     (if differs then report\<lparr>AmountMismatches := AmountMismatches report + 1,
        AmountMismatchIDs := appendID i (AmountMismatchIDs report)\<rparr> else report)"

definition mark_currency :: "bool \<Rightarrow> string \<Rightarrow> Report \<Rightarrow> Report" where
  "mark_currency differs i report =
     (if differs then report\<lparr>CurrencyMismatches := CurrencyMismatches report + 1,
        CurrencyMismatchIDs := appendID i (CurrencyMismatchIDs report)\<rparr> else report)"

definition mark_status :: "bool \<Rightarrow> string \<Rightarrow> Report \<Rightarrow> Report" where
  "mark_status differs i report =
     (if differs then report\<lparr>StatusMismatches := StatusMismatches report + 1,
        StatusMismatchIDs := appendID i (StatusMismatchIDs report)\<rparr> else report)"

definition match_gift :: "(string \<rightharpoonup> rgift) \<Rightarrow> (string \<rightharpoonup> rgift) \<Rightarrow> Object \<Rightarrow> rgift option" where
  "match_gift giftByCharge giftByIntent charge =
     (case giftByCharge (Text charge ''id'') of
        Some g \<Rightarrow> Some g
      | None \<Rightarrow> giftByIntent (Text charge ''payment_intent''))"

definition diff_charge ::
  "(string \<rightharpoonup> rgift) \<Rightarrow> (string \<rightharpoonup> rgift) \<Rightarrow> Report \<times> string set \<Rightarrow> Object \<Rightarrow> Report \<times> string set" where
  "diff_charge giftByCharge giftByIntent st charge =
     (let (report, seenGift) = st; i = Text charge ''id''
      in case CollectedCharge charge of
           Inl _ \<Rightarrow> (mark_invalid i ''ch_'' report, seenGift)
         | Inr (amount, collected) \<Rightarrow>
             if \<not> collected then (report, seenGift)
             else case match_gift giftByCharge giftByIntent charge of
               None \<Rightarrow> (report\<lparr>MissingGifts := MissingGifts report + 1, MissingGiftIDs := appendID i (MissingGiftIDs report)\<rparr>, seenGift)
             | Some gift \<Rightarrow>
                 (mark_currency (\<not> EqualFold (Text charge ''currency'') (rg_Currency gift)) i
                    (mark_amount (amount \<noteq> rg_AmountMinor gift) i report),
                  insert (rg_StripeObjectID gift) seenGift))"

definition diff_refund :: "(string \<rightharpoonup> rrefund) \<Rightarrow> Report \<times> string set \<Rightarrow> Object \<Rightarrow> Report \<times> string set" where
  "diff_refund refundByID st refund =
     (let (report, seenRefund) = st; status = refundStatus (Text refund ''status'')
      in case financialObject refund ''re_'' of
           Inl _ \<Rightarrow> (mark_invalid (Text refund ''id'') ''re_'' report, seenRefund)
         | Inr (i, amount) \<Rightarrow>
             if status = [] then (mark_invalid (Text refund ''id'') ''re_'' report, seenRefund)
             else case refundByID i of
               None \<Rightarrow> (report\<lparr>MissingRefunds := MissingRefunds report + 1, MissingRefundIDs := appendID i (MissingRefundIDs report)\<rparr>, seenRefund)
             | Some row \<Rightarrow>
                 (mark_currency (\<not> EqualFold (Text refund ''currency'') (rr_Currency row)) i
                    (mark_status (status \<noteq> rr_Status row) i
                      (mark_amount (amount \<noteq> rr_AmountMinor row) i report)),
                  insert i seenRefund))"

definition unconfirmed :: "string set \<Rightarrow> Report \<Rightarrow> string \<Rightarrow> Report" where
  "unconfirmed seen report i =
     (if i \<noteq> [] \<and> i \<notin> seen
      then report\<lparr>DBWithoutStripe := DBWithoutStripe report + 1, DBWithoutStripeIDs := appendID i (DBWithoutStripeIDs report)\<rparr>
      else report)"

definition Diff :: "Window \<Rightarrow> Object list \<Rightarrow> Object list \<Rightarrow> rgift list \<Rightarrow> rrefund list \<Rightarrow> Report" where
  "Diff window stripeCharges stripeRefunds dbGifts dbRefunds =
     (let (report, giftByCharge, giftByIntent) = foldl index_gift (new_report window, Map.empty, Map.empty) dbGifts;
          (report, refundByID) = foldl index_refund (report, Map.empty) dbRefunds;
          (report, seenGift) = foldl (diff_charge giftByCharge giftByIntent) (report, {}) stripeCharges;
          (report, seenRefund) = foldl (diff_refund refundByID) (report, {}) stripeRefunds;
          report = foldl (unconfirmed seenGift) report (map rg_StripeObjectID dbGifts);
          report = foldl (unconfirmed seenRefund) report (map rr_StripeRefundID dbRefunds)
      in sortIDs report)"

section \<open>Windows tile time\<close>

lemma ceil_seconds_le: "ceil_seconds t \<le> s \<longleftrightarrow> t \<le> of_unix s"
proof -
  have t: "t = of_unix (Unix t) + Nanosecond t" by (rule time_split)
  have ns: "0 \<le> Nanosecond t" "Nanosecond t < Second" by (simp_all add: Nanosecond_def Second_def)
  have step: "of_unix (Unix t + 1) = of_unix (Unix t) + Second" by (simp add: of_unix_def algebra_simps)
  show ?thesis
  proof (cases "Nanosecond t = 0")
    case True
    with t have "t \<le> of_unix s \<longleftrightarrow> of_unix (Unix t) \<le> of_unix s" by simp
    with True show ?thesis by (simp add: ceil_seconds_def)
  next
    case False
    have "t \<le> of_unix s \<longleftrightarrow> of_unix (Unix t + 1) \<le> of_unix s"
    proof
      assume "t \<le> of_unix s"
      with t ns False have "of_unix (Unix t) < of_unix s" by linarith
      then show "of_unix (Unix t + 1) \<le> of_unix s" by simp
    next
      assume "of_unix (Unix t + 1) \<le> of_unix s"
      with t ns step show "t \<le> of_unix s" by linarith
    qed
    with False show ?thesis by (simp add: ceil_seconds_def)
  qed
qed

text \<open>
  C19. The inclusive range of whole seconds handed to the processor's filter selects exactly the
  seconds of the half-open window, whatever the fractions of its bounds.
\<close>

theorem StripeCreatedRange_exact:
  "fst (StripeCreatedRange w) \<le> s \<and> s \<le> snd (StripeCreatedRange w) \<longleftrightarrow> w_Start w \<le> of_unix s \<and> of_unix s < w_End w"
proof -
  have "s \<le> ceil_seconds (w_End w) - 1 \<longleftrightarrow> \<not> ceil_seconds (w_End w) \<le> s" by linarith
  then show ?thesis by (simp add: StripeCreatedRange_def ceil_seconds_le not_le)
qed

lemma DayWindow_bounds:
  assumes "has_midnight ny d" and "civil_date ny day = d" and "DayWindow ny day lag = Inr w"
  shows "w = \<lparr>w_Start = Date_midnight ny d, w_End = Date_midnight ny (d + 1), w_MaxLag = lag, w_NYDate = d\<rparr>"
  using assms AddDays_midnight[OF assms(1), of 1]
  by (auto simp: DayWindow_def RangeWindow_def Let_def civil_date_midnight split: if_splits)

text \<open>
  C18. The daily windows tile time: the window of a New York day ends exactly where that of the
  next day starts, through daylight saving changes, and the job that runs on the next day
  reconciles exactly this window.
\<close>

theorem DayWindow_tiles:
  assumes "has_midnight ny d" and "has_midnight ny (d + 1)"
    and "civil_date ny today = d" and "civil_date ny tomorrow = d + 1"
    and "DayWindow ny today lag = Inr w" and "DayWindow ny tomorrow lag = Inr w'"
  shows "w_End w = w_Start w' \<and> w_NYDate w = d \<and> w_NYDate w' = d + 1 \<and> YesterdayWindow ny tomorrow lag = Inr w"
proof -
  note w = DayWindow_bounds[OF assms(1,3,5)] and w' = DayWindow_bounds[OF assms(2,4,6)]
  have "AddDays ny (Date_midnight ny (d + 1)) (- 1) = Date_midnight ny d"
    using AddDays_midnight[OF assms(2), of "- 1"] by simp
  then have "YesterdayWindow ny tomorrow lag = DayWindow ny (Date_midnight ny d) lag"
    by (simp add: YesterdayWindow_def Let_def assms(4))
  also have "\<dots> = DayWindow ny today lag"
    by (simp add: DayWindow_def civil_date_midnight[OF assms(1)] assms(3))
  finally show ?thesis using w w' assms(5) by simp
qed

text \<open>New York around the spring change of 2026: 05:00 UTC, then 04:00 UTC from 07:00 UTC on March 8.\<close>

definition ny_2026 :: location where "ny_2026 = Location (- 18000) [(1772953200, - 14400)]"

theorem DayWindow_tiles_witness:
  "\<exists>w w'. DayWindow ny_2026 (of_unix 1772970000) 0 = Inr w \<and> DayWindow ny_2026 (of_unix 1773030000) 0 = Inr w' \<and>
     w_End w = w_Start w' \<and> YesterdayWindow ny_2026 (of_unix 1773030000) 0 = Inr w"
proof -
  have m: "has_midnight ny_2026 20520" "has_midnight ny_2026 (20520 + 1)" by code_simp+
  have c: "civil_date ny_2026 (of_unix 1772970000) = 20520" "civil_date ny_2026 (of_unix 1773030000) = 20520 + 1" by code_simp+
  have w: "DayWindow ny_2026 (of_unix 1772970000) 0 =
      Inr \<lparr>w_Start = of_unix 1772946000, w_End = of_unix 1773028800, w_MaxLag = 0, w_NYDate = 20520\<rparr>"
    "DayWindow ny_2026 (of_unix 1773030000) 0 =
      Inr \<lparr>w_Start = of_unix 1773028800, w_End = of_unix 1773115200, w_MaxLag = 0, w_NYDate = 20521\<rparr>" by code_simp+
  from DayWindow_tiles[OF m c w] w show ?thesis by auto
qed


section \<open>What the comparison counts\<close>

text \<open>The total of the seven counts; every mark of the loops adds to it.\<close>

definition disc :: "Report \<Rightarrow> int" where
  "disc r = MissingGifts r + MissingRefunds r + AmountMismatches r + StatusMismatches r + DBWithoutStripe r
     + CurrencyMismatches r + InvalidObjects r"

definition counts_ok :: "Report \<Rightarrow> bool" where
  "counts_ok r \<longleftrightarrow> 0 \<le> MissingGifts r \<and> 0 \<le> MissingRefunds r \<and> 0 \<le> AmountMismatches r \<and> 0 \<le> StatusMismatches r
     \<and> 0 \<le> DBWithoutStripe r \<and> 0 \<le> CurrencyMismatches r \<and> 0 \<le> InvalidObjects r"

lemma HasDiscrepancies_disc: "counts_ok r \<Longrightarrow> HasDiscrepancies r \<longleftrightarrow> disc r \<noteq> 0"
  by (auto simp: counts_ok_def HasDiscrepancies_def disc_def)

definition an_id :: "string \<Rightarrow> bool" where
  "an_id i \<longleftrightarrow> processorID i ''ch_'' \<or> processorID i ''pi_'' \<or> processorID i ''in_'' \<or> processorID i ''re_''"

definition ids_ok :: "string list \<Rightarrow> bool" where
  "ids_ok ids \<longleftrightarrow> length ids \<le> 100 \<and> (\<forall>i\<in>set ids. an_id i)"

definition report_ids_ok :: "Report \<Rightarrow> bool" where
  "report_ids_ok r \<longleftrightarrow> ids_ok (MissingGiftIDs r) \<and> ids_ok (MissingRefundIDs r) \<and> ids_ok (AmountMismatchIDs r)
     \<and> ids_ok (StatusMismatchIDs r) \<and> ids_ok (DBWithoutStripeIDs r) \<and> ids_ok (CurrencyMismatchIDs r)
     \<and> ids_ok (InvalidObjectIDs r)"

lemma ids_ok_append [simp]: "ids_ok ids \<Longrightarrow> ids_ok (appendID i ids)"
  by (auto simp: ids_ok_def appendID_def an_id_def maxIDs_def)

lemma ids_ok_sort [simp]: "ids_ok (sort ids) = ids_ok ids"
  by (simp add: ids_ok_def)

text \<open>A step of a loop adds \<open>n\<close> discrepancies to a report and keeps it in order.\<close>

definition adds :: "int \<Rightarrow> Report \<Rightarrow> Report \<Rightarrow> bool" where
  "adds n r r' \<longleftrightarrow> disc r' = disc r + n \<and> (counts_ok r \<longrightarrow> counts_ok r') \<and> (report_ids_ok r \<longrightarrow> report_ids_ok r')"

definition tally :: "bool \<Rightarrow> int" where "tally b = (if b then 1 else 0)"

lemma adds_refl: "adds 0 r r"
  by (simp add: adds_def)

lemma adds_trans: "adds m r r' \<Longrightarrow> adds n r' r'' \<Longrightarrow> adds (m + n) r r''"
  by (simp add: adds_def)

lemmas adds_unfold = adds_def disc_def counts_ok_def report_ids_ok_def

lemma adds_marks:
  "adds 1 r (mark_invalid i prefix r)"
  "adds (tally b) r (mark_amount b i r)"
  "adds (tally b) r (mark_currency b i r)"
  "adds (tally b) r (mark_status b i r)"
  "adds 1 r (r\<lparr>MissingGifts := MissingGifts r + 1, MissingGiftIDs := appendID i (MissingGiftIDs r)\<rparr>)"
  "adds 1 r (r\<lparr>MissingRefunds := MissingRefunds r + 1, MissingRefundIDs := appendID i (MissingRefundIDs r)\<rparr>)"
  "adds 1 r (r\<lparr>InvalidObjects := InvalidObjects r + 1\<rparr>)"
  "adds (tally (i \<noteq> [] \<and> i \<notin> seen)) r (unconfirmed seen r i)"
  by (simp_all add: adds_unfold mark_invalid_def mark_amount_def mark_currency_def mark_status_def unconfirmed_def Let_def tally_def)

lemma adds_foldl:
  assumes "\<And>st x. adds (weight x) (fst st) (fst (f st x))"
  shows "adds (\<Sum>x\<leftarrow>xs. weight x) (fst st) (fst (foldl f st xs))"
proof (induction xs arbitrary: st)
  case (Cons x xs)
  have "adds (weight x + (\<Sum>x\<leftarrow>xs. weight x)) (fst st) (fst (foldl f (f st x) xs))"
    by (rule adds_trans[OF assms Cons.IH])
  then show ?case by simp
qed (simp add: adds_refl)

definition charge_weight :: "(string \<rightharpoonup> rgift) \<Rightarrow> (string \<rightharpoonup> rgift) \<Rightarrow> Object \<Rightarrow> int" where
  "charge_weight byCharge byIntent c =
     (case CollectedCharge c of Inl _ \<Rightarrow> 1
      | Inr (amount, collected) \<Rightarrow> if \<not> collected then 0
          else (case match_gift byCharge byIntent c of None \<Rightarrow> 1
            | Some g \<Rightarrow> tally (amount \<noteq> rg_AmountMinor g) + tally (\<not> EqualFold (Text c ''currency'') (rg_Currency g))))"

definition refund_weight :: "(string \<rightharpoonup> rrefund) \<Rightarrow> Object \<Rightarrow> int" where
  "refund_weight byID r =
     (case financialObject r ''re_'' of Inl _ \<Rightarrow> 1
      | Inr (i, amount) \<Rightarrow> if refundStatus (Text r ''status'') = [] then 1
          else (case byID i of None \<Rightarrow> 1
            | Some row \<Rightarrow> (tally (amount \<noteq> rr_AmountMinor row) + tally (refundStatus (Text r ''status'') \<noteq> rr_Status row))
                 + tally (\<not> EqualFold (Text r ''currency'') (rr_Currency row))))"

lemma adds_charge: "adds (charge_weight byCharge byIntent c) (fst st) (fst (diff_charge byCharge byIntent st c))"
proof (cases st)
  case (Pair report seen)
  show ?thesis
    unfolding Pair diff_charge_def charge_weight_def Let_def
    by (auto split: sum.splits option.splits simp del: not_None_eq intro: adds_refl adds_marks adds_trans[OF adds_marks(2,3)])
qed

lemma adds_refund: "adds (refund_weight byID r) (fst st) (fst (diff_refund byID st r))"
proof (cases st)
  case (Pair report seen)
  show ?thesis
    unfolding Pair diff_refund_def refund_weight_def Let_def
    by (auto split: sum.splits option.splits intro: adds_marks adds_trans[OF adds_trans[OF adds_marks(2,4)] adds_marks(3)])
qed


text \<open>What the indexes hold: the last row that has the key.\<close>

definition gift_by_charge :: "rgift list \<Rightarrow> string \<Rightarrow> rgift option" where
  "gift_by_charge gifts k = find (\<lambda>g. rg_StripeObjectID g = k \<and> k \<noteq> []) (rev gifts)"

definition gift_by_intent :: "rgift list \<Rightarrow> string \<Rightarrow> rgift option" where
  "gift_by_intent gifts k =
     find (\<lambda>g. (rg_StripePaymentIntentID g = k \<and> k \<noteq> []) \<or> (rg_StripeObjectID g = k \<and> HasPrefix k ''pi_'')) (rev gifts)"

definition refund_by_id :: "rrefund list \<Rightarrow> string \<Rightarrow> rrefund option" where
  "refund_by_id refunds k = find (\<lambda>r. rr_StripeRefundID r = k \<and> k \<noteq> []) (rev refunds)"

lemma index_gift_maps:
  "snd (foldl index_gift (r, Map.empty, Map.empty) gifts) = (gift_by_charge gifts, gift_by_intent gifts)"
proof (induction gifts rule: rev_induct)
  case Nil
  then show ?case by (simp add: gift_by_charge_def gift_by_intent_def fun_eq_iff)
next
  case (snoc g gifts)
  have "snd (index_gift st g) =
    ((if rg_StripeObjectID g \<noteq> [] then (fst (snd st))(rg_StripeObjectID g \<mapsto> g) else fst (snd st)),
     (let m = (if rg_StripePaymentIntentID g \<noteq> [] then (snd (snd st))(rg_StripePaymentIntentID g \<mapsto> g) else snd (snd st))
      in if HasPrefix (rg_StripeObjectID g) ''pi_'' then m(rg_StripeObjectID g \<mapsto> g) else m))" for st
    by (cases st) (simp add: index_gift_def Let_def)
  with snoc show ?case
    by (auto simp: gift_by_charge_def gift_by_intent_def fun_eq_iff Let_def)
qed

lemma index_refund_map: "snd (foldl index_refund (r, Map.empty) refunds) = refund_by_id refunds"
proof (induction refunds rule: rev_induct)
  case Nil
  then show ?case by (simp add: refund_by_id_def fun_eq_iff)
next
  case (snoc x refunds)
  have "snd (index_refund st x) = (if rr_StripeRefundID x \<noteq> [] then (snd st)(rr_StripeRefundID x \<mapsto> x) else snd st)" for st
    by (cases st) (simp add: index_refund_def Let_def)
  with snoc show ?case by (auto simp: refund_by_id_def fun_eq_iff)
qed

definition confirms_gift :: "(string \<rightharpoonup> rgift) \<Rightarrow> (string \<rightharpoonup> rgift) \<Rightarrow> Object \<Rightarrow> string \<Rightarrow> bool" where
  "confirms_gift byCharge byIntent c i \<longleftrightarrow>
     (\<exists>amount g. CollectedCharge c = Inr (amount, True) \<and> match_gift byCharge byIntent c = Some g \<and> rg_StripeObjectID g = i)"

definition confirms_refund :: "(string \<rightharpoonup> rrefund) \<Rightarrow> Object \<Rightarrow> string \<Rightarrow> bool" where
  "confirms_refund byID r i \<longleftrightarrow>
     (\<exists>amount. financialObject r ''re_'' = Inr (i, amount) \<and> refundStatus (Text r ''status'') \<noteq> [] \<and> byID i \<noteq> None)"

lemma seen_gifts: "i \<in> snd (foldl (diff_charge byCharge byIntent) (r, {}) cs) \<longleftrightarrow> (\<exists>c\<in>set cs. confirms_gift byCharge byIntent c i)"
proof -
  have "i \<in> snd (diff_charge byCharge byIntent st c) \<longleftrightarrow> i \<in> snd st \<or> confirms_gift byCharge byIntent c i" for st c
    by (cases st) (auto simp: diff_charge_def confirms_gift_def Let_def split: sum.splits option.splits)
  then show ?thesis by (induction cs rule: rev_induct) auto
qed

lemma seen_refunds: "i \<in> snd (foldl (diff_refund byID) (r, {}) rs) \<longleftrightarrow> (\<exists>x\<in>set rs. confirms_refund byID x i)"
proof -
  have "i \<in> snd (diff_refund byID st x) \<longleftrightarrow> i \<in> snd st \<or> confirms_refund byID x i" for st x
    by (cases st) (auto simp: diff_refund_def confirms_refund_def Let_def split: sum.splits option.splits)
  then show ?thesis by (induction rs rule: rev_induct) auto
qed

lemma adds_unconfirmed: "adds (\<Sum>i\<leftarrow>is. tally (i \<noteq> [] \<and> i \<notin> seen)) r (foldl (unconfirmed seen) r is)"
proof (induction "is" arbitrary: r)
  case (Cons i "is")
  have "adds (tally (i \<noteq> [] \<and> i \<notin> seen) + (\<Sum>i\<leftarrow>is. tally (i \<noteq> [] \<and> i \<notin> seen))) r (foldl (unconfirmed seen) (unconfirmed seen r i) is)"
    by (rule adds_trans[OF adds_marks(8) Cons.IH])
  then show ?case by simp
qed (simp add: adds_refl)

lemma adds_index_gift: "adds (tally (\<not> gift_row_ok g)) (fst st) (fst (index_gift st g))"
  by (cases st) (auto simp: index_gift_def Let_def tally_def intro: adds_refl adds_marks)

lemma adds_index_refund: "adds (tally (\<not> refund_row_ok r)) (fst st) (fst (index_refund st r))"
  by (cases st) (auto simp: index_refund_def Let_def tally_def intro: adds_refl adds_marks)

lemma adds_sortIDs: "adds 0 r (sortIDs r)"
  by (simp add: adds_unfold sortIDs_def)

definition discrepancies :: "Object list \<Rightarrow> Object list \<Rightarrow> rgift list \<Rightarrow> rrefund list \<Rightarrow> int" where
  "discrepancies charges refunds gifts rows =
     (\<Sum>g\<leftarrow>gifts. tally (\<not> gift_row_ok g)) + (\<Sum>r\<leftarrow>rows. tally (\<not> refund_row_ok r))
     + (\<Sum>c\<leftarrow>charges. charge_weight (gift_by_charge gifts) (gift_by_intent gifts) c)
     + (\<Sum>r\<leftarrow>refunds. refund_weight (refund_by_id rows) r)
     + (\<Sum>i\<leftarrow>map rg_StripeObjectID gifts. tally (i \<noteq> [] \<and> \<not> (\<exists>c\<in>set charges. confirms_gift (gift_by_charge gifts) (gift_by_intent gifts) c i)))
     + (\<Sum>i\<leftarrow>map rr_StripeRefundID rows. tally (i \<noteq> [] \<and> \<not> (\<exists>x\<in>set refunds. confirms_refund (refund_by_id rows) x i)))"

lemma adds_Diff: "adds (discrepancies charges refunds gifts rows) (new_report w) (Diff w charges refunds gifts rows)"
proof -
  define st1 where "st1 = foldl index_gift (new_report w, Map.empty, Map.empty) gifts"
  define st2 where "st2 = foldl index_refund (fst st1, Map.empty) rows"
  define st3 where "st3 = foldl (diff_charge (gift_by_charge gifts) (gift_by_intent gifts)) (fst st2, {}) charges"
  define st4 where "st4 = foldl (diff_refund (refund_by_id rows)) (fst st3, {}) refunds"
  define r5 where "r5 = foldl (unconfirmed (snd st3)) (fst st4) (map rg_StripeObjectID gifts)"
  define r6 where "r6 = foldl (unconfirmed (snd st4)) r5 (map rr_StripeRefundID rows)"
  have Diff: "Diff w charges refunds gifts rows = sortIDs r6"
  proof -
    have "snd st1 = (gift_by_charge gifts, gift_by_intent gifts)" unfolding st1_def by (rule index_gift_maps)
    moreover have "snd st2 = refund_by_id rows" unfolding st2_def by (rule index_refund_map)
    ultimately show ?thesis
      by (simp add: Diff_def Let_def r6_def r5_def st4_def st3_def st2_def st1_def case_prod_beta)
  qed
  have "adds (\<Sum>g\<leftarrow>gifts. tally (\<not> gift_row_ok g)) (new_report w) (fst st1)"
    using adds_foldl[where st = "(new_report w, Map.empty, Map.empty)" and xs = gifts, OF adds_index_gift]
    by (simp add: st1_def)
  moreover have "adds (\<Sum>r\<leftarrow>rows. tally (\<not> refund_row_ok r)) (fst st1) (fst st2)"
    using adds_foldl[where st = "(fst st1, Map.empty)" and xs = rows, OF adds_index_refund]
    by (simp add: st2_def)
  moreover have "adds (\<Sum>c\<leftarrow>charges. charge_weight (gift_by_charge gifts) (gift_by_intent gifts) c) (fst st2) (fst st3)"
    using adds_foldl[where st = "(fst st2, {})" and xs = charges, OF adds_charge] by (simp add: st3_def)
  moreover have "adds (\<Sum>r\<leftarrow>refunds. refund_weight (refund_by_id rows) r) (fst st3) (fst st4)"
    using adds_foldl[where st = "(fst st3, {})" and xs = refunds, OF adds_refund] by (simp add: st4_def)
  moreover have "adds (\<Sum>i\<leftarrow>map rg_StripeObjectID gifts. tally (i \<noteq> [] \<and> \<not> (\<exists>c\<in>set charges. confirms_gift (gift_by_charge gifts) (gift_by_intent gifts) c i)))
      (fst st4) r5"
    unfolding r5_def using adds_unconfirmed[of "snd st3" "map rg_StripeObjectID gifts" "fst st4"] by (simp add: st3_def seen_gifts)
  moreover have "adds (\<Sum>i\<leftarrow>map rr_StripeRefundID rows. tally (i \<noteq> [] \<and> \<not> (\<exists>x\<in>set refunds. confirms_refund (refund_by_id rows) x i))) r5 r6"
    unfolding r6_def using adds_unconfirmed[of "snd st4" "map rr_StripeRefundID rows" r5] by (simp add: st4_def seen_refunds)
  ultimately show ?thesis
    using adds_sortIDs[of r6] unfolding Diff discrepancies_def adds_def by linarith
qed


lemma tally_nonneg: "0 \<le> tally b" and tally_0: "tally b = 0 \<longleftrightarrow> \<not> b"
  by (simp_all add: tally_def)

lemma weights_nonneg: "0 \<le> charge_weight byCharge byIntent c" "0 \<le> refund_weight byID r"
  by (auto simp: charge_weight_def refund_weight_def tally_def split: sum.splits option.splits)

lemma weights_0:
  "charge_weight byCharge byIntent c = 0 \<longleftrightarrow> (\<exists>amount collected. CollectedCharge c = Inr (amount, collected)
     \<and> (collected \<longrightarrow> (\<exists>g. match_gift byCharge byIntent c = Some g \<and> amount = rg_AmountMinor g \<and> EqualFold (Text c ''currency'') (rg_Currency g))))"
  "refund_weight byID r = 0 \<longleftrightarrow> (\<exists>i amount row. financialObject r ''re_'' = Inr (i, amount) \<and> byID i = Some row
     \<and> refundStatus (Text r ''status'') \<noteq> [] \<and> amount = rr_AmountMinor row \<and> refundStatus (Text r ''status'') = rr_Status row
     \<and> EqualFold (Text r ''currency'') (rr_Currency row))"
  by (auto simp: charge_weight_def refund_weight_def tally_def split: sum.splits option.splits)

lemma sum_weights_0:
  fixes w :: "'a \<Rightarrow> int"
  assumes "\<And>x. 0 \<le> w x"
  shows "0 \<le> (\<Sum>x\<leftarrow>xs. w x)" and "(\<Sum>x\<leftarrow>xs. w x) = 0 \<longleftrightarrow> (\<forall>x\<in>set xs. w x = 0)"
proof -
  show nn: "0 \<le> (\<Sum>x\<leftarrow>xs. w x)" for xs using assms by (induction xs) (simp_all add: add_nonneg_nonneg)
  show "(\<Sum>x\<leftarrow>xs. w x) = 0 \<longleftrightarrow> (\<forall>x\<in>set xs. w x = 0)"
  proof (induction xs)
    case (Cons x xs)
    with assms[of x] nn[of xs] show ?case by auto
  qed simp
qed

definition reconciled :: "Object list \<Rightarrow> Object list \<Rightarrow> rgift list \<Rightarrow> rrefund list \<Rightarrow> bool" where
  "reconciled charges refunds gifts rows \<longleftrightarrow>
     (\<forall>g\<in>set gifts. gift_row_ok g) \<and> (\<forall>r\<in>set rows. refund_row_ok r)
     \<and> (\<forall>c\<in>set charges. \<exists>amount collected. CollectedCharge c = Inr (amount, collected)
          \<and> (collected \<longrightarrow> (\<exists>g. match_gift (gift_by_charge gifts) (gift_by_intent gifts) c = Some g
               \<and> amount = rg_AmountMinor g \<and> EqualFold (Text c ''currency'') (rg_Currency g))))
     \<and> (\<forall>r\<in>set refunds. \<exists>i amount row. financialObject r ''re_'' = Inr (i, amount) \<and> refund_by_id rows i = Some row
          \<and> refundStatus (Text r ''status'') \<noteq> [] \<and> amount = rr_AmountMinor row
          \<and> refundStatus (Text r ''status'') = rr_Status row \<and> EqualFold (Text r ''currency'') (rr_Currency row))
     \<and> (\<forall>g\<in>set gifts. \<exists>c\<in>set charges. confirms_gift (gift_by_charge gifts) (gift_by_intent gifts) c (rg_StripeObjectID g))
     \<and> (\<forall>r\<in>set rows. \<exists>x\<in>set refunds. confirms_refund (refund_by_id rows) x (rr_StripeRefundID r))"

lemma row_ok_nonempty: "gift_row_ok g \<Longrightarrow> rg_StripeObjectID g \<noteq> []" "refund_row_ok r \<Longrightarrow> rr_StripeRefundID r \<noteq> []"
  by (auto simp: gift_row_ok_def refund_row_ok_def processorID_def)

lemma discrepancies_0: "discrepancies charges refunds gifts rows = 0 \<longleftrightarrow> reconciled charges refunds gifts rows"
proof -
  let ?bc = "gift_by_charge gifts" and ?bi = "gift_by_intent gifts" and ?br = "refund_by_id rows"
  let ?s1 = "\<Sum>g\<leftarrow>gifts. tally (\<not> gift_row_ok g)" and ?s2 = "\<Sum>r\<leftarrow>rows. tally (\<not> refund_row_ok r)"
  let ?s3 = "\<Sum>c\<leftarrow>charges. charge_weight ?bc ?bi c" and ?s4 = "\<Sum>r\<leftarrow>refunds. refund_weight ?br r"
  let ?s5 = "\<Sum>i\<leftarrow>map rg_StripeObjectID gifts. tally (i \<noteq> [] \<and> \<not> (\<exists>c\<in>set charges. confirms_gift ?bc ?bi c i))"
  let ?s6 = "\<Sum>i\<leftarrow>map rr_StripeRefundID rows. tally (i \<noteq> [] \<and> \<not> (\<exists>x\<in>set refunds. confirms_refund ?br x i))"
  have nn: "0 \<le> ?s1" "0 \<le> ?s2" "0 \<le> ?s3" "0 \<le> ?s4" "0 \<le> ?s5" "0 \<le> ?s6"
    by (rule sum_weights_0(1), simp add: tally_nonneg weights_nonneg)+
  have "discrepancies charges refunds gifts rows = 0 \<longleftrightarrow> ?s1 = 0 \<and> ?s2 = 0 \<and> ?s3 = 0 \<and> ?s4 = 0 \<and> ?s5 = 0 \<and> ?s6 = 0"
    unfolding discrepancies_def using nn by linarith
  also have "\<dots> \<longleftrightarrow> reconciled charges refunds gifts rows"
    unfolding sum_weights_0(2)[OF tally_nonneg] sum_weights_0(2)[OF weights_nonneg(1)] sum_weights_0(2)[OF weights_nonneg(2)]
      tally_0 weights_0 reconciled_def
    using row_ok_nonempty by auto
  finally show ?thesis .
qed

text \<open>
  C16. \<open>Diff\<close> raises no alarm exactly when the two sides agree: every stored row is well formed,
  every object of the processor is well formed, every collected charge and every refund has
  its row with the same amount and currency (and status), and every stored row is confirmed
  by one of them.
\<close>

theorem Diff_no_alarm:
  "\<not> HasDiscrepancies (Diff window charges refunds gifts rows) \<longleftrightarrow> reconciled charges refunds gifts rows"
proof -
  let ?r = "Diff window charges refunds gifts rows"
  have "counts_ok (new_report window)" "disc (new_report window) = 0"
    by (simp_all add: new_report_def counts_ok_def disc_def)
  with adds_Diff[of charges refunds gifts rows window]
  have "counts_ok ?r" "disc ?r = discrepancies charges refunds gifts rows" by (simp_all add: adds_def)
  then show ?thesis by (simp add: HasDiscrepancies_disc flip: discrepancies_0)
qed

definition report_lists :: "Report \<Rightarrow> string list list" where
  "report_lists r = [MissingGiftIDs r, MissingRefundIDs r, AmountMismatchIDs r, StatusMismatchIDs r, DBWithoutStripeIDs r,
     CurrencyMismatchIDs r, InvalidObjectIDs r]"

definition report_clean :: "Report \<Rightarrow> bool" where
  "report_clean r = list_all (\<lambda>ids. sorted ids \<and> length ids \<le> 100 \<and> list_all an_id ids) (report_lists r)"

text \<open>
  C17. A report never prints more than processor identifiers: each of its lists is sorted, has at
  most 100 entries, and every entry is a charge, payment intent, invoice or refund identifier
  (letters, digits, dash and underscore behind the prefix), never other text of a payload;
  merging reports keeps this, and the merged report raises the alarm exactly when one of
  the two does.
\<close>

theorem report_ids_bounded:
  "report_clean (Report_Add (Diff window charges refunds gifts rows) (Diff window' charges' refunds' gifts' rows'))
   \<and> report_clean (Diff window charges refunds gifts rows)
   \<and> (HasDiscrepancies (Report_Add (Diff window charges refunds gifts rows) (Diff window' charges' refunds' gifts' rows'))
      \<longleftrightarrow> HasDiscrepancies (Diff window charges refunds gifts rows) \<or> HasDiscrepancies (Diff window' charges' refunds' gifts' rows'))"
proof -
  have good: "report_ids_ok (Diff w c r g x) \<and> counts_ok (Diff w c r g x)" for w c r g x
    using adds_Diff[of c r g x w] by (simp add: adds_def report_ids_ok_def ids_ok_def counts_ok_def new_report_def)
  have sorted: "list_all sorted (report_lists (Diff w c r g x))" for w c r g x
    by (simp add: Diff_def Let_def report_lists_def sortIDs_def case_prod_beta)
  have merged: "sorted (merge_ids a b) \<and> length (merge_ids a b) \<le> 100 \<and> list_all an_id (merge_ids a b)"
    if "ids_ok a" "ids_ok b" for a b
  proof -
    have "an_id i" if "i \<in> set (take 100 (sort (a @ b)))" for i
      using in_set_takeD[OF that] \<open>ids_ok a\<close> \<open>ids_ok b\<close> by (auto simp: ids_ok_def)
    then show ?thesis by (auto simp: merge_ids_def maxIDs_def list_all_iff sorted_wrt_take)
  qed
  have "report_clean (Diff window charges refunds gifts rows)"
    using good[of window charges refunds gifts rows] sorted[of window charges refunds gifts rows]
    by (auto simp: report_clean_def report_ids_ok_def ids_ok_def report_lists_def list_all_iff)
  moreover have "report_clean (Report_Add (Diff window charges refunds gifts rows) (Diff window' charges' refunds' gifts' rows'))"
    using good[of window charges refunds gifts rows] good[of window' charges' refunds' gifts' rows']
    by (simp add: report_clean_def report_lists_def Report_Add_def report_ids_ok_def merged)
  moreover have "HasDiscrepancies (Report_Add a b) \<longleftrightarrow> HasDiscrepancies a \<or> HasDiscrepancies b" if "counts_ok a" "counts_ok b" for a b
    using that by (auto simp: HasDiscrepancies_def Report_Add_def counts_ok_def)
  ultimately show ?thesis using good by blast
qed

end
