(* ===== verification/Store_Tx.thy ===== *)
theory Store_Tx
  imports Json_Facts Badges
begin

text \<open>
  The ground the store's workers stand on (internal/store): the PostgreSQL tables they read
  and write, as lists of row records, the outside world a processor gateway acts on, and the
  transactions that thread both. A nullable column is an \<open>option\<close>, a \<open>pgtype.UUID\<close> the text
  \<open>String\<close> gives it. Only the columns the modelled code reads or writes are kept, and a
  timestamp is the instant itself (the database rounds to microseconds).
\<close>

named_theorems tx_defs \<open>definitions of the transaction combinators\<close>
named_theorems keeps_rules \<open>rules that an operation keeps a property of the tables\<close>

section \<open>Errors\<close>

text \<open>
  The errors the workers tell apart with \<open>errors.Is\<close>: \<open>pgx.ErrNoRows\<close>, a constraint violation
  of the database (SQLSTATE class 23) and a value out of range (class 22), the failure of the random source, a run-time
  panic, which unwinds a transaction like an error, and the sentinels of the packages
  \<open>payments\<close>, \<open>recognition\<close> and \<open>store\<close>.
\<close>

datatype store_error =
    ErrNoRows
  | ErrConstraint
  | ErrData
  | ErrPanic
  | ErrRandom
  | ErrUnconfigured
  | ErrProcessorUnavailable
  | StoreFacts
  | StoreInvalid
  | StoreIncomplete
  | StoreInvalidEvent
  | ErrDenied
  | ErrStaffDenied
  | ErrStaffForbidden
  | StoreStaffInput
  | ErrEventNotFound
  | ErrEventCancelled
  | ErrReservationClosed
  | ErrBookingNotOpen
  | ErrCheckIn
  | ErrCheckInDisabled
  | ErrCurrentSession
  | ErrSubscriptionConflict
  | ErrCheckoutConflict
  | ErrCheckoutInput
  | ErrCheckoutThrottled
  | ErrEmailRole
  | ErrOrigin

definition of_facts :: "facts_error + 'a \<Rightarrow> store_error + 'a" where
  "of_facts r = (case r of Inl ErrFacts \<Rightarrow> Inl StoreFacts | Inr a \<Rightarrow> Inr a)"

definition of_rec :: "rec_error + 'a \<Rightarrow> store_error + 'a" where
  "of_rec r = (case r of Inl ErrInvalid \<Rightarrow> Inl StoreInvalid | Inl ErrIncomplete \<Rightarrow> Inl StoreIncomplete | Inr a \<Rightarrow> Inr a)"

lemma of_facts_eq [simp]: "of_facts r = Inr a \<longleftrightarrow> r = Inr a"
  by (auto simp: of_facts_def split: sum.splits facts_error.splits)

lemma of_facts_simps [simp]: "of_facts (Inr a) = Inr a" "of_facts (Inl e) = Inl StoreFacts"
  by (simp_all add: of_facts_def split: facts_error.splits)

lemma of_rec_eq [simp]: "of_rec r = Inr a \<longleftrightarrow> r = Inr a"
  by (auto simp: of_rec_def split: sum.splits rec_error.splits)

section \<open>Tables\<close>

record donor_row =
  don_id :: string
  don_email :: string
  don_claimed_at :: "time option"
  don_disabled :: bool
  don_timezone :: "string option"
  don_city :: "string option"
  don_zip :: "string option"
  don_name :: "string option"
  don_company :: "string option"

record checkout_row =
  ck_id :: string
  ck_donor :: string
  ck_amount :: int
  ck_frequency :: string
  ck_referrer :: "string option"
  ck_kind :: "string option"
  ck_expires :: "time option"
  ck_created :: time
  ck_journey :: "string option"

record attempt_row =
  at_id :: string
  at_checkout :: string
  at_session :: "string option"
  at_subscription :: "string option"
  at_status :: string
  at_hash :: string
  at_params :: json
  at_url :: "string option"
  at_created :: time

record reservation_row =
  rs_id :: string
  rs_donor :: string
  rs_attempt :: string

record gift_row =
  gr_id :: string
  gr_donor :: string
  gr_checkout :: string
  gr_object :: string
  gr_amount :: int
  gr_currency :: string
  gr_frequency :: string
  gr_paid_at :: time
  gr_payment :: "string option"
  gr_period :: "string option"
  gr_referrer :: "string option"
  gr_kind :: "string option"

record period_row =
  pr_id :: string
  pr_donor :: string
  pr_checkout :: string
  pr_invoice :: string
  pr_subscription :: string
  pr_due :: time
  pr_ends :: time
  pr_status :: string

record billing_row =
  bo_id :: string
  bo_period :: string
  bo_event :: string
  bo_status :: string
  bo_amount :: int
  bo_currency :: string
  bo_reason :: string
  bo_occurred :: time
  bo_created :: time
  bo_recorded :: time

record refund_row =
  rr_id :: string
  rr_gift :: string
  rr_stripe :: string
  rr_amount :: int
  rr_currency :: string
  rr_status :: string
  rr_observed :: time

record refund_obs_row =
  ro_id :: string
  ro_refund :: string
  ro_event :: "string option"
  ro_action :: "string option"
  ro_status :: string
  ro_observed :: time

record change_row =
  ac_id :: string
  ac_donor :: string
  ac_checkout :: string
  ac_previous :: int
  ac_amount :: int
  ac_effective :: time
  ac_item :: string
  ac_product :: string
  ac_confirmed :: "time option"
  ac_created :: time

record subscription_row =
  sb_id :: string
  sb_attempt :: string
  sb_donor :: string
  sb_status :: string
  sb_period_end :: time
  sb_stops :: "time option"
  sb_anchor :: "time option"
  sb_external :: bool
  sb_observed :: time

record event_row =
  ev_id :: string
  ev_stripe :: string
  ev_type :: string
  ev_occurred :: time
  ev_data :: json
  ev_processed :: "time option"
  ev_attempts :: int
  ev_error :: "string option"
  ev_available :: time

record deletion_row =
  dl_donor :: string
  dl_deleted_at :: time

record reversal_row =
  rv_id :: string
  rv_donor :: string
  rv_kind :: string
  rv_target :: string
  rv_amount :: "int option"
  rv_attempts :: int
  rv_available :: time
  rv_completed :: "time option"
  rv_error :: "string option"
  rv_created :: time

record method_row =
  pm_id :: string
  pm_donor :: string
  pm_fingerprint :: string
  pm_observed :: time

record device_row =
  dv_donor :: string
  dv_hash :: string
  dv_observed :: time

record login_row =
  le_id :: string
  le_donor :: string
  le_available :: time
  le_created :: time
  le_return :: "string option"

record update_row =
  pu_id :: string
  pu_donor :: string
  pu_attempt :: string
  pu_customer :: string
  pu_session :: "string option"
  pu_url :: "string option"
  pu_status :: string
  pu_completed :: "time option"
  pu_created :: time

record projection_row =
  mp_id :: string
  mp_donor :: string
  mp_referrer :: "string option"
  mp_kind :: "string option"
  mp_first :: "string option"
  mp_net :: "int option"
  mp_founding :: "time option"
  mp_best :: int
  mp_current :: "int option"
  mp_at_risk :: bool
  mp_grace :: "time option"
  mp_computed :: time
  mp_next :: time
  mp_rules :: int
  mp_failures :: int
  mp_error :: "string option"
  mp_link_count :: int
  mp_irl_count :: int
  mp_link_minor :: int
  mp_irl_minor :: int
  mp_since :: "time option"
  mp_monthly :: int
  mp_active :: bool

text \<open>
  What the recognition projection writes beside its own row: founding grants, streak resets,
  retention checkpoints, server-side analytics, earned badges, corrected referrals, and the
  messages and push notices queued for delivery, which go to the devices of the donor's sessions.
\<close>

record reset_row =
  sr_donor :: string
  sr_at :: time

record retention_row =
  rm_donor :: string
  rm_days :: int
  rm_cohort :: time
  rm_checkpoint :: time
  rm_retained :: "bool option"
  rm_computed :: time

record observed_row =
  ob_id :: string
  ob_name :: string
  ob_donor :: string
  ob_key :: string
  ob_occurred :: time

record earned_row =
  eb_donor :: string
  eb_code :: string
  eb_earned :: time
  eb_city :: "string option"
  eb_revoked :: "time option"

record correction_row =
  rc_donor :: string
  rc_old_first :: string
  rc_new_first :: "string option"
  rc_old_referrer :: "string option"
  rc_new_referrer :: "string option"
  rc_old_kind :: "string option"
  rc_new_kind :: "string option"
  rc_recorded :: time
  rc_rules :: int

record session_row =
  se_id :: string
  se_donor :: string
  se_hash :: string
  se_expires :: time
  se_refresh :: "time option"
  se_revoked :: "time option"
  se_used :: time
  se_push :: "string option"
  se_client :: string
  se_device :: "string option"
  se_platform :: "string option"
  se_created :: time
  se_family :: "string option"
  se_current :: "string option"
  se_previous :: "string option"
  se_refreshed :: "time option"
  se_verified :: "time option"

record push_row =
  pn_id :: string
  pn_donor :: string
  pn_category :: string
  pn_key :: string
  pn_context :: json
  pn_available :: time
  pn_expires :: time

record message_row =
  ms_id :: string
  ms_donor :: string
  ms_kind :: string
  ms_key :: string
  ms_context :: json
  ms_available :: time

record recognition_db =
  rt_grants :: "string list"
  rt_resets :: "reset_row list"
  rt_retention :: "retention_row list"
  rt_observed :: "observed_row list"
  rt_badges :: "earned_row list"
  rt_corrections :: "correction_row list"
  rt_sessions :: "session_row list"
  rt_pushes :: "push_row list"
  rt_messages :: "message_row list"
  rt_rules :: rules_db

text \<open>
  The community's tables: events, the places donors hold at them, guest lists and the alerts
  that announce them, the initiatives a donor was shown, the ranking rollup, preferences and
  the company teams of donors.
\<close>

record donor_event_row =
  en_id :: string
  en_slug :: string
  en_title :: string
  en_type :: string
  en_description :: string
  en_venue :: string
  en_address :: string
  en_city :: string
  en_zip :: string
  en_starts :: time
  en_ends :: time
  en_capacity :: int
  en_state :: string
  en_published :: "time option"
  en_perk :: string
  en_cancelled :: "time option"
  en_opens :: "time option"
  en_zone :: string
  en_created :: time
  en_updated :: time

record place_row =
  pl_id :: string
  pl_event :: string
  pl_donor :: string
  pl_status :: string
  pl_reserved :: time
  pl_created :: time
  pl_updated :: time
  pl_checked :: "time option"

record guest_row =
  gu_id :: string
  gu_event :: string
  gu_donor :: string
  gu_created :: time

record alert_row =
  al_event :: string
  al_last :: "string option"
  al_completed :: "time option"
  al_updated :: time

record ranking_row =
  rk_donor :: string
  rk_percentile :: int
  rk_city :: "string option"
  rk_city_rank :: "int option"
  rk_population :: int
  rk_city_population :: int
  rk_computed :: time

record Preferences =
  pr_Version :: int
  pr_ReferralEmails :: bool
  pr_MarketingEmails :: bool
  pr_PushReferralConverted :: bool
  pr_PushStreakAtRisk :: bool
  pr_PushStreakMilestone :: bool
  pr_PushStreakLapsed :: bool
  pr_PushBadgeEarned :: bool
  pr_PushGiftProcessed :: bool
  pr_PushEventNearby :: bool
  pr_PushEventReminder :: bool
  pr_PushEventPromoted :: bool
  pr_RankingsOptedOut :: bool
  pr_NetworkVisible :: bool
  pr_Volunteer :: bool
  pr_VolunteerInterests :: "string list"

record preference_row =
  pf_donor :: string
  pf_choices :: Preferences

record employee_row =
  em_donor :: string
  em_partner :: string
  em_team :: "string option"
  em_enrolled :: time

record community_db =
  cm_events :: "donor_event_row list"
  cm_places :: "place_row list"
  cm_guests :: "guest_row list"
  cm_alerts :: "alert_row list"
  cm_exposures :: "(string \<times> string) list"
  cm_rankings :: "ranking_row list"
  cm_preferences :: "preference_row list"
  cm_employees :: "employee_row list"

text \<open>Staff accounts, their sessions, and the audit of what staff did.\<close>

record staff_row =
  sf_id :: string
  sf_email :: string
  sf_role :: string
  sf_disabled :: bool

record staff_session_row =
  ss_hash :: string
  ss_staff :: string
  ss_expires :: time
  ss_revoked :: "time option"

record audit_row =
  au_id :: string
  au_actor :: string
  au_action :: string
  au_target :: string
  au_details :: json
  au_created :: time

record staff_db =
  sd_staff :: "staff_row list"
  sd_sessions :: "staff_session_row list"
  sd_audit :: "audit_row list"

text \<open>
  What accounts and their commands write beside the tables above: the trail of sessions, the
  referral and company touches visitors captured, the companies' codes, the organizations'
  logins, imported founding claims, analytics journeys, and the recurring commands with the
  leases they hold.
\<close>

record session_event_row =
  sv_id :: string
  sv_donor :: string
  sv_session :: string
  sv_action :: string

record link_row =
  lk_id :: string
  lk_donor :: string
  lk_hash :: string
  lk_expires :: time
  lk_consumed :: "time option"

record touch_row =
  tc_hash :: string
  tc_referrer :: string
  tc_kind :: string
  tc_expires :: time

record company_touch_row =
  ct_hash :: string
  ct_code :: string
  ct_expires :: time

record company_row =
  cp_id :: string
  cp_code :: "string option"
  cp_approved :: "time option"

record partner_user_row =
  pt_email :: string
  pt_partner :: string
  pt_disabled :: bool

record journey_row =
  jo_journey :: string
  jo_donor :: "string option"

record cancellation_row =
  cn_id :: string
  cn_donor :: string
  cn_attempt :: string
  cn_period_end :: time
  cn_completed :: "time option"
  cn_created :: time

record lease_row =
  ls_attempt :: string
  ls_donor :: string
  ls_command :: string
  ls_expires :: time

record account_db =
  av_events :: "session_event_row list"
  av_links :: "link_row list"
  av_touches :: "touch_row list"
  av_company_touches :: "company_touch_row list"
  av_companies :: "company_row list"
  av_partner_users :: "partner_user_row list"
  av_claims :: "string list"
  av_journeys :: "journey_row list"
  av_cancellations :: "cancellation_row list"
  av_leases :: "lease_row list"

text \<open>
  The tables, and the identifiers the random source (\<open>NewID\<close>, \<open>gen_random_uuid\<close>) will give
  next; an empty supply is the source failing.
\<close>

record db =
  db_ids :: "string list"
  db_donors :: "donor_row list"
  db_checkouts :: "checkout_row list"
  db_attempts :: "attempt_row list"
  db_reservations :: "reservation_row list"
  db_gifts :: "gift_row list"
  db_periods :: "period_row list"
  db_billing :: "billing_row list"
  db_refunds :: "refund_row list"
  db_refund_obs :: "refund_obs_row list"
  db_changes :: "change_row list"
  db_subscriptions :: "subscription_row list"
  db_events :: "event_row list"
  db_deletions :: "deletion_row list"
  db_reversals :: "reversal_row list"
  db_methods :: "method_row list"
  db_devices :: "device_row list"
  db_logins :: "login_row list"
  db_updates :: "update_row list"
  db_projections :: "projection_row list"
  db_rec :: recognition_db
  db_community :: community_db
  db_staff :: staff_db
  db_account :: account_db

section \<open>Transactions\<close>

text \<open>
  What a step of a worker sees: the tables, the outside world \<open>'g\<close> its gateway acts on, and
  the subscriptions read so far in this step (the \<open>seen\<close> map of \<open>subFetcher\<close>).
\<close>

record 'g st =
  st_db :: db
  st_gw :: 'g
  st_seen :: "Object gomap"

type_synonym ('g, 'a) tx = "'g st \<Rightarrow> (store_error + 'a) \<times> 'g st"

definition sreturn :: "'a \<Rightarrow> ('g, 'a) tx" where "sreturn a s = (Inr a, s)"

definition sfail :: "store_error \<Rightarrow> ('g, 'a) tx" where "sfail e s = (Inl e, s)"

definition slift :: "store_error + 'a \<Rightarrow> ('g, 'a) tx" where "slift r s = (r, s)"

definition sguard :: "bool \<Rightarrow> store_error \<Rightarrow> ('g, unit) tx" where
  "sguard ok e = (if ok then sreturn () else sfail e)"

definition sbind :: "('g, 'a) tx \<Rightarrow> ('a \<Rightarrow> ('g, 'b) tx) \<Rightarrow> ('g, 'b) tx" where
  "sbind m f s = (case m s of (Inl e, t) \<Rightarrow> (Inl e, t) | (Inr a, t) \<Rightarrow> f a t)"

definition sread :: "(db \<Rightarrow> store_error + 'a) \<Rightarrow> ('g, 'a) tx" where
  "sread f s = (f (st_db s), s)"

definition swrite :: "(db \<Rightarrow> store_error + db) \<Rightarrow> ('g, unit) tx" where
  "swrite f s = (case f (st_db s) of Inl e \<Rightarrow> (Inl e, s) | Inr d \<Rightarrow> (Inr (), s\<lparr>st_db := d\<rparr>))"

definition supdate :: "(db \<Rightarrow> store_error + ('a \<times> db)) \<Rightarrow> ('g, 'a) tx" where
  "supdate f s = (case f (st_db s) of Inl e \<Rightarrow> (Inl e, s) | Inr (a, d) \<Rightarrow> (Inr a, s\<lparr>st_db := d\<rparr>))"

text \<open>The error of a call as a value, as in \<open>if err := call(); err != nil\<close>.\<close>

definition stry :: "('g, 'a) tx \<Rightarrow> ('g, store_error + 'a) tx" where
  "stry m s = (case m s of (r, t) \<Rightarrow> (Inr r, t))"

text \<open>A call of the gateway changes the outside world, also when it fails.\<close>

definition sgate :: "('g \<Rightarrow> (store_error + 'a) \<times> 'g) \<Rightarrow> ('g, 'a) tx" where
  "sgate f s = (case f (st_gw s) of (r, w) \<Rightarrow> (r, s\<lparr>st_gw := w\<rparr>))"

text \<open>\<open>pgx.BeginFunc\<close>: a transaction or savepoint; an error rolls the tables back, and only them.\<close>

definition BeginFunc :: "('g, 'a) tx \<Rightarrow> ('g, 'a) tx" where
  "BeginFunc m s = (case m s of (Inl e, t) \<Rightarrow> (Inl e, t\<lparr>st_db := st_db s\<rparr>) | (Inr a, t) \<Rightarrow> (Inr a, t))"

definition NewID :: "('g, string) tx" where
  "NewID s = (case db_ids (st_db s) of
     [] \<Rightarrow> (Inl ErrRandom, s)
   | i # is \<Rightarrow> (Inr i, s\<lparr>st_db := st_db s\<lparr>db_ids := is\<rparr>\<rparr>))"

text \<open>\<open>SELECT\<close> of one row, and of the first row in an order.\<close>

definition one_row :: "('r \<Rightarrow> bool) \<Rightarrow> 'r list \<Rightarrow> store_error + 'r" where
  "one_row P rows = (case find P rows of None \<Rightarrow> Inl ErrNoRows | Some r \<Rightarrow> Inr r)"

definition update_rows :: "('r \<Rightarrow> bool) \<Rightarrow> ('r \<Rightarrow> 'r) \<Rightarrow> 'r list \<Rightarrow> 'r list" where
  "update_rows P f rows = map (\<lambda>r. if P r then f r else r) rows"

text \<open>
  \<open>INSERT ... ON CONFLICT (key) DO NOTHING\<close>: the row's own checks come first, then the
  conflict on the key, then the table's other unique keys.
\<close>

definition insert_row :: "bool \<Rightarrow> ('r \<Rightarrow> bool) \<Rightarrow> ('r \<Rightarrow> bool) \<Rightarrow> 'r \<Rightarrow> 'r list \<Rightarrow> store_error + 'r list" where
  "insert_row ok conflict clash r rows =
     (if \<not> ok then Inl ErrConstraint
      else if list_ex conflict rows then Inr rows
      else if list_ex clash rows then Inl ErrConstraint
      else Inr (rows @ [r]))"

lemmas [tx_defs] = sreturn_def sfail_def slift_def sguard_def sbind_def sread_def swrite_def

section \<open>Reasoning about transactions\<close>

lemma sbind_Inr:
  "sbind m f s = (Inr b, t) \<longleftrightarrow> (\<exists>a u. m s = (Inr a, u) \<and> f a u = (Inr b, t))"
  by (auto simp: sbind_def split: prod.splits sum.splits)

lemma sbindE:
  assumes "sbind m f s = (Inr b, t)"
  obtains a u where "m s = (Inr a, u)" and "f a u = (Inr b, t)"
  using assms by (auto simp: sbind_Inr)

lemma sreturn_Inr [simp]: "sreturn a s = (Inr b, t) \<longleftrightarrow> b = a \<and> t = s"
  by (auto simp: sreturn_def)

lemma sfail_Inr [simp]: "sfail e s = (Inr b, t) \<longleftrightarrow> False"
  by (simp add: sfail_def)

lemma slift_Inr [simp]: "slift r s = (Inr b, t) \<longleftrightarrow> r = Inr b \<and> t = s"
  by (auto simp: slift_def)

lemma sguard_Inr [simp]: "sguard ok e s = (Inr b, t) \<longleftrightarrow> ok \<and> t = s"
  by (auto simp: sguard_def)

lemma sread_Inr [simp]: "sread f s = (Inr b, t) \<longleftrightarrow> f (st_db s) = Inr b \<and> t = s"
  by (auto simp: sread_def)

lemma swrite_Inr [simp]:
  "swrite f s = (Inr b, t) \<longleftrightarrow> (\<exists>d. f (st_db s) = Inr d \<and> t = s\<lparr>st_db := d\<rparr>)"
  by (auto simp: swrite_def split: sum.splits)

lemma supdate_Inr [simp]:
  "supdate f s = (Inr b, t) \<longleftrightarrow> (\<exists>d. f (st_db s) = Inr (b, d) \<and> t = s\<lparr>st_db := d\<rparr>)"
  by (auto simp: supdate_def split: sum.splits)

lemma stry_Inr: "stry m s = (Inr r, t) \<longleftrightarrow> m s = (r, t)"
  by (cases "m s") (auto simp: stry_def)

lemma NewID_Inr [simp]:
  "NewID s = (Inr i, t) \<longleftrightarrow> (\<exists>is. db_ids (st_db s) = i # is \<and> t = s\<lparr>st_db := st_db s\<lparr>db_ids := is\<rparr>\<rparr>)"
  by (auto simp: NewID_def split: list.splits)

lemma sgate_db: "sgate f s = (r, t) \<Longrightarrow> st_db t = st_db s"
  by (auto simp: sgate_def split: prod.splits)

lemma one_row_Inr: "one_row P rows = Inr r \<longleftrightarrow> find P rows = Some r"
  by (auto simp: one_row_def split: option.splits)

lemma one_row_in: "one_row P rows = Inr r \<Longrightarrow> r \<in> set rows \<and> P r"
  by (auto simp: one_row_Inr find_Some_iff)

lemma one_row_unique:
  assumes "r \<in> set rows" and "P r" and "\<And>x y. x \<in> set rows \<Longrightarrow> P x \<Longrightarrow> y \<in> set rows \<Longrightarrow> P y \<Longrightarrow> x = y"
  shows "one_row P rows = Inr r"
proof (cases "find P rows")
  case None
  with assms(1,2) show ?thesis by (auto simp: find_None_iff)
next
  case (Some x)
  then have "x \<in> set rows \<and> P x" by (auto simp: find_Some_iff)
  with assms Some show ?thesis by (simp add: one_row_def)
qed

lemma set_update_rows: "set (update_rows P f rows) = {f r |r. r \<in> set rows \<and> P r} \<union> {r \<in> set rows. \<not> P r}"
  by (auto simp: update_rows_def)

lemma map_update_rows [simp]: "(\<And>r. k (f r) = k r) \<Longrightarrow> map k (update_rows P f rows) = map k rows"
  by (simp add: update_rows_def)

lemma length_update_rows [simp]: "length (update_rows P f rows) = length rows"
  by (simp add: update_rows_def)

lemma find_update_rows:
  assumes "\<And>r. Q (f r) = Q r"
  shows "find Q (update_rows P f rows) = map_option (\<lambda>r. if P r then f r else r) (find Q rows)"
  using assms by (induction rows) (auto simp: update_rows_def)

lemma find_append_None: "find P xs = None \<Longrightarrow> find P (xs @ ys) = find P ys"
  by (induction xs) (auto split: if_splits)

text \<open>An operation keeps a property of the tables when every successful run does.\<close>

definition keeps :: "(db \<Rightarrow> bool) \<Rightarrow> ('g, 'a) tx \<Rightarrow> bool" where
  "keeps P m \<longleftrightarrow> (\<forall>s a t. P (st_db s) \<longrightarrow> m s = (Inr a, t) \<longrightarrow> P (st_db t))"

lemma keepsI: "(\<And>s a t. P (st_db s) \<Longrightarrow> m s = (Inr a, t) \<Longrightarrow> P (st_db t)) \<Longrightarrow> keeps P m"
  by (auto simp: keeps_def)

lemma keepsD: "keeps P m \<Longrightarrow> P (st_db s) \<Longrightarrow> m s = (Inr a, t) \<Longrightarrow> P (st_db t)"
  by (auto simp: keeps_def)

lemma keeps_return [keeps_rules]: "keeps P (sreturn a)"
  and keeps_fail [keeps_rules]: "keeps P (sfail e)"
  and keeps_lift [keeps_rules]: "keeps P (slift r)"
  and keeps_guard [keeps_rules]: "keeps P (sguard ok e)"
  and keeps_read [keeps_rules]: "keeps P (sread f)"
  by (auto intro: keepsI)

lemma keeps_gate [keeps_rules]: "keeps P (sgate f)"
  by (auto simp: keeps_def dest: sgate_db)

lemma keeps_bind [keeps_rules]: "keeps P m \<Longrightarrow> (\<And>a. keeps P (f a)) \<Longrightarrow> keeps P (sbind m f)"
  by (rule keepsI) (erule sbindE, blast dest: keepsD)

lemma keeps_if [keeps_rules]: "(c \<Longrightarrow> keeps P m) \<Longrightarrow> (\<not> c \<Longrightarrow> keeps P n) \<Longrightarrow> keeps P (if c then m else n)"
  by simp

lemma keeps_option [keeps_rules]:
  "(x = None \<Longrightarrow> keeps P m) \<Longrightarrow> (\<And>a. x = Some a \<Longrightarrow> keeps P (n a)) \<Longrightarrow>
    keeps P (case x of None \<Rightarrow> m | Some a \<Rightarrow> n a)"
  by (cases x) auto

lemma keeps_prod [keeps_rules]: "(\<And>a b. x = (a, b) \<Longrightarrow> keeps P (m a b)) \<Longrightarrow> keeps P (case x of (a, b) \<Rightarrow> m a b)"
  by (cases x) auto

lemma keeps_write: "(\<And>d d'. P d \<Longrightarrow> f d = Inr d' \<Longrightarrow> P d') \<Longrightarrow> keeps P (swrite f)"
  by (auto simp: keeps_def)

lemma keeps_update_rows: "(\<And>d a d'. P d \<Longrightarrow> f d = Inr (a, d') \<Longrightarrow> P d') \<Longrightarrow> keeps P (supdate f)"
  by (rule keepsI) auto

text \<open>A failing savepoint restores the tables, so catching its error keeps what the work keeps.\<close>

lemma keeps_stry_BeginFunc [keeps_rules]: "keeps P m \<Longrightarrow> keeps P (stry (BeginFunc m))"
  by (rule keepsI) (auto simp: stry_Inr BeginFunc_def split: prod.splits sum.splits dest: keepsD)

lemma keeps_BeginFunc [keeps_rules]: "keeps P m \<Longrightarrow> keeps P (BeginFunc m)"
  by (auto simp: keeps_def BeginFunc_def split: prod.splits sum.splits)

lemma BeginFunc_cases:
  "BeginFunc m s = (r, t) \<longleftrightarrow>
     (\<exists>u. m s = (r, u) \<and> t = (case r of Inl e \<Rightarrow> u\<lparr>st_db := st_db s\<rparr> | Inr a \<Rightarrow> u))"
  by (auto simp: BeginFunc_def split: prod.splits sum.splits)

section \<open>Keyed tables\<close>

text \<open>
  The contract of the tables filled by \<open>INSERT ... ON CONFLICT (key) DO NOTHING\<close>: a new key
  appends the row, a known key changes nothing. What the first writer stored is what every
  later reader finds, however often the row is offered again.
\<close>

locale keyed_table =
  fixes rows :: "db \<Rightarrow> 'r list"
    and key :: "'r \<Rightarrow> 'k"
    and ins :: "'r \<Rightarrow> db \<Rightarrow> store_error + db"
  assumes ins_rows: "ins r d = Inr d' \<Longrightarrow>
      rows d' = (if key r \<in> key ` set (rows d) then rows d else rows d @ [r])"
    and ins_known: "key r \<in> key ` set (rows d) \<Longrightarrow> ins r d = Inr d' \<Longrightarrow> d' = d"
begin

lemma ins_distinct:
  assumes "ins r d = Inr d'" and "distinct (map key (rows d))"
  shows "distinct (map key (rows d'))"
  using ins_rows[OF assms(1)] assms(2) by auto

lemma ins_keeps_distinct: "keeps (\<lambda>d. distinct (map key (rows d))) (swrite (ins r))"
  using ins_distinct by (rule keeps_write)

lemma ins_lookup:
  assumes "ins r d = Inr d'"
  shows "one_row (\<lambda>x. key x = key r) (rows d') =
    Inr (case find (\<lambda>x. key x = key r) (rows d) of None \<Rightarrow> r | Some x \<Rightarrow> x)"
proof (cases "find (\<lambda>x. key x = key r) (rows d)")
  case None
  then have "key r \<notin> key ` set (rows d)" by (auto simp: find_None_iff)
  moreover have "find (\<lambda>x. key x = key r) (rows d @ [r]) = Some r"
    using None by (simp add: find_append_None)
  ultimately show ?thesis using ins_rows[OF assms] None by (simp add: one_row_def)
next
  case (Some x)
  then have "x \<in> set (rows d) \<and> key x = key r" by (auto simp: find_Some_iff)
  then have "key r \<in> key ` set (rows d)" by (metis imageI)
  with Some ins_rows[OF assms] show ?thesis by (simp add: one_row_def)
qed

lemma ins_grows: "ins r d = Inr d' \<Longrightarrow> \<exists>new. rows d' = rows d @ new"
  using ins_rows by (cases "key r \<in> key ` set (rows d)") auto

lemma ins_again:
  assumes "ins r d = Inr d'" and "ins r' d' = Inr d''" and "key r' = key r"
  shows "d'' = d'"
proof -
  have "key r' \<in> key ` set (rows d')" using ins_rows[OF assms(1)] assms(3) by auto
  then show ?thesis using ins_known assms(2) by blast
qed

end

section \<open>Retry queues\<close>

text \<open>
  How often a polled worker finds work: the steps of a schedule that report a claimed job. A
  step that fails to record its outcome stops the schedule.
\<close>

fun claims :: "('a \<Rightarrow> 's \<Rightarrow> ('e + bool) \<times> 's) \<Rightarrow> 'a list \<Rightarrow> 's \<Rightarrow> nat" where
  "claims step [] s = 0"
| "claims step (a # as) s =
     (case step a s of
        (Inl e, t) \<Rightarrow> 0
      | (Inr worked, t) \<Rightarrow> (if worked then 1 else 0) + claims step as t)"

text \<open>
  The contract of a queue with a bounded number of attempts: claiming a job uses up some of
  its budget, an idle poll uses none. Then the budget bounds the claims of every schedule.
\<close>

locale retry_queue =
  fixes step :: "'a \<Rightarrow> 's \<Rightarrow> ('e + bool) \<times> 's"
    and budget :: "'s \<Rightarrow> nat"
  assumes worked: "step a s = (Inr True, t) \<Longrightarrow> budget t < budget s"
    and idle: "step a s = (Inr False, t) \<Longrightarrow> budget t \<le> budget s"
begin

lemma claims_bounded: "claims step as s \<le> budget s"
proof (induction as arbitrary: s)
  case (Cons a as)
  show ?case
  proof (cases "step a s")
    case (Pair r t)
    show ?thesis
    proof (cases r)
      case (Inr b)
      then show ?thesis using Pair Cons.IH[of t] worked[of a s t] idle[of a s t] by (cases b) auto
    qed (simp add: Pair)
  qed
qed simp

end

text \<open>A step that reports a claim only when it is the claim in question.\<close>

definition noting :: "('a \<Rightarrow> 's \<Rightarrow> bool) \<Rightarrow> ('a \<Rightarrow> 's \<Rightarrow> ('e + bool) \<times> 's) \<Rightarrow> 'a \<Rightarrow> 's \<Rightarrow> ('e + bool) \<times> 's" where
  "noting mine step a s = (case step a s of (Inl e, t) \<Rightarrow> (Inl e, t) | (Inr b, t) \<Rightarrow> (Inr (b \<and> mine a s), t))"

lemma noting_Inr: "noting mine step a s = (Inr c, t) \<longleftrightarrow> (\<exists>b. step a s = (Inr b, t) \<and> c = (b \<and> mine a s))"
  by (auto simp: noting_def split: prod.splits sum.splits)

lemma sum_list_update_rows_less:
  fixes h :: "'r \<Rightarrow> nat"
  assumes "x \<in> set rows" and "P x" and "\<And>r. r \<in> set rows \<Longrightarrow> P r \<Longrightarrow> h (f r) \<le> h r" and "h (f x) < h x"
  shows "sum_list (map h (update_rows P f rows)) < sum_list (map h rows)"
  using assms
proof (induction rows)
  case (Cons r rows)
  have le: "sum_list (map h (update_rows P f rows)) \<le> sum_list (map h rows)"
    unfolding update_rows_def map_map by (rule sum_list_mono) (simp add: Cons.prems(3))
  have head: "h (if P r then f r else r) \<le> h r" using Cons.prems(3)[of r] by simp
  show ?case
  proof (cases "x = r")
    case True
    then show ?thesis using le Cons.prems(2,4) by (simp add: update_rows_def)
  next
    case False
    then have "sum_list (map h (update_rows P f rows)) < sum_list (map h rows)"
      using Cons.IH Cons.prems by simp
    then show ?thesis using head by (simp add: update_rows_def split: if_splits)
  qed
qed simp

lemma update_rows_update_rows:
  assumes "\<And>r. P (f r) = P r"
  shows "update_rows P g (update_rows P f rows) = update_rows P (\<lambda>r. g (f r)) rows"
  using assms by (simp add: update_rows_def)

lemma sum_list_budget:
  fixes h :: "'r \<Rightarrow> nat"
  assumes "\<And>r. r \<in> set rows \<Longrightarrow> h r \<le> (if P r then k else 0)"
  shows "sum_list (map h rows) \<le> k * length (filter P rows)"
  using assms
proof (induction rows)
  case (Cons r rows)
  then have "h r \<le> (if P r then k else 0)" "sum_list (map h rows) \<le> k * length (filter P rows)" by simp_all
  then show ?case by (auto split: if_splits)
qed simp

section \<open>Loops over rows\<close>

fun sfor :: "'a list \<Rightarrow> ('a \<Rightarrow> ('g, unit) tx) \<Rightarrow> ('g, unit) tx" where
  "sfor [] f = sreturn ()"
| "sfor (x # xs) f = sbind (f x) (\<lambda>_. sfor xs f)"

lemma keeps_sfor [keeps_rules]: "(\<And>x. x \<in> set xs \<Longrightarrow> keeps P (f x)) \<Longrightarrow> keeps P (sfor xs f)"
  by (induction xs) (auto intro: keeps_rules)

end
