(* ===== verification/Go_Calendar.thy ===== *)
theory Go_Calendar
  imports Go_Time
begin

text \<open>
  The proleptic Gregorian calendar of Go's package \<open>time\<close>: the year, month and day of a day
  number (day 0 is 1970-01-01), the day number of a date whose month and day may be out of
  range, and \<open>AddDate\<close>.
\<close>

definition leap :: "int \<Rightarrow> bool" where
  "leap y \<longleftrightarrow> 4 dvd y \<and> (\<not> 100 dvd y \<or> 400 dvd y)"

definition days_before_year :: "int \<Rightarrow> int" where
  "days_before_year y = 365 * (y - 1) + (y - 1) div 4 - (y - 1) div 100 + (y - 1) div 400 - 719162"

definition year_of :: "int \<Rightarrow> int" where
  "year_of d = (let e = 400 * (d + 719162) div 146097
     in if days_before_year (e + 2) \<le> d then e + 2 else e + 1)"

definition month_starts :: "int list" where
  "month_starts = [0, 31, 59, 90, 120, 151, 181, 212, 243, 273, 304, 334]"

definition days_before_month :: "int \<Rightarrow> int \<Rightarrow> int" where
  "days_before_month y m = month_starts ! nat (m - 1) + (if m > 2 \<and> leap y then 1 else 0)"

definition month_of :: "int \<Rightarrow> int \<Rightarrow> int" where
  "month_of y n = last (filter (\<lambda>m. days_before_month y m \<le> n) [1..12])"

definition date_of :: "int \<Rightarrow> int \<times> int \<times> int" where
  "date_of d = (let y = year_of d; n = d - days_before_year y; m = month_of y n in (y, m, n - days_before_month y m + 1))"

definition day_number :: "int \<Rightarrow> int \<Rightarrow> int \<Rightarrow> int" where
  "day_number y m d = (let y' = y + (m - 1) div 12; m' = (m - 1) mod 12 + 1
     in days_before_year y' + days_before_month y' m' + d - 1)"

definition AddDate :: "location \<Rightarrow> time \<Rightarrow> int \<Rightarrow> int \<Rightarrow> int \<Rightarrow> time" where
  "AddDate loc t years months days = (case date_of (civil_date loc t) of (y, m, d) \<Rightarrow>
     Date_at loc (day_number (y + years) (m + months) (d + days)) (local_clock loc t) (Nanosecond t))"

section \<open>Every day has its year and month\<close>

lemma year_of_bounds: "days_before_year (year_of d) \<le> d \<and> d < days_before_year (year_of d + 1)"
proof -
  define e where "e = 400 * (d + 719162) div 146097"
  obtain r where "400 * (d + 719162) = 146097 * e + r" "0 \<le> r" "r < 146097"
    using mult_div_mod_eq[of 146097 "400 * (d + 719162)"] unfolding e_def[symmetric] by (metis pos_mod_bound pos_mod_sign zero_less_numeral)
  then have e: "146097 * e \<le> 400 * (d + 719162)" "400 * (d + 719162) < 146097 * (e + 1)" by auto
  have div: "4 * (y div 4) \<le> y" "y < 4 * (y div 4) + 4" "100 * (y div 100) \<le> y" "y < 100 * (y div 100) + 100"
    "400 * (y div 400) \<le> y" "y < 400 * (y div 400) + 400" for y :: int
    by linarith+
  have low: "days_before_year (e + 1) \<le> d"
    unfolding days_before_year_def using e(1) div[of e] by simp
  have high: "d < days_before_year (e + 3)"
    unfolding days_before_year_def using e(2) div[of "e + 2"] by simp
  show ?thesis
    unfolding year_of_def Let_def e_def[symmetric] using low high
    by (cases "days_before_year (e + 2) \<le> d") (simp_all add: add.commute)
qed

lemma month_of_bounds: "0 \<le> n \<Longrightarrow> month_of y n \<in> {1..12} \<and> days_before_month y (month_of y n) \<le> n"
proof -
  assume "0 \<le> n"
  then have "1 \<in> set (filter (\<lambda>m. days_before_month y m \<le> n) [1..12])"
    by (simp add: days_before_month_def month_starts_def)
  then have "month_of y n \<in> set (filter (\<lambda>m. days_before_month y m \<le> n) [1..12])"
    unfolding month_of_def by (intro last_in_set) (metis empty_iff empty_set)
  then show ?thesis by simp
qed

lemma day_number_date_of: "date_of d = (y, m, k) \<Longrightarrow> day_number y m (k + n) = d + n"
  using year_of_bounds[of d] month_of_bounds[of "d - days_before_year (year_of d)" "year_of d"]
  by (auto simp: date_of_def day_number_def Let_def)

lemma AddDate_days: "AddDate loc t 0 0 n = AddDays loc t n"
  by (auto simp: AddDate_def AddDays_def day_number_date_of split: prod.splits)

lemma next_year_later: "d < days_before_year (year_of d + 1)"
  using year_of_bounds by blast

end
