(* ===== verification/Projection_Facts.thy ===== *)
theory Projection_Facts
  imports Store_Tx Go_Calendar
begin

text \<open>
  What the recognition projection computes from a donor's history, before anything is saved
  (internal/store/financial.go): refund states as of a moment, the replay of the best streak,
  the net total, the conversion, the next refresh. Cancellation of a request (\<open>ctx.Err\<close>) is not
  modelled.
\<close>

record history =
  h_Gifts :: "gift list"
  h_Refunds :: "refund list"
  h_Periods :: "period list"

record RefundObservationsRow =
  o_StripeRefundID :: string
  o_Status :: string
  o_ObservedAt :: time

section \<open>Refunds and the pledge\<close>

fun latestMonthly_loop :: "int \<Rightarrow> time \<Rightarrow> gift list \<Rightarrow> int" where
  "latestMonthly_loop amount latest [] = amount"
| "latestMonthly_loop amount latest (g # gifts) =
     (if g_Frequency g \<noteq> ''MONTHLY'' then latestMonthly_loop amount latest gifts
      else if g_PaidAt g > latest then latestMonthly_loop (g_Amount g) (g_PaidAt g) gifts
      else latestMonthly_loop amount latest gifts)"

definition latestMonthlyMinor :: "gift list \<Rightarrow> int" where
  "latestMonthlyMinor gifts = latestMonthly_loop 0 0 gifts"

definition latest_observations :: "RefundObservationsRow list \<Rightarrow> RefundObservationsRow gomap" where
  "latest_observations observations = foldl (\<lambda>m o'. AList.update (o_StripeRefundID o') o' m) [] observations"

definition refundsAsOf :: "refund list \<Rightarrow> RefundObservationsRow list \<Rightarrow> time \<Rightarrow> refund list \<times> time list" where
  "refundsAsOf current observations asOf =
     (let latest = latest_observations observations
      in (concat (map (\<lambda>r.
            if r_UpdatedAt r > asOf
            then (case map_of latest (r_ID r) of
                    None \<Rightarrow> []
                  | Some o' \<Rightarrow> [r\<lparr>r_Status := o_Status o', r_UpdatedAt := o_ObservedAt o'\<rparr>])
            else [r]) current),
          map r_UpdatedAt (filter (\<lambda>r. r_UpdatedAt r > asOf) current)))"

definition refundsForGifts :: "refund list \<Rightarrow> gift list \<Rightarrow> refund list" where
  "refundsForGifts refunds gifts = filter (\<lambda>r. r_GiftID r \<in> set (map g_ID gifts)) refunds"

fun net_total :: "int \<Rightarrow> int list \<Rightarrow> rec_error + int" where
  "net_total total' [] = Inr total'"
| "net_total total' (amount # net) =
     (if amount > MaxInt64 - total' then Inl ErrInvalid else net_total (total' + amount) net)"

definition netMinor :: "gift list \<Rightarrow> refund list \<Rightarrow> time \<Rightarrow> rec_error + int" where
  "netMinor gifts refunds now = rbind (NetGifts gifts refunds now) (\<lambda>net. net_total 0 (map snd net))"

section \<open>The best streak, replayed\<close>

text \<open>
  The history is replayed at every moment a gift was paid or a refund changed. \<open>history\<close> and
  \<open>gifts\<close> are in time order and lose what has happened by the current point.
\<close>

definition recurring_period :: "string \<Rightarrow> string set \<Rightarrow> gift \<Rightarrow> string set" where
  "recurring_period donorID paid g =
     (if g_DonorID g = donorID \<and> g_Frequency g = ''MONTHLY'' then insert (g_PeriodID g) paid else paid)"

fun replay_loop ::
  "string \<Rightarrow> history \<Rightarrow> time list \<Rightarrow> time list \<Rightarrow> int \<Rightarrow> refund gomap \<Rightarrow> string set \<Rightarrow> refund list \<Rightarrow> gift list \<Rightarrow> rec_error + int" where
  "replay_loop donorID h stops [] best latest paidPeriods history gifts = Inr best"
| "replay_loop donorID h stops (point # points) best latest paidPeriods history gifts =
     (let latest = foldl (\<lambda>m r. AList.update (r_ID r) r m) latest (takeWhile (\<lambda>r. \<not> r_UpdatedAt r > point) history);
          history = dropWhile (\<lambda>r. \<not> r_UpdatedAt r > point) history;
          paidPeriods = foldl (recurring_period donorID) paidPeriods (takeWhile (\<lambda>g. \<not> g_PaidAt g > point) gifts);
          gifts = dropWhile (\<lambda>g. \<not> g_PaidAt g > point) gifts
      in if int (card paidPeriods) \<le> best
         then replay_loop donorID h stops points best latest paidPeriods history gifts
         else case GivingStreak (h_Gifts h) (map snd latest) (h_Periods h) donorID point best stops of
                Inl e \<Rightarrow> if e = ErrIncomplete then replay_loop donorID h stops points best latest paidPeriods history gifts
                         else Inl e
              | Inr v \<Rightarrow> replay_loop donorID h stops points (if s_Best v > best then s_Best v else best)
                         latest paidPeriods history gifts)"

definition replay_points :: "history \<Rightarrow> refund list \<Rightarrow> time \<Rightarrow> time list" where
  "replay_points h history now =
     sort (remdups (map g_PaidAt (filter (\<lambda>g. \<not> g_PaidAt g > now) (h_Gifts h)) @ map r_UpdatedAt history))"

definition replayBest :: "string \<Rightarrow> history \<Rightarrow> refund list \<Rightarrow> time \<Rightarrow> int \<Rightarrow> time list \<Rightarrow> rec_error + int" where
  "replayBest donorID h history now previous stops =
     replay_loop donorID h stops (replay_points h history now) previous [] {}
       (sort_key r_UpdatedAt history) (sort_key g_PaidAt (h_Gifts h))"

fun observed_history :: "refund gomap \<Rightarrow> RefundObservationsRow list \<Rightarrow> rec_error + refund list" where
  "observed_history byID [] = Inr []"
| "observed_history byID (o' # observations) =
     (case map_of byID (o_StripeRefundID o') of
        None \<Rightarrow> Inl ErrInvalid
      | Some r \<Rightarrow> rbind (observed_history byID observations)
          (\<lambda>rs. Inr (r\<lparr>r_Status := o_Status o', r_UpdatedAt := o_ObservedAt o'\<rparr> # rs)))"

definition historicalBest ::
  "string \<Rightarrow> history \<Rightarrow> RefundObservationsRow list \<Rightarrow> time \<Rightarrow> int \<Rightarrow> time list \<Rightarrow> rec_error + int" where
  "historicalBest donorID h observations now previous stops =
     (let byID = foldl (\<lambda>m r. AList.update (r_ID r) r m) [] (h_Refunds h)
      in rbind (observed_history byID observations) (\<lambda>history.
         let observed = set (map r_ID history)
         in replayBest donorID h
              (history @ filter (\<lambda>r. r_ID r \<notin> observed \<and> \<not> r_UpdatedAt r > now) (h_Refunds h)) now previous stops))"

section \<open>The next refresh\<close>

definition projectionRules :: int where "projectionRules = 12"

definition minRefreshInterval :: duration where "minRefreshInterval = 25 * 24 * Hour"

definition maxRefreshInterval :: duration where "maxRefreshInterval = 35 * 24 * Hour"

text \<open>The value of the last eight bytes of an identifier, from its text.\<close>

definition hex_value :: "char \<Rightarrow> int" where
  "hex_value c = (let n = int (of_char c) in if n \<ge> 97 then n - 87 else if n \<ge> 65 then n - 55 else n - 48)"

definition id_tail :: "string \<Rightarrow> int" where
  "id_tail ident = foldl (\<lambda>n c. 16 * n + hex_value c) 0 (filter (\<lambda>c. c \<noteq> CHR ''-'') (drop 19 ident))"

definition refreshCap :: "string \<Rightarrow> duration" where
  "refreshCap donor =
     (let spread = (maxRefreshInterval - minRefreshInterval) div Second
      in minRefreshInterval + (id_tail donor mod spread) * Second)"

text \<open>\<open>None\<close> is the panic of the ladder on an empty list of milestones.\<close>

definition milestone_boundary :: "time option \<Rightarrow> time \<Rightarrow> location \<Rightarrow> int list \<Rightarrow> time list option" where
  "milestone_boundary since now zone milestones =
     (case since of
        None \<Rightarrow> Some []
      | Some t \<Rightarrow>
          let run = empty_streak\<lparr>s_Since := Some t\<rparr>
          in map_option (\<lambda>l. case l_NextMilestone l of
                 None \<Rightarrow> []
               | Some n \<Rightarrow> (case Reaches run n zone of None \<Rightarrow> [] | Some b \<Rightarrow> [b]))
               (LadderWithMilestones run now zone milestones))"

definition refresh_boundaries ::
  "location \<Rightarrow> projection_row \<Rightarrow> history \<Rightarrow> time list \<Rightarrow> time list \<Rightarrow> time \<Rightarrow> time list \<Rightarrow> time list" where
  "refresh_boundaries newYork out h refundBoundaries stops now milestone =
     refundBoundaries @ stops @ milestone
     @ concat (map (\<lambda>p. [p_DueAt p, p_EndsAt p, p_EndsAt p + Grace]) (h_Periods h))
     @ map g_PaidAt (h_Gifts h)
     @ (case mp_grace out of None \<Rightarrow> [] | Some t \<Rightarrow> [t])
     @ (if h_Gifts h \<noteq> [] then [Date_midnight newYork (days_before_year (year_of (civil_date newYork now) + 1))] else [])"

definition nextRefresh ::
  "location \<Rightarrow> projection_row \<Rightarrow> history \<Rightarrow> time list \<Rightarrow> time list \<Rightarrow> time \<Rightarrow> location \<Rightarrow> int list \<Rightarrow> time option" where
  "nextRefresh newYork out h refundBoundaries stops now zone milestones =
     map_option (\<lambda>milestone.
         foldl (\<lambda>next b. if b > now \<and> b < next then b else next) (mp_next out)
           (refresh_boundaries newYork out h refundBoundaries stops now milestone))
       (milestone_boundary (mp_since out) now zone milestones)"

section \<open>The conversion\<close>

definition projectConversion :: "projection_row \<Rightarrow> history \<Rightarrow> string \<Rightarrow> bool \<Rightarrow> time \<Rightarrow> rec_error + projection_row" where
  "projectConversion out h donor claimed now =
     rbind (Relationships (h_Gifts h) now) (\<lambda>relations.
     let out = out\<lparr>mp_first := None, mp_referrer := None, mp_kind := None\<rparr>;
         out = (case map_of relations donor of
                  None \<Rightarrow> out
                | Some relation \<Rightarrow>
                    let out = out\<lparr>mp_first := Some (rel_FirstGiftID relation)\<rparr>
                    in if rel_ReferrerID relation \<noteq> None
                       then out\<lparr>mp_referrer := rel_ReferrerID relation, mp_kind := rel_Kind relation\<rparr> else out)
     in if mp_founding out \<noteq> None then Inr out
        else rbind (FoundingQualifiedAt (h_Gifts h) donor now) (\<lambda>(at, qualified).
             Inr (if qualified then out\<lparr>mp_founding := Some at\<rparr>
                  else if claimed then out\<lparr>mp_founding := Some now\<rparr> else out)))"

definition referralContribution :: "string option \<Rightarrow> string option \<Rightarrow> int option \<Rightarrow> int \<times> int \<times> int \<times> int" where
  "referralContribution referrer kind net =
     (case (referrer, kind, net) of
        (Some _, Some k, Some n) \<Rightarrow>
          if k = ''LINK'' then (if n > 0 then 1 else 0, 0, n, 0)
          else if k = ''IRL'' then (0, if n > 0 then 1 else 0, 0, n)
          else (0, 0, 0, 0)
      | _ \<Rightarrow> (0, 0, 0, 0))"

section \<open>The pruned replay loses nothing\<close>

text \<open>The billing periods a donor's monthly gifts name, of those paid by a moment.\<close>

definition periods_by :: "string \<Rightarrow> gift list \<Rightarrow> time \<Rightarrow> string set" where
  "periods_by donorID gifts point =
     g_PeriodID ` {g \<in> set gifts. g_DonorID g = donorID \<and> g_Frequency g = ''MONTHLY'' \<and> g_PaidAt g \<le> point}"

lemma pget_Nil [simp]: "pget [] k = []"
  by (simp add: pget_def)

lemma NetGifts_paid_by:
  assumes "NetGifts gifts refunds asOf = Inr net" and "map_of net k \<noteq> None"
  shows "\<exists>g\<in>set gifts. g_ID g = k \<and> g_PaidAt g \<le> asOf"
proof -
  have "map_of net = net_amounts gifts refunds asOf"
    using NetGifts_reference[of gifts refunds asOf] assms(1) by (simp split: if_splits)
  with assms(2) show ?thesis by (auto simp: net_amounts_def find_Some_iff split: option.splits)
qed

lemma donorPeriods_distinct: "donorPeriods input donorID = Inr periods \<Longrightarrow> distinct (map p_ID periods)"
proof -
  assume "donorPeriods input donorID = Inr periods"
  then have inj: "inj_on p_ID (set input)" and periods: "periods = sort_key p_DueAt (filter (\<lambda>p. p_DonorID p = donorID) (first_occs input))"
    by (auto simp: donorPeriods_def periods.loop_start Let_def split: if_splits)
  have "set periods \<subseteq> set input" "distinct periods" using periods by auto
  then show ?thesis using inj_on_subset[OF inj] by (simp add: distinct_map)
qed

lemma run_periods_paid:
  assumes net: "NetGifts (first_occs input) refunds asOf = Inr net"
    and pay: "periodPayments (first_occs input) net periods donorID = Inr payments"
    and paid: "paid_at payments net p \<noteq> 0" and inj: "inj_on g_ID (set input)"
  shows "p_ID p \<in> periods_by donorID input asOf"
proof -
  let ?mine = "filter (\<lambda>g. g_DonorID g = donorID \<and> g_Frequency g = ''MONTHLY'' \<and> map_of net (g_ID g) \<noteq> None) (first_occs input)"
  have "pget payments = (\<lambda>k. filter (\<lambda>g. g_PeriodID g = k) ?mine)"
    using pay periodPayments_loop_exact[of net "set (map p_ID periods)" donorID "[]" "first_occs input"]
    by (simp only: periodPayments_def Let_def pget_Nil append.simps map_sum.simps split: if_splits) simp_all
  then have "pget payments (p_ID p) = filter (\<lambda>g. g_PeriodID g = p_ID p) ?mine" by (rule fun_cong)
  moreover obtain g where "g \<in> set (pget payments (p_ID p))"
    using paid unfolding paid_at_def by (cases "pget payments (p_ID p)") auto
  ultimately have g: "g \<in> set input" "g_DonorID g = donorID" "g_Frequency g = ''MONTHLY''" "map_of net (g_ID g) \<noteq> None" "g_PeriodID g = p_ID p"
    by auto
  obtain g' where "g' \<in> set input" "g_ID g' = g_ID g" "g_PaidAt g' \<le> asOf" using NetGifts_paid_by[OF net g(4)] by auto
  then have "g_PaidAt g \<le> asOf" using inj g(1) by (metis inj_onD)
  with g show ?thesis unfolding periods_by_def by force
qed

lemma GivingStreak_bounded:
  assumes "GivingStreak input refunds inputPeriods donorID asOf 0 stops = Inr s"
  shows "s_Best s \<le> int (card (periods_by donorID input asOf))"
  using assms
proof (rule GivingStreak_cases)
  fix net payments periods elapsed
  assume net: "NetGifts (first_occs input) refunds asOf = Inr net" and periods: "donorPeriods inputPeriods donorID = Inr periods"
    and pay: "periodPayments (first_occs input) net periods donorID = Inr payments"
    and elapsed: "elapsed = filter (\<lambda>p. \<not> p_DueAt p > asOf) periods"
    and s: "s = (let r = countStreak elapsed payments net asOf (set stops); r = r\<lparr>s_Best := max 0 (s_Best r)\<rparr>
      in if elapsed \<noteq> [] \<and> p_EndsAt (last elapsed) \<le> asOf \<and> p_EndsAt (last elapsed) \<in> set stops
         then r\<lparr>s_Current := 0, s_AtRisk := False, s_GraceEndsAt := None, s_Since := None\<rparr> else r)"
  let ?r = "countStreak elapsed payments net asOf (set stops)"
  have inj: "inj_on g_ID (set input)"
    using assms by (auto simp: GivingStreak_def rbind_eq_Inr cleanGifts_eq split: if_splits)
  have "streak_reference payments net (set stops) asOf elapsed ?r"
    using donorPeriods_spaced(1)[OF periods]
    by (intro countStreak_reference) (auto simp: elapsed intro: sorted_wrt_filter)
  then obtain ys where ys: "sublist ys (filter (\<lambda>p. \<not> open_period payments asOf p) elapsed)"
    "is_run payments net (set stops) ys" "int (length ys) = s_Best ?r"
    by (auto simp: streak_reference_def Let_def longest_def run_part_def)
  have "distinct (map p_ID (filter (\<lambda>p. \<not> open_period payments asOf p) elapsed))"
    using donorPeriods_distinct[OF periods] by (auto simp: elapsed distinct_map intro: inj_on_subset)
  then have "distinct (map p_ID ys)" using ys(1) by (auto simp: sublist_def)
  then have "length ys = card (p_ID ` set ys)" by (metis distinct_card length_map set_map)
  also have "\<dots> \<le> card (periods_by donorID input asOf)"
    using ys(2) run_periods_paid[OF net pay _ inj]
    by (intro card_mono) (auto simp: periods_by_def is_run_def)
  finally have "s_Best ?r \<le> int (card (periods_by donorID input asOf))" using ys(3) by simp
  moreover have "s_Best s = max 0 (s_Best ?r)" unfolding s by (simp add: Let_def)
  ultimately show ?thesis by simp
qed

lemma GivingStreak_previous:
  "0 \<le> best \<Longrightarrow> GivingStreak gifts refunds periods donorID point best stops =
     map_sum id (\<lambda>s. s\<lparr>s_Best := max best (s_Best s)\<rparr>) (GivingStreak gifts refunds periods donorID point 0 stops)"
  by (auto simp: GivingStreak_def rbind_def Let_def empty_streak_def split: sum.splits)

lemma takeWhile_sorted:
  fixes f :: "'a \<Rightarrow> time"
  assumes "sorted (map f xs)"
  shows "takeWhile (\<lambda>x. \<not> f x > p) xs = filter (\<lambda>x. f x \<le> p) xs"
    and "dropWhile (\<lambda>x. \<not> f x > p) xs = filter (\<lambda>x. \<not> f x \<le> p) xs"
  using assms by (induction xs) (auto intro!: filter_False[symmetric] filter_True[symmetric])

text \<open>The refunds as the history had them at a moment, and the streak counted there on its own.\<close>

definition refunds_by :: "refund list \<Rightarrow> time \<Rightarrow> refund gomap" where
  "refunds_by history point =
     foldl (\<lambda>m r. AList.update (r_ID r) r m) [] (filter (\<lambda>r. r_UpdatedAt r \<le> point) (sort_key r_UpdatedAt history))"

definition replayed :: "string \<Rightarrow> history \<Rightarrow> refund list \<Rightarrow> time list \<Rightarrow> time \<Rightarrow> rec_error + streak" where
  "replayed donorID h history stops point =
     GivingStreak (h_Gifts h) (map snd (refunds_by history point)) (h_Periods h) donorID point 0 stops"

lemma foldl_recurring: "foldl (recurring_period donorID) paid gs =
   paid \<union> g_PeriodID ` {g \<in> set gs. g_DonorID g = donorID \<and> g_Frequency g = ''MONTHLY''}"
  by (induction gs arbitrary: paid) (auto simp: recurring_period_def)

lemma replay_loop_reference:
  assumes "sorted points" and "\<forall>p\<in>set points. replayed donorID h history stops p \<noteq> Inl ErrInvalid" and "0 \<le> best"
    and "sort_key r_UpdatedAt history = A @ R" and "\<forall>r\<in>set A. \<forall>p\<in>set points. r_UpdatedAt r \<le> p"
    and "latest = foldl (\<lambda>m r. AList.update (r_ID r) r m) [] A"
    and "sort_key g_PaidAt (h_Gifts h) = B @ S" and "\<forall>g\<in>set B. \<forall>p\<in>set points. g_PaidAt g \<le> p"
    and "paid = foldl (recurring_period donorID) {} B"
  shows "replay_loop donorID h stops points best latest paid R S =
    Inr (foldl (\<lambda>b p. case replayed donorID h history stops p of Inl _ \<Rightarrow> b | Inr v \<Rightarrow> max b (s_Best v)) best points)"
  using assms
proof (induction points arbitrary: best latest paid A B R S)
  case (Cons p points)
  let ?H = "sort_key r_UpdatedAt history" and ?G = "sort_key g_PaidAt (h_Gifts h)"
  let ?A = "A @ takeWhile (\<lambda>r. \<not> r_UpdatedAt r > p) R" and ?B = "B @ takeWhile (\<lambda>g. \<not> g_PaidAt g > p) S"
  have sorted: "sorted (map r_UpdatedAt R)" "sorted (map g_PaidAt S)"
    using sorted_sort_key[of r_UpdatedAt history] sorted_sort_key[of g_PaidAt "h_Gifts h"] Cons.prems(4,7)
    by (simp_all add: sorted_append)
  have A: "?A = filter (\<lambda>r. r_UpdatedAt r \<le> p) ?H" and B: "?B = filter (\<lambda>g. g_PaidAt g \<le> p) ?G"
    using Cons.prems(4,5,7,8) by (simp_all add: takeWhile_sorted(1)[OF sorted(1)] takeWhile_sorted(1)[OF sorted(2)] filter_id_conv)
  have later: "\<forall>q\<in>set points. p \<le> q" using Cons.prems(1) by simp
  have latest: "foldl (\<lambda>m r. AList.update (r_ID r) r m) latest (takeWhile (\<lambda>r. \<not> r_UpdatedAt r > p) R) = refunds_by history p"
    unfolding refunds_by_def A[symmetric] Cons.prems(6) by simp
  have paid: "foldl (recurring_period donorID) paid (takeWhile (\<lambda>g. \<not> g_PaidAt g > p) S) = periods_by donorID (h_Gifts h) p"
  proof -
    have "set ?B = {g \<in> set (h_Gifts h). g_PaidAt g \<le> p}" unfolding B by auto
    moreover have "foldl (recurring_period donorID) paid (takeWhile (\<lambda>g. \<not> g_PaidAt g > p) S) = foldl (recurring_period donorID) {} ?B"
      by (simp add: Cons.prems(9))
    ultimately show ?thesis unfolding foldl_recurring periods_by_def by auto
  qed
  define best' where "best' = (case replayed donorID h history stops p of Inl _ \<Rightarrow> best | Inr v \<Rightarrow> max best (s_Best v))"
  have "0 \<le> best'" using Cons.prems(3) by (auto simp: best'_def split: sum.splits)
  have IH: "replay_loop donorID h stops points b (refunds_by history p) (periods_by donorID (h_Gifts h) p)
      (dropWhile (\<lambda>r. \<not> r_UpdatedAt r > p) R) (dropWhile (\<lambda>g. \<not> g_PaidAt g > p) S) =
    Inr (foldl (\<lambda>b p. case replayed donorID h history stops p of Inl _ \<Rightarrow> b | Inr v \<Rightarrow> max b (s_Best v)) b points)" if "0 \<le> b" for b
  proof (rule Cons.IH)
    show "sort_key r_UpdatedAt history = ?A @ dropWhile (\<lambda>r. \<not> r_UpdatedAt r > p) R" using Cons.prems(4) by simp
    show "sort_key g_PaidAt (h_Gifts h) = ?B @ dropWhile (\<lambda>g. \<not> g_PaidAt g > p) S" using Cons.prems(7) by simp
    show "\<forall>r\<in>set ?A. \<forall>q\<in>set points. r_UpdatedAt r \<le> q" unfolding A using later by auto
    show "\<forall>g\<in>set ?B. \<forall>q\<in>set points. g_PaidAt g \<le> q" unfolding B using later by auto
    show "refunds_by history p = foldl (\<lambda>m r. AList.update (r_ID r) r m) [] ?A" unfolding refunds_by_def A ..
    show "periods_by donorID (h_Gifts h) p = foldl (recurring_period donorID) {} ?B"
      using paid Cons.prems(9) by simp
  qed (use Cons.prems(1,2) that in simp_all)
  have "replay_loop donorID h stops (p # points) best latest paid R S =
    replay_loop donorID h stops points best' (refunds_by history p) (periods_by donorID (h_Gifts h) p)
      (dropWhile (\<lambda>r. \<not> r_UpdatedAt r > p) R) (dropWhile (\<lambda>g. \<not> g_PaidAt g > p) S)"
  proof (cases "replayed donorID h history stops p")
    case (Inl e)
    with Cons.prems(2) have "e = ErrIncomplete" by (cases e) auto
    then show ?thesis using Inl GivingStreak_previous[OF Cons.prems(3)]
      by (simp add: Let_def latest paid best'_def replayed_def)
  next
    case (Inr v)
    have "s_Best v \<le> int (card (periods_by donorID (h_Gifts h) p))"
      using GivingStreak_bounded Inr unfolding replayed_def by blast
    then show ?thesis using Inr GivingStreak_previous[OF Cons.prems(3)]
      by (auto simp: Let_def latest paid best'_def replayed_def max_def)
  qed
  then show ?case using IH[OF \<open>0 \<le> best'\<close>] by (simp add: best'_def)
qed simp

lemma Max_insert_max: "finite S \<Longrightarrow> Max (insert (max a b) S) = Max (insert a (insert b S))" for a b :: int
  by (cases "S = {}") (simp_all add: max.assoc)

lemma foldl_max:
  fixes f :: "'a \<Rightarrow> rec_error + streak"
  shows "foldl (\<lambda>b p. case f p of Inl _ \<Rightarrow> b | Inr v \<Rightarrow> max b (s_Best v)) best ps =
    Max (insert best {s_Best v |v p. p \<in> set ps \<and> f p = Inr v})"
proof (induction ps arbitrary: best)
  case (Cons p ps)
  have fin: "finite {s_Best v |v p. p \<in> set qs \<and> f p = Inr v}" for qs
    by (rule finite_subset[of _ "(\<lambda>p. s_Best (projr (f p))) ` set qs"]) force+
  show ?case
  proof (cases "f p")
    case (Inl e)
    then have "{s_Best v |v q. q \<in> set (p # ps) \<and> f q = Inr v} = {s_Best v |v q. q \<in> set ps \<and> f q = Inr v}" by auto
    with Inl Cons.IH show ?thesis by simp
  next
    case (Inr v)
    then have "{s_Best v |v q. q \<in> set (p # ps) \<and> f q = Inr v} = insert (s_Best v) {s_Best v |v q. q \<in> set ps \<and> f q = Inr v}" by auto
    with Inr Cons.IH[of "max best (s_Best v)"] Max_insert_max[OF fin[of ps]] show ?thesis by simp
  qed
qed simp

text \<open>
  C29. Replaying the best streak skips every moment whose paid periods cannot beat the best so far,
  and loses nothing by it: the result is the largest of the recorded best and the streaks
  counted at every moment a gift was paid or a refund changed, with the refunds as they
  stood then. Moments with incomplete facts are passed over.
\<close>

theorem replayBest_reference:
  assumes "0 \<le> previous"
    and "\<And>p. p \<in> set (replay_points h history now) \<Longrightarrow> replayed donorID h history stops p \<noteq> Inl ErrInvalid"
  shows "replayBest donorID h history now previous stops =
    Inr (Max (insert previous {s_Best v |v p. p \<in> set (replay_points h history now) \<and>
                                               replayed donorID h history stops p = Inr v}))"
  unfolding replayBest_def foldl_max[symmetric]
  by (rule replay_loop_reference[where A = "[]" and B = "[]"])
     (use assms in \<open>simp_all add: replay_points_def\<close>)

definition sample_history :: history where
  "sample_history = \<lparr>h_Gifts = [sample_gift ''g1'' ''d1'' 5 (of_unix 1000) ''p1'', sample_gift ''g2'' ''d1'' 5 (of_unix 2592100) ''p2''],
     h_Refunds = [sample_refund ''r2'' ''g2'' 5 (of_unix 2592200)],
     h_Periods = [sample_period ''p2'' ''d1'' (of_unix 2592000), sample_period ''p1'' ''d1'' (of_unix 0)]\<rparr>"

theorem replayBest_reference_witness:
  "\<exists>B. replayBest ''d1'' sample_history (h_Refunds sample_history) (of_unix 2592300) 0 [] = Inr (Max (insert 0 B)) \<and>
     replayBest ''d1'' sample_history (h_Refunds sample_history) (of_unix 2592300) 0 [] = Inr 2"
proof -
  have "replay_points sample_history (h_Refunds sample_history) (of_unix 2592300) = [of_unix 1000, of_unix 2592100, of_unix 2592200]"
    by code_simp
  moreover have "map (replayed ''d1'' sample_history (h_Refunds sample_history) []) [of_unix 1000, of_unix 2592100, of_unix 2592200]
    = map Inr [\<lparr>s_Current = 1, s_Best = 1, s_AtRisk = False, s_GraceEndsAt = None, s_Since = Some (of_unix 0)\<rparr>,
       \<lparr>s_Current = 2, s_Best = 2, s_AtRisk = False, s_GraceEndsAt = None, s_Since = Some (of_unix 0)\<rparr>,
       \<lparr>s_Current = 0, s_Best = 1, s_AtRisk = False, s_GraceEndsAt = None, s_Since = None\<rparr>]"
    by code_simp
  ultimately have "replayed ''d1'' sample_history (h_Refunds sample_history) [] p \<noteq> Inl ErrInvalid"
    if "p \<in> set (replay_points sample_history (h_Refunds sample_history) (of_unix 2592300))" for p
    using that by auto
  moreover have "replayBest ''d1'' sample_history (h_Refunds sample_history) (of_unix 2592300) 0 [] = Inr 2" by code_simp
  ultimately show ?thesis
    using replayBest_reference[of 0 sample_history "h_Refunds sample_history" "of_unix 2592300" "''d1''" "[]"] by fastforce
qed

section \<open>Nothing changes before the next refresh\<close>

text \<open>No boundary of a list of facts lies after \<open>now\<close> and up to \<open>later\<close>.\<close>

definition quiet :: "time \<Rightarrow> time \<Rightarrow> time set \<Rightarrow> bool" where
  "quiet now later B \<longleftrightarrow> now \<le> later \<and> (\<forall>b\<in>B. b \<le> later \<longrightarrow> b \<le> now)"

lemma quiet_less: "quiet now later B \<Longrightarrow> b \<in> B \<Longrightarrow> now < b \<longleftrightarrow> later < b"
  by (auto simp: quiet_def not_le[symmetric])

lemma NetGifts_paid_stable:
  "quiet now later (g_PaidAt ` set gifts) \<Longrightarrow> NetGifts_paid later net gifts = NetGifts_paid now net gifts"
  by (induction gifts arbitrary: net) (auto simp: quiet_def)

lemma NetGifts_refunds_stable:
  "now \<le> later \<Longrightarrow> \<forall>r\<in>set refunds. r_UpdatedAt r \<le> now \<Longrightarrow>
     NetGifts_refunds byID later seen net refunds = NetGifts_refunds byID now seen net refunds"
  by (induction refunds arbitrary: seen net) (auto simp: Let_def split: option.splits)

lemma NetGifts_stable:
  assumes "0 < now" and "quiet now later (g_PaidAt ` set gifts)" and "\<forall>r\<in>set refunds. r_UpdatedAt r \<le> now"
  shows "NetGifts gifts refunds later = NetGifts gifts refunds now"
proof -
  have "now \<le> later" using assms(2) by (simp add: quiet_def)
  moreover have "NetGifts_paid later [] (first_occs gifts) = NetGifts_paid now [] (first_occs gifts)"
    using assms(2) by (intro NetGifts_paid_stable) simp
  ultimately show ?thesis using assms
    by (auto simp: NetGifts_def IsZero_def cleanGifts_eq NetGifts_refunds_stable)
qed

lemma step_same:
  "open_period payments now q = open_period payments later q \<Longrightarrow>
     countStreak_step payments net later stopped st q = countStreak_step payments net now stopped st q"
  by (auto simp: countStreak_step_def open_period_def Let_def split: prod.splits)

lemma foldl_same:
  "(\<And>q. q \<in> set ps \<Longrightarrow> open_period payments now q = open_period payments later q) \<Longrightarrow>
     foldl (countStreak_step payments net later stopped) st ps = foldl (countStreak_step payments net now stopped) st ps"
  by (rule foldl_cong) (auto intro: step_same)

lemma countStreak_stable:
  assumes spaced: "sorted_wrt (\<lambda>p q. p_DueAt p + 27 * 24 * Hour \<le> p_DueAt q) elapsed"
    and due: "\<forall>p\<in>set elapsed. p_DueAt p \<le> now" and "now \<le> later"
    and grace: "\<And>d. s_GraceEndsAt (countStreak elapsed payments net now stopped) = Some d \<Longrightarrow> later < d"
  shows "countStreak elapsed payments net later stopped = countStreak elapsed payments net now stopped"
proof -
  let ?closed = "filter (\<lambda>p. \<not> open_period payments now p) elapsed"
  have closed: "open_period payments now p = open_period payments later p" if "p \<in> set ?closed" for p
    using that \<open>now \<le> later\<close> by (auto simp: open_period_def)
  from closed_then_open[OF spaced due, of payments] show ?thesis
  proof (elim disjE exE conjE)
    assume "elapsed = ?closed"
    then have "set elapsed = set ?closed" by (rule arg_cong)
    then have "open_period payments now p = open_period payments later p" if "p \<in> set elapsed" for p
      using closed that by blast
    then show ?thesis unfolding countStreak_def by (intro arg_cong[of _ _ fst] foldl_same)
  next
    fix q assume eq: "elapsed = ?closed @ [q]" and q: "open_period payments now q"
    obtain res l lp where st: "foldl (countStreak_step payments net now stopped) (empty_streak, 0, 0) ?closed = (res, l, lp)"
      by (metis prod_cases3)
    have counted: "counted payments net stopped ?closed (res, l, lp)"
      using counted_fold[of ?closed payments now net stopped] by (simp add: st)
    have run: "countStreak elapsed payments net t stopped = fst (countStreak_step payments net t stopped (res, l, lp) q)"
      if "t \<in> {now, later}" for t
      using that foldl_same[of ?closed payments now later net stopped "(empty_streak, 0, 0)", OF closed] st
      by (subst eq) (auto simp: countStreak_def)
    define s where "s = countStreak elapsed payments net now stopped"
    note open_s = countStreak_step_open[OF counted q, of s, OF trans[OF s_def run[of now]], simplified]
    show ?thesis
    proof (cases "later < p_DueAt q + Grace")
      case True
      then have "open_period payments now q = open_period payments later q" using q by (simp add: open_period_def)
      then show ?thesis using run step_same[of payments now q later net stopped] by simp
    next
      case False
      then have "s_Current s \<le> 0" using open_s(4) grace s_def by (cases "0 < s_Current s") auto
      moreover have "s_Current s = 0 \<or> 0 < s_Current s"
        using open_s(2) longest_bounds(1)[of payments net stopped ?closed "s_Current res"] counted by (auto simp: counted_def)
      ultimately have "s_Current s = 0" by simp
      then have "s = fst (countStreak_step payments net later stopped (res, l, lp) q)"
        using False open_s(3) q unfolding s_def run[of now, simplified]
        by (auto simp: countStreak_step_def Let_def open_period_def IsZero_def split: if_splits)
      then show ?thesis using run[of later] s_def by simp
    qed
  qed
qed

definition period_boundaries :: "period list \<Rightarrow> time set" where
  "period_boundaries periods = (\<Union>p\<in>set periods. {p_DueAt p, p_EndsAt p, p_EndsAt p + Grace})"

text \<open>A period whose renewal is due is past its own grace.\<close>

lemma renewal_past_grace:
  assumes "donorPeriods input donorID = Inr periods" and "elapsed = filter (\<lambda>p. \<not> p_DueAt p > now) periods"
    and "elapsed \<noteq> []" and "p_EndsAt (last elapsed) \<le> now"
  shows "s_GraceEndsAt (countStreak elapsed payments net now stopped) = None"
proof -
  have "last elapsed \<in> set periods" using assms(2,3) last_in_set[of elapsed] by auto
  then have "period_valid (last elapsed)" using donorPeriods_spaced(2)[OF assms(1)] by blast
  then have "\<not> now < p_DueAt (last elapsed) + Grace"
    using period_valid_length assms(4) by (force simp: Grace_def duration_defs)
  then have "\<not> open_period payments now (last elapsed)" by (simp add: open_period_def)
  moreover have "streak_reference payments net stopped now elapsed (countStreak elapsed payments net now stopped)"
    using donorPeriods_spaced(1)[OF assms(1)] assms(2) by (intro countStreak_reference) (auto intro: sorted_wrt_filter)
  ultimately show ?thesis by (auto simp: streak_reference_def Let_def)
qed

lemma GivingStreak_stable:
  assumes "0 < now" and gifts: "quiet now later (g_PaidAt ` set input)" and refunds: "\<forall>r\<in>set refunds. r_UpdatedAt r \<le> now"
    and periods: "quiet now later (period_boundaries inputPeriods)"
    and grace: "\<And>s d. GivingStreak input refunds inputPeriods donorID now best stops = Inr s \<Longrightarrow> s_GraceEndsAt s = Some d \<Longrightarrow> later < d"
  shows "GivingStreak input refunds inputPeriods donorID later best stops = GivingStreak input refunds inputPeriods donorID now best stops"
proof (cases "cleanGifts input")
  case (Inr gs)
  then have gs: "set gs = set input" by (auto simp: cleanGifts_eq split: if_splits)
  have net: "NetGifts gs refunds later = NetGifts gs refunds now"
    using NetGifts_stable[OF assms(1) _ refunds] gifts gs by simp
  show ?thesis
  proof (cases "donorPeriods inputPeriods donorID")
    case (Inr ps)
    have in_input: "set ps \<subseteq> set inputPeriods" using donorPeriods_spaced(2)[OF Inr] by blast
    have less: "now < p_DueAt p \<longleftrightarrow> later < p_DueAt p" "now < p_EndsAt p \<longleftrightarrow> later < p_EndsAt p"
      "now < p_EndsAt p + Grace \<longleftrightarrow> later < p_EndsAt p + Grace" if "p \<in> set ps" for p
      using that in_input by (auto simp: period_boundaries_def intro!: quiet_less[OF periods] bexI[of _ p])
    define e where "e = filter (\<lambda>p. \<not> p_DueAt p > now) ps"
    have e: "filter (\<lambda>p. \<not> p_DueAt p > later) ps = e" unfolding e_def using less(1) by (intro filter_cong) auto
    have last_e: "last e \<in> set ps" if "e \<noteq> []" using that last_in_set[of e] by (auto simp: e_def)
    have count: "countStreak e payments net' later stopped = countStreak e payments net' now stopped"
      if "\<And>d. s_GraceEndsAt (countStreak e payments net' now stopped) = Some d \<Longrightarrow> later < d" for payments net' stopped
      using that donorPeriods_spaced(1)[OF Inr] gifts
      by (intro countStreak_stable) (auto simp: e_def quiet_def intro: sorted_wrt_filter)
    show ?thesis
    proof (cases "\<exists>n pay st. NetGifts gs refunds now = Inr n \<and> periodPayments gs n ps donorID = Inr pay \<and>
        renewalBoundaries stops = Inr st \<and> 0 \<le> best \<and> e \<noteq> []")
      case True
      then obtain n pay st where ok: "NetGifts gs refunds now = Inr n" "periodPayments gs n ps donorID = Inr pay"
        "renewalBoundaries stops = Inr st" "\<not> best < 0" "e \<noteq> []" by auto
      let ?last = "p_EndsAt (last e)" and ?count = "countStreak e pay n"
      have run: "GivingStreak input refunds inputPeriods donorID t best stops =
        (if \<not> ?last > t \<and> ?last \<notin> st \<and> \<not> t < ?last + Grace then Inl ErrIncomplete
         else let r = (?count t st)\<lparr>s_Best := max best (s_Best (?count t st))\<rparr>
              in Inr (if \<not> ?last > t \<and> ?last \<in> st
                      then r\<lparr>s_Current := 0, s_AtRisk := False, s_GraceEndsAt := None, s_Since := None\<rparr> else r))"
        if "t \<in> {now, later}" for t
        using that ok net e e_def \<open>cleanGifts input = Inr gs\<close> Inr by (auto simp: GivingStreak_def Let_def)
      note same = less(2,3)[OF last_e[OF ok(5)]]
      show ?thesis
      proof (cases "\<not> ?last > now")
        case True
        then have "?count later st = ?count now st" using renewal_past_grace[OF Inr e_def ok(5)] by (intro count) simp
        then show ?thesis using run[of now] run[of later] same by simp
      next
        case False
        then have "?count later st = ?count now st"
          by (intro count) (rule grace[of "(?count now st)\<lparr>s_Best := max best (s_Best (?count now st))\<rparr>"],
            simp_all add: run Let_def)
        then show ?thesis using run[of now] run[of later] same by simp
      qed
    next
      case False
      then show ?thesis
        unfolding GivingStreak_def \<open>cleanGifts input = Inr gs\<close> Inr net rbind_simps Let_def e e_def[symmetric]
        by (auto simp: rbind_def not_less split: sum.splits)
    qed
  qed (simp add: GivingStreak_def \<open>cleanGifts input = Inr gs\<close> net rbind_def split: sum.splits)
qed (simp add: GivingStreak_def)

lemma foldl_next:
  "foldl (\<lambda>next b. if b > now \<and> b < next then b else next) n bs \<le> n \<and>
   (\<forall>b\<in>set bs. now < b \<longrightarrow> foldl (\<lambda>next b. if b > now \<and> b < next then b else next) n bs \<le> b)" for n :: time
proof (induction bs arbitrary: n)
  case (Cons b bs)
  show ?case using Cons.IH[of n] Cons.IH[of b] by auto
qed simp

lemma nextRefresh_quiet:
  assumes "nextRefresh newYork out h refundBoundaries stops now zone milestones = Some t" and "now \<le> later" and "later < t"
  shows "quiet now later (set refundBoundaries \<union> g_PaidAt ` set (h_Gifts h) \<union> period_boundaries (h_Periods h) \<union> set_option (mp_grace out))"
proof -
  obtain ms where t: "t = foldl (\<lambda>next b. if b > now \<and> b < next then b else next) (mp_next out)
      (refresh_boundaries newYork out h refundBoundaries stops now ms)"
    using assms(1) by (auto simp: nextRefresh_def)
  have "b \<le> now" if "b \<in> set (refresh_boundaries newYork out h refundBoundaries stops now ms)" "b \<le> later" for b
    using foldl_next[where n = "mp_next out" and now = now and bs = "refresh_boundaries newYork out h refundBoundaries stops now ms"]
      that assms(3) unfolding t[symmetric] by (meson not_le order_trans)
  then show ?thesis
    using assms(2) by (auto simp: quiet_def refresh_boundaries_def period_boundaries_def split: option.splits)
qed

lemma quiet_subset: "quiet now later B \<Longrightarrow> A \<subseteq> B \<Longrightarrow> quiet now later A"
  by (auto simp: quiet_def)

lemma refundsAsOf_stable:
  assumes "quiet now later (set (snd (refundsAsOf current observations now)))"
  shows "refundsAsOf current observations later = refundsAsOf current observations now"
proof -
  have same: "r_UpdatedAt r > later \<longleftrightarrow> r_UpdatedAt r > now" if "r \<in> set current" for r
    using assms that by (force simp: quiet_def refundsAsOf_def Let_def not_le[symmetric])
  show ?thesis unfolding refundsAsOf_def Let_def
    using same by (intro prod_eqI) (simp_all cong: map_cong filter_cong)
qed

lemma latest_observations_in: "map_of (latest_observations os) k = Some o' \<Longrightarrow> o' \<in> set os"
proof -
  have "map_of (foldl (\<lambda>m o'. AList.update (o_StripeRefundID o') o' m) m os) k = Some o' \<Longrightarrow> o' \<in> set os \<or> map_of m k = Some o'" for m
  proof (induction os arbitrary: m)
    case (Cons x os)
    then show ?case using Cons.IH[of "AList.update (o_StripeRefundID x) x m"] by (auto simp: update_conv' split: if_splits)
  qed simp
  then show "map_of (latest_observations os) k = Some o' \<Longrightarrow> o' \<in> set os" by (fastforce simp: latest_observations_def)
qed

lemma refundsAsOf_past:
  assumes "\<forall>o'\<in>set observations. o_ObservedAt o' \<le> now" and "r \<in> set (fst (refundsAsOf current observations now))"
  shows "r_UpdatedAt r \<le> now"
  using assms latest_observations_in by (fastforce simp: refundsAsOf_def Let_def split: option.splits if_splits)

lemma Relationships_stable:
  assumes "0 < now" and "quiet now later (g_PaidAt ` set gifts)"
  shows "Relationships gifts later = Relationships gifts now"
proof -
  have loop: "Relationships_loop later result gs = Relationships_loop now result gs" if "quiet now later (g_PaidAt ` set gs)" for result gs
    using that by (induction gs arbitrary: result) (auto simp: quiet_def Let_def split: option.splits)
  have "Relationships_loop later [] (sort_key gift_order (first_occs gifts)) = Relationships_loop now [] (sort_key gift_order (first_occs gifts))"
    by (rule loop) (use assms(2) in simp)
  with assms show ?thesis by (auto simp: Relationships_def IsZero_def cleanGifts_eq quiet_def)
qed

text \<open>
  C28. Until its next refresh a projection is still right: if no fact arrives, the refunds in force,
  the net total, the conversion and the giving streak recomputed at any later moment before
  the refresh are those the projection was saved with. The streak may be counted on the gifts
  since a reset, as the code does, and the saved grace is that of the streak.
\<close>

theorem nextRefresh_stable:
  assumes "nextRefresh newYork out h boundaries stops now zone milestones = Some t"
    and "0 < now" and "now \<le> later" and "later < t"
    and "refundsAsOf (h_Refunds h) observations now = (refunds, boundaries)"
    and "\<forall>o'\<in>set observations. o_ObservedAt o' \<le> now"
    and "GivingStreak gifts (refundsForGifts refunds gifts) (h_Periods h) donorID now best stops = streak"
    and "set gifts \<subseteq> set (h_Gifts h)"
    and "mp_grace out = (case streak of Inl _ \<Rightarrow> None | Inr s \<Rightarrow> s_GraceEndsAt s)"
  shows "refundsAsOf (h_Refunds h) observations later = (refunds, boundaries) \<and>
    netMinor (h_Gifts h) refunds later = netMinor (h_Gifts h) refunds now \<and>
    Relationships (h_Gifts h) later = Relationships (h_Gifts h) now \<and>
    GivingStreak gifts (refundsForGifts refunds gifts) (h_Periods h) donorID later best stops = streak"
proof -
  note quiet = nextRefresh_quiet[OF assms(1,3,4)]
  have paid: "g_PaidAt ` set (h_Gifts h) \<subseteq> set boundaries \<union> g_PaidAt ` set (h_Gifts h) \<union>
    period_boundaries (h_Periods h) \<union> set_option (mp_grace out)" by blast
  have past: "\<forall>r\<in>set refunds. r_UpdatedAt r \<le> now" using refundsAsOf_past[OF assms(6), of _ "h_Refunds h"] assms(5) by auto
  have "refundsAsOf (h_Refunds h) observations later = (refunds, boundaries)"
    using refundsAsOf_stable[of now later "h_Refunds h" observations] quiet_subset[OF quiet] assms(5) by auto
  moreover have "netMinor (h_Gifts h) refunds later = netMinor (h_Gifts h) refunds now"
    unfolding netMinor_def NetGifts_stable[OF assms(2) quiet_subset[OF quiet] past, of "h_Gifts h", OF paid] ..
  moreover have "Relationships (h_Gifts h) later = Relationships (h_Gifts h) now"
    by (rule Relationships_stable[OF assms(2) quiet_subset[OF quiet paid]])
  moreover have "GivingStreak gifts (refundsForGifts refunds gifts) (h_Periods h) donorID later best stops = streak"
    unfolding assms(7)[symmetric]
  proof (rule GivingStreak_stable[OF assms(2)])
    show "quiet now later (g_PaidAt ` set gifts)" by (rule quiet_subset[OF quiet]) (use assms(8) in auto)
    show "quiet now later (period_boundaries (h_Periods h))" by (rule quiet_subset[OF quiet]) auto
    show "\<forall>r\<in>set (refundsForGifts refunds gifts). r_UpdatedAt r \<le> now" using past by (simp add: refundsForGifts_def)
    fix s d assume s: "GivingStreak gifts (refundsForGifts refunds gifts) (h_Periods h) donorID now best stops = Inr s" "s_GraceEndsAt s = Some d"
    then have "d \<in> set_option (mp_grace out)" "now < d"
      using assms(7,9) s GivingStreak_streak_ok[OF s(1)] by (auto simp: streak_ok_def)
    then show "later < d" using quiet_less[OF quiet, of d] by blast
  qed
  ultimately show ?thesis by simp
qed

definition sample_projection :: projection_row where
  "sample_projection = \<lparr>mp_id = ''m1'', mp_donor = ''d1'', mp_referrer = None, mp_kind = None, mp_first = None, mp_net = None,
     mp_founding = None, mp_best = 0, mp_current = None, mp_at_risk = False, mp_grace = None, mp_computed = of_unix 2592300,
     mp_next = of_unix 9000000, mp_rules = 12, mp_failures = 0, mp_error = None, mp_link_count = 0, mp_irl_count = 0,
     mp_link_minor = 0, mp_irl_minor = 0, mp_since = None, mp_monthly = 0, mp_active = False\<rparr>"

theorem nextRefresh_stable_witness:
  "GivingStreak (h_Gifts sample_history) (refundsForGifts (h_Refunds sample_history) (h_Gifts sample_history))
     (h_Periods sample_history) ''d1'' (of_unix 3000000) 0 [] =
   Inr \<lparr>s_Current = 0, s_Best = 1, s_AtRisk = False, s_GraceEndsAt = None, s_Since = None\<rparr>"
proof -
  have "nextRefresh UTC sample_projection sample_history [] [] (of_unix 2592300) UTC LadderMilestones = Some (of_unix 3196800)"
    and "refundsAsOf (h_Refunds sample_history) [] (of_unix 2592300) = (h_Refunds sample_history, [])"
    and "GivingStreak (h_Gifts sample_history) (refundsForGifts (h_Refunds sample_history) (h_Gifts sample_history))
     (h_Periods sample_history) ''d1'' (of_unix 2592300) 0 [] =
      Inr \<lparr>s_Current = 0, s_Best = 1, s_AtRisk = False, s_GraceEndsAt = None, s_Since = None\<rparr>"
    and "mp_grace sample_projection = None" by code_simp+
  then show ?thesis
    using nextRefresh_stable[of UTC sample_projection sample_history "[]" "[]" "of_unix 2592300" UTC LadderMilestones "of_unix 3196800"
        "of_unix 3000000" "[]" "h_Refunds sample_history" "h_Gifts sample_history" "''d1''" 0]
    by (simp add: of_unix_def Second_def unix_epoch_def)
qed

end
