(* ===== verification/Ledger_Queries.thy ===== *)
theory Ledger_Queries
  imports Store_Tx
begin

text \<open>
  The statements of the payment ledger (db/worker.sql and the files beside it, compiled to
  internal/store/queries), each a function on the tables with the unique keys and the checks
  of the schema: a read gives \<open>ErrNoRows\<close> for a missing row, a write gives \<open>ErrConstraint\<close>
  when the database refuses it. Where a statement orders its rows, a tie keeps the order of
  the table.
\<close>

definition first_by :: "('r \<Rightarrow> 'k::linorder) \<Rightarrow> ('r \<Rightarrow> bool) \<Rightarrow> 'r list \<Rightarrow> store_error + 'r" where
  "first_by key P rows = (case sort_key key (filter P rows) of [] \<Rightarrow> Inl ErrNoRows | r # _ \<Rightarrow> Inr r)"

section \<open>Donors, checkouts and attempts\<close>

definition q_LockDonor :: "string \<Rightarrow> db \<Rightarrow> store_error + donor_row" where
  "q_LockDonor ident d = one_row (\<lambda>r. don_id r = ident) (db_donors d)"

definition q_DonorByEmail :: "string \<Rightarrow> db \<Rightarrow> store_error + donor_row" where
  "q_DonorByEmail email d = one_row (\<lambda>r. don_email r = email) (db_donors d)"

definition q_CheckoutDraft :: "string \<Rightarrow> db \<Rightarrow> store_error + checkout_row" where
  "q_CheckoutDraft ident d = one_row (\<lambda>r. ck_id r = ident) (db_checkouts d)"

definition q_AttemptForCheckout :: "string \<Rightarrow> db \<Rightarrow> store_error + attempt_row" where
  "q_AttemptForCheckout checkout d = one_row (\<lambda>r. at_checkout r = checkout) (db_attempts d)"

definition q_AttemptSnapshotForCheckout :: "string \<Rightarrow> db \<Rightarrow> store_error + attempt_row" where
  "q_AttemptSnapshotForCheckout checkout d = one_row (\<lambda>r. at_checkout r = checkout) (db_attempts d)"

definition q_AttemptSnapshotByID :: "string \<Rightarrow> db \<Rightarrow> store_error + attempt_row" where
  "q_AttemptSnapshotByID ident d = one_row (\<lambda>r. at_id r = ident) (db_attempts d)"

definition q_BindSubscription :: "string \<Rightarrow> string \<Rightarrow> db \<Rightarrow> store_error + db" where
  "q_BindSubscription ident sub d =
     (if list_ex (\<lambda>r. at_id r = ident) (db_attempts d) \<and>
         list_ex (\<lambda>r. at_id r \<noteq> ident \<and> at_subscription r = Some sub) (db_attempts d)
      then Inl ErrConstraint
      else Inr (d\<lparr>db_attempts := update_rows (\<lambda>r. at_id r = ident) (\<lambda>r. r\<lparr>at_subscription := Some sub\<rparr>) (db_attempts d)\<rparr>))"

definition q_RecordCheckoutSession :: "string \<Rightarrow> string \<Rightarrow> string \<Rightarrow> db \<Rightarrow> store_error + db" where
  "q_RecordCheckoutSession ident session status d =
     (if list_ex (\<lambda>r. at_id r = ident) (db_attempts d) \<and>
         list_ex (\<lambda>r. at_id r \<noteq> ident \<and> at_session r = Some session) (db_attempts d)
      then Inl ErrConstraint
      else Inr (d\<lparr>db_attempts := update_rows (\<lambda>r. at_id r = ident)
        (\<lambda>r. r\<lparr>at_session := Some session, at_status := status\<rparr>) (db_attempts d)\<rparr>))"

definition q_CancelAttempt :: "string \<Rightarrow> db \<Rightarrow> store_error + db" where
  "q_CancelAttempt ident d =
     Inr (d\<lparr>db_attempts := update_rows (\<lambda>r. at_id r = ident) (\<lambda>r. r\<lparr>at_status := ''CANCELLED''\<rparr>) (db_attempts d)\<rparr>)"

definition q_ReleaseReservation :: "string \<Rightarrow> db \<Rightarrow> store_error + db" where
  "q_ReleaseReservation attempt d =
     Inr (d\<lparr>db_reservations := filter (\<lambda>r. rs_attempt r \<noteq> attempt) (db_reservations d)\<rparr>)"

section \<open>Billing periods\<close>

definition q_BillingPeriodByInvoice :: "string \<Rightarrow> db \<Rightarrow> store_error + period_row" where
  "q_BillingPeriodByInvoice invoice d = one_row (\<lambda>r. pr_invoice r = invoice) (db_periods d)"

text \<open>A new period is stored as \<open>FAILED\<close> until it is marked paid.\<close>

definition q_InsertBillingPeriod :: "period_row \<Rightarrow> db \<Rightarrow> store_error + db" where
  "q_InsertBillingPeriod r d =
     rbind (insert_row (pr_due r < pr_ends r \<and> pr_status r = ''FAILED'') (\<lambda>x. pr_invoice x = pr_invoice r)
        (\<lambda>x. pr_id x = pr_id r) r (db_periods d))
       (\<lambda>rows. Inr (d\<lparr>db_periods := rows\<rparr>))"

definition q_MarkPeriodPaid :: "string \<Rightarrow> db \<Rightarrow> store_error + db" where
  "q_MarkPeriodPaid ident d =
     Inr (d\<lparr>db_periods := update_rows (\<lambda>r. pr_id r = ident) (\<lambda>r. r\<lparr>pr_status := ''PAID''\<rparr>) (db_periods d)\<rparr>)"

definition q_InsertBillingObservation :: "billing_row \<Rightarrow> db \<Rightarrow> store_error + db" where
  "q_InsertBillingObservation r d =
     rbind (insert_row
        (bo_status r \<in> {''FAILED'', ''PAID''} \<and> bo_amount r > 0 \<and> bo_currency r = ''USD'' \<and>
           bo_reason r \<in> {''subscription_create'', ''subscription_cycle''})
        (\<lambda>x. bo_event x = bo_event r) (\<lambda>x. bo_id x = bo_id r) r (db_billing d))
       (\<lambda>rows. Inr (d\<lparr>db_billing := rows\<rparr>))"

section \<open>Gifts\<close>

definition q_HasGift :: "string \<Rightarrow> db \<Rightarrow> store_error + bool" where
  "q_HasGift donor d = Inr (list_ex (\<lambda>r. gr_donor r = donor) (db_gifts d))"

definition gift_row_checks :: "gift_row \<Rightarrow> bool" where
  "gift_row_checks r \<longleftrightarrow> gr_amount r > 0 \<and> gr_currency r = ''USD'' \<and>
     (case gr_referrer r of
        None \<Rightarrow> gr_kind r = None
      | Some donor \<Rightarrow> donor \<noteq> gr_donor r \<and> (gr_kind r = Some ''LINK'' \<or> gr_kind r = Some ''IRL''))"

definition q_InsertGift :: "gift_row \<Rightarrow> db \<Rightarrow> store_error + db" where
  "q_InsertGift r d =
     rbind (insert_row (gift_row_checks r) (\<lambda>x. gr_object x = gr_object r)
        (\<lambda>x. gr_id x = gr_id r \<or> (gr_payment r \<noteq> None \<and> gr_payment x = gr_payment r)) r (db_gifts d))
       (\<lambda>rows. Inr (d\<lparr>db_gifts := rows\<rparr>))"

definition q_GiftByStripeObject :: "string \<Rightarrow> db \<Rightarrow> store_error + gift_row" where
  "q_GiftByStripeObject object d = one_row (\<lambda>r. gr_object r = object) (db_gifts d)"

definition q_EnrichGift :: "string \<Rightarrow> string option \<Rightarrow> string option \<Rightarrow> db \<Rightarrow> store_error + db" where
  "q_EnrichGift ident payment period d =
     (if list_ex (\<lambda>r. gr_id r = ident) (db_gifts d) \<and> payment \<noteq> None \<and>
         list_ex (\<lambda>r. gr_id r \<noteq> ident \<and> gr_payment r = payment) (db_gifts d)
      then Inl ErrConstraint
      else Inr (d\<lparr>db_gifts := update_rows (\<lambda>r. gr_id r = ident)
        (\<lambda>r. r\<lparr>gr_payment := payment, gr_period := period\<rparr>) (db_gifts d)\<rparr>))"

definition q_GiftByPayment :: "string option \<Rightarrow> db \<Rightarrow> store_error + gift_row" where
  "q_GiftByPayment payment d = one_row (\<lambda>r. payment \<noteq> None \<and> gr_payment r = payment) (db_gifts d)"

definition q_GiftSnapshotByPayment :: "string option \<Rightarrow> db \<Rightarrow> store_error + gift_row" where
  "q_GiftSnapshotByPayment payment d = one_row (\<lambda>r. payment \<noteq> None \<and> gr_payment r = payment) (db_gifts d)"

section \<open>Refunds\<close>

definition q_RefundByStripeID :: "string \<Rightarrow> db \<Rightarrow> store_error + refund_row" where
  "q_RefundByStripeID stripe d = one_row (\<lambda>r. rr_stripe r = stripe) (db_refunds d)"

definition refund_row_statuses :: "string set" where
  "refund_row_statuses = {''PENDING'', ''REQUIRES_ACTION'', ''SUCCEEDED'', ''FAILED'', ''CANCELED''}"

definition q_InsertRefund :: "refund_row \<Rightarrow> db \<Rightarrow> store_error + db" where
  "q_InsertRefund r d =
     rbind (insert_row (rr_amount r > 0 \<and> rr_currency r = ''USD'' \<and> rr_status r \<in> refund_row_statuses)
        (\<lambda>x. rr_stripe x = rr_stripe r) (\<lambda>x. rr_id x = rr_id r) r (db_refunds d))
       (\<lambda>rows. Inr (d\<lparr>db_refunds := rows\<rparr>))"

definition q_UpdateRefund :: "string \<Rightarrow> string \<Rightarrow> time \<Rightarrow> db \<Rightarrow> store_error + db" where
  "q_UpdateRefund ident status observed d =
     (if list_ex (\<lambda>r. rr_id r = ident) (db_refunds d) \<and> status \<notin> refund_row_statuses then Inl ErrConstraint
      else Inr (d\<lparr>db_refunds := update_rows (\<lambda>r. rr_id r = ident)
        (\<lambda>r. r\<lparr>rr_status := status, rr_observed := observed\<rparr>) (db_refunds d)\<rparr>))"

definition q_SucceededRefundAmounts :: "string \<Rightarrow> db \<Rightarrow> store_error + int list" where
  "q_SucceededRefundAmounts gift d =
     Inr (map rr_amount (filter (\<lambda>r. rr_gift r = gift \<and> rr_status r = ''SUCCEEDED'') (db_refunds d)))"

definition q_InsertRefundObservation :: "refund_obs_row \<Rightarrow> db \<Rightarrow> store_error + db" where
  "q_InsertRefundObservation r d =
     rbind (insert_row ((ro_event r = None) \<noteq> (ro_action r = None)) (\<lambda>x. False)
        (\<lambda>x. ro_id x = ro_id r \<or> (ro_event r \<noteq> None \<and> ro_event x = ro_event r)) r (db_refund_obs d))
       (\<lambda>rows. Inr (d\<lparr>db_refund_obs := rows\<rparr>))"

definition q_GiftRefundObservations :: "string \<Rightarrow> db \<Rightarrow> store_error + int" where
  "q_GiftRefundObservations gift d =
     Inr (int (length [(o1, r). o1 \<leftarrow> db_refund_obs d, r \<leftarrow> db_refunds d, rr_id r = ro_refund o1, rr_gift r = gift]))"

section \<open>Amount changes and subscriptions\<close>

definition q_LatestAmountChange :: "string \<Rightarrow> db \<Rightarrow> store_error + change_row" where
  "q_LatestAmountChange checkout d =
     first_by (\<lambda>r. - ac_created r) (\<lambda>r. ac_checkout r = checkout) (db_changes d)"

definition q_PendingAmountChange :: "string \<Rightarrow> db \<Rightarrow> store_error + bool" where
  "q_PendingAmountChange checkout d =
     rbind (first_by (\<lambda>r. - ac_created r) (\<lambda>r. ac_checkout r = checkout) (db_changes d))
       (\<lambda>r. Inr (ac_confirmed r = None))"

definition q_InvoiceAmountChange :: "string \<Rightarrow> time \<Rightarrow> db \<Rightarrow> store_error + int" where
  "q_InvoiceAmountChange checkout effective d =
     rbind (first_by (\<lambda>r. (- ac_effective r, - ac_created r))
        (\<lambda>r. ac_checkout r = checkout \<and> ac_confirmed r \<noteq> None \<and> ac_effective r \<le> effective) (db_changes d))
       (\<lambda>r. Inr (ac_amount r))"

definition q_ConfirmAmountChange :: "string \<Rightarrow> time \<Rightarrow> db \<Rightarrow> store_error + db" where
  "q_ConfirmAmountChange ident confirmed d =
     Inr (d\<lparr>db_changes := update_rows (\<lambda>r. ac_id r = ident)
       (\<lambda>r. r\<lparr>ac_confirmed := (case ac_confirmed r of Some t \<Rightarrow> Some t | None \<Rightarrow> Some confirmed)\<rparr>) (db_changes d)\<rparr>)"

definition q_SubscriptionObservedAt :: "string \<Rightarrow> db \<Rightarrow> store_error + time" where
  "q_SubscriptionObservedAt attempt d =
     rbind (one_row (\<lambda>r. sb_attempt r = attempt) (db_subscriptions d)) (\<lambda>r. Inr (sb_observed r))"

text \<open>
  An upsert on the attempt: the stored row keeps its identifier and its donor, and takes
  every other column of the new one.
\<close>

definition upsert_subscription :: "subscription_row \<Rightarrow> subscription_row \<Rightarrow> subscription_row" where
  "upsert_subscription r x = r\<lparr>sb_id := sb_id x, sb_attempt := sb_attempt x, sb_donor := sb_donor x\<rparr>"

definition q_SaveSubscription :: "subscription_row \<Rightarrow> db \<Rightarrow> store_error + db" where
  "q_SaveSubscription r d =
     (if list_ex (\<lambda>x. sb_attempt x = sb_attempt r) (db_subscriptions d)
      then Inr (d\<lparr>db_subscriptions := update_rows (\<lambda>x. sb_attempt x = sb_attempt r)
        (upsert_subscription r) (db_subscriptions d)\<rparr>)
      else if list_ex (\<lambda>x. sb_id x = sb_id r) (db_subscriptions d) then Inl ErrConstraint
      else Inr (d\<lparr>db_subscriptions := db_subscriptions d @ [r]\<rparr>))"

section \<open>The inbox\<close>

text \<open>\<open>now()\<close> is the start of the transaction; \<open>locked\<close> are the events other workers hold.\<close>

definition q_NextStripeEvent :: "time \<Rightarrow> string list \<Rightarrow> db \<Rightarrow> store_error + event_row" where
  "q_NextStripeEvent dbnow locked d =
     first_by (\<lambda>r. (ev_available r, ev_id r))
       (\<lambda>r. ev_processed r = None \<and> ev_attempts r < 10 \<and> ev_available r \<le> dbnow \<and> ev_id r \<notin> set locked) (db_events d)"

definition q_IncrementEventAttempt :: "string \<Rightarrow> db \<Rightarrow> store_error + db" where
  "q_IncrementEventAttempt ident d =
     Inr (d\<lparr>db_events := update_rows (\<lambda>r. ev_id r = ident) (\<lambda>r. r\<lparr>ev_attempts := ev_attempts r + 1\<rparr>) (db_events d)\<rparr>)"

definition q_CompleteStripeEvent :: "string \<Rightarrow> time \<Rightarrow> db \<Rightarrow> store_error + db" where
  "q_CompleteStripeEvent ident processed d =
     Inr (d\<lparr>db_events := update_rows (\<lambda>r. ev_id r = ident)
       (\<lambda>r. r\<lparr>ev_processed := Some processed, ev_error := None\<rparr>) (db_events d)\<rparr>)"

definition q_FailStripeEvent :: "time \<Rightarrow> string \<Rightarrow> string \<Rightarrow> db \<Rightarrow> store_error + db" where
  "q_FailStripeEvent dbnow ident failure d =
     Inr (d\<lparr>db_events := update_rows (\<lambda>r. ev_id r = ident)
       (\<lambda>r. r\<lparr>ev_error := Some failure,
              ev_available := dbnow + min (2 ^ nat (ev_attempts r) * (30 * Second)) Hour\<rparr>) (db_events d)\<rparr>)"

definition q_InsertStripeEvent :: "event_row \<Rightarrow> db \<Rightarrow> store_error + db" where
  "q_InsertStripeEvent r d =
     rbind (insert_row True (\<lambda>x. ev_stripe x = ev_stripe r) (\<lambda>x. ev_id x = ev_id r) r (db_events d))
       (\<lambda>rows. Inr (d\<lparr>db_events := rows\<rparr>))"

definition q_RetryStripeEvent :: "time \<Rightarrow> string \<Rightarrow> db \<Rightarrow> store_error + db" where
  "q_RetryStripeEvent dbnow stripe d =
     Inr (d\<lparr>db_events := update_rows (\<lambda>r. ev_stripe r = stripe \<and> ev_processed r = None)
       (\<lambda>r. r\<lparr>ev_attempts := 0, ev_error := None, ev_available := dbnow\<rparr>) (db_events d)\<rparr>)"

section \<open>Cards, referral rechecks and sign-in emails\<close>

definition q_KnownPaymentMethod :: "string \<Rightarrow> db \<Rightarrow> store_error + bool" where
  "q_KnownPaymentMethod m d = Inr (list_ex (\<lambda>r. pm_id r = m) (db_methods d))"

definition q_InsertPaymentMethod :: "method_row \<Rightarrow> db \<Rightarrow> store_error + db" where
  "q_InsertPaymentMethod r d =
     rbind (insert_row (HasPrefix (pm_id r) ''pm_'' \<and> pm_fingerprint r \<noteq> [])
        (\<lambda>x. pm_id x = pm_id r) (\<lambda>x. False) r (db_methods d))
       (\<lambda>rows. Inr (d\<lparr>db_methods := rows\<rparr>))"

text \<open>The rows the insert added, which \<open>RecordPaymentMethod\<close> returns.\<close>

definition q_RecordPaymentMethod :: "method_row \<Rightarrow> db \<Rightarrow> store_error + (int \<times> db)" where
  "q_RecordPaymentMethod r d =
     rbind (q_InsertPaymentMethod r d) (\<lambda>d'. Inr (int (length (db_methods d')) - int (length (db_methods d)), d'))"

definition q_ScheduleReferralRecheck :: "time \<Rightarrow> string \<Rightarrow> db \<Rightarrow> store_error + db" where
  "q_ScheduleReferralRecheck asOf donor d =
     Inr (d\<lparr>db_projections := update_rows
       (\<lambda>r. (mp_donor r = donor \<or> mp_referrer r = Some donor) \<and> mp_next r > asOf)
       (\<lambda>r. r\<lparr>mp_next := asOf\<rparr>) (db_projections d)\<rparr>)"

definition q_QueueLoginEmail :: "login_row \<Rightarrow> db \<Rightarrow> store_error + db" where
  "q_QueueLoginEmail r d =
     (let mine = (\<lambda>since. filter (\<lambda>x. le_donor x = le_donor r \<and> le_created x > le_created r - since) (db_logins d))
      in if mine Minute \<noteq> [] \<or> length (mine Hour) \<ge> 5 then Inr d
         else if list_ex (\<lambda>x. le_id x = le_id r) (db_logins d) then Inl ErrConstraint
         else Inr (d\<lparr>db_logins := db_logins d @ [r]\<rparr>))"

section \<open>Deleted accounts\<close>

definition rv_key :: "reversal_row \<Rightarrow> string \<times> string" where
  "rv_key r = (rv_kind r, rv_target r)"

definition q_InsertReversal :: "reversal_row \<Rightarrow> db \<Rightarrow> store_error + db" where
  "q_InsertReversal r d =
     rbind (insert_row
        (rv_kind r \<in> {''REFUND'', ''CANCEL''} \<and>
           (rv_kind r = ''REFUND'') = (case rv_amount r of None \<Rightarrow> False | Some a \<Rightarrow> a > 0))
        (\<lambda>x. rv_key x = rv_key r) (\<lambda>x. rv_id x = rv_id r) r (db_reversals d))
       (\<lambda>rows. Inr (d\<lparr>db_reversals := rows\<rparr>))"

text \<open>\<open>INSERT ... SELECT gen_random_uuid(), ...\<close>: one identifier for each selected row.\<close>

fun insert_reversals :: "reversal_row list \<Rightarrow> db \<Rightarrow> store_error + db" where
  "insert_reversals [] d = Inr d"
| "insert_reversals (r # rs) d =
     (case db_ids d of
        [] \<Rightarrow> Inl ErrRandom
      | i # is \<Rightarrow> rbind (q_InsertReversal (r\<lparr>rv_id := i\<rparr>) (d\<lparr>db_ids := is\<rparr>)) (insert_reversals rs))"

definition new_reversal :: "string \<Rightarrow> string \<Rightarrow> string \<Rightarrow> int option \<Rightarrow> time \<Rightarrow> reversal_row" where
  "new_reversal donor kind target amount asOf =
     \<lparr>rv_id = [], rv_donor = donor, rv_kind = kind, rv_target = target, rv_amount = amount, rv_attempts = 0,
      rv_available = asOf, rv_completed = None, rv_error = None, rv_created = asOf\<rparr>"

definition q_QueueDeletedAccountRefunds :: "time \<Rightarrow> string \<Rightarrow> db \<Rightarrow> store_error + db" where
  "q_QueueDeletedAccountRefunds asOf checkout d =
     insert_reversals
       [new_reversal (gr_donor g) ''REFUND'' (the (gr_payment g)) (Some (gr_amount g)) asOf.
          g \<leftarrow> db_gifts d, x \<leftarrow> db_deletions d,
          dl_donor x = gr_donor g, gr_checkout g = checkout, gr_paid_at g > dl_deleted_at x, gr_payment g \<noteq> None] d"

definition q_QueueDeletedAccountCancellation :: "time \<Rightarrow> string \<Rightarrow> db \<Rightarrow> store_error + db" where
  "q_QueueDeletedAccountCancellation asOf checkout d =
     insert_reversals
       [new_reversal (ck_donor c) ''CANCEL'' (the (at_subscription a)) None asOf.
          a \<leftarrow> db_attempts d, c \<leftarrow> db_checkouts d, x \<leftarrow> db_deletions d,
          ck_id c = at_checkout a, dl_donor x = ck_donor c, at_checkout a = checkout, at_subscription a \<noteq> None,
          \<not> list_ex (\<lambda>s. sb_attempt s = at_id a \<and> sb_status s \<in> {''canceled'', ''incomplete_expired''}) (db_subscriptions d)] d"

definition q_ClaimDeletedAccountReversal :: "time \<Rightarrow> time \<Rightarrow> string list \<Rightarrow> db \<Rightarrow> store_error + (reversal_row \<times> db)" where
  "q_ClaimDeletedAccountReversal lease asOf locked d =
     rbind (first_by (\<lambda>r. (rv_available r, rv_id r))
        (\<lambda>r. rv_completed r = None \<and> rv_available r \<le> asOf \<and> rv_attempts r < 10 \<and> rv_id r \<notin> set locked) (db_reversals d))
       (\<lambda>due. let claim = (\<lambda>r. r\<lparr>rv_attempts := rv_attempts r + 1, rv_available := lease\<rparr>)
               in Inr (claim due, d\<lparr>db_reversals := update_rows (\<lambda>r. rv_id r = rv_id due) claim (db_reversals d)\<rparr>))"

definition q_CompleteDeletedAccountReversal :: "string \<Rightarrow> time \<Rightarrow> db \<Rightarrow> store_error + db" where
  "q_CompleteDeletedAccountReversal ident completed d =
     Inr (d\<lparr>db_reversals := update_rows (\<lambda>r. rv_id r = ident)
       (\<lambda>r. r\<lparr>rv_completed := Some completed, rv_error := None\<rparr>) (db_reversals d)\<rparr>)"

definition q_FailDeletedAccountReversal :: "string \<Rightarrow> time \<Rightarrow> string \<Rightarrow> db \<Rightarrow> store_error + db" where
  "q_FailDeletedAccountReversal ident available failure d =
     Inr (d\<lparr>db_reversals := update_rows (\<lambda>r. rv_id r = ident)
       (\<lambda>r. r\<lparr>rv_available := available, rv_error := Some failure\<rparr>) (db_reversals d)\<rparr>)"

section \<open>Card updates\<close>

definition q_PaymentUpdateSnapshot :: "string \<Rightarrow> db \<Rightarrow> store_error + update_row" where
  "q_PaymentUpdateSnapshot ident d = one_row (\<lambda>r. pu_id r = ident) (db_updates d)"

definition q_PaymentUpdateByID :: "string \<Rightarrow> db \<Rightarrow> store_error + update_row" where
  "q_PaymentUpdateByID ident d = one_row (\<lambda>r. pu_id r = ident) (db_updates d)"

definition q_SavePaymentUpdate ::
  "string \<Rightarrow> string option \<Rightarrow> string \<Rightarrow> string option \<Rightarrow> time option \<Rightarrow> db \<Rightarrow> store_error + db" where
  "q_SavePaymentUpdate ident session status url completed d =
     (if list_ex (\<lambda>r. pu_id r = ident) (db_updates d) \<and> session \<noteq> None \<and>
         list_ex (\<lambda>r. pu_id r \<noteq> ident \<and> pu_session r = session) (db_updates d)
      then Inl ErrConstraint
      else Inr (d\<lparr>db_updates := update_rows (\<lambda>r. pu_id r = ident)
        (\<lambda>r. r\<lparr>pu_session := session, pu_status := status, pu_url := url, pu_completed := completed\<rparr>) (db_updates d)\<rparr>))"

section \<open>Keyed tables of the ledger\<close>

lemma insert_row_Inr:
  "insert_row ok conflict clash r rows = Inr rows' \<Longrightarrow>
     rows' = (if \<exists>x\<in>set rows. conflict x then rows else rows @ [r])"
  by (auto simp: insert_row_def list_ex_iff split: if_splits)

lemma insert_row_law:
  assumes "insert_row ok (\<lambda>x. key x = key r) clash r rows = Inr rows'"
  shows "rows' = (if key r \<in> key ` set rows then rows else rows @ [r])"
proof -
  have "(\<exists>x\<in>set rows. key x = key r) \<longleftrightarrow> key r \<in> key ` set rows" by (metis image_iff)
  then show ?thesis using insert_row_Inr[OF assms] by simp
qed

interpretation gift_table: keyed_table db_gifts gr_object q_InsertGift
  by unfold_locales (auto simp: q_InsertGift_def rbind_eq_Inr dest: insert_row_law)

interpretation period_table: keyed_table db_periods pr_invoice q_InsertBillingPeriod
  by unfold_locales (auto simp: q_InsertBillingPeriod_def rbind_eq_Inr dest: insert_row_law)

interpretation billing_table: keyed_table db_billing bo_event q_InsertBillingObservation
  by unfold_locales (auto simp: q_InsertBillingObservation_def rbind_eq_Inr dest: insert_row_law)

interpretation refund_table: keyed_table db_refunds rr_stripe q_InsertRefund
  by unfold_locales (auto simp: q_InsertRefund_def rbind_eq_Inr dest: insert_row_law)

interpretation event_table: keyed_table db_events ev_stripe q_InsertStripeEvent
  by unfold_locales (auto simp: q_InsertStripeEvent_def rbind_eq_Inr dest: insert_row_law)

interpretation method_table: keyed_table db_methods pm_id q_InsertPaymentMethod
  by unfold_locales (auto simp: q_InsertPaymentMethod_def rbind_eq_Inr dest: insert_row_law)

interpretation reversal_table: keyed_table db_reversals rv_key q_InsertReversal
  by unfold_locales (auto simp: q_InsertReversal_def rbind_eq_Inr dest: insert_row_law)

lemma first_by_in:
  assumes "first_by key P rows = Inr r"
  shows "r \<in> set rows \<and> P r"
proof -
  obtain rs where "sort_key key (filter P rows) = r # rs"
    using assms by (auto simp: first_by_def split: list.splits)
  then have "r \<in> set (sort_key key (filter P rows))" by simp
  then show ?thesis by simp
qed

lemma first_by_least:
  assumes "first_by key P rows = Inr r" and "x \<in> set rows" and "P x"
  shows "key r \<le> key x"
proof -
  obtain rs where rs: "sort_key key (filter P rows) = r # rs"
    using assms(1) by (auto simp: first_by_def split: list.splits)
  have "x \<in> set (sort_key key (filter P rows))" using assms(2,3) by simp
  then have "x = r \<or> x \<in> set rs" using rs by simp
  moreover have "sorted (map key (r # rs))" using rs by (metis sorted_sort_key)
  ultimately show ?thesis by auto
qed

lemma first_by_None: "first_by key P rows = Inl e \<longleftrightarrow> e = ErrNoRows \<and> filter P rows = []"
proof -
  have "sort_key key (filter P rows) = [] \<longleftrightarrow> filter P rows = []"
    by (metis length_0_conv length_sort)
  then show ?thesis by (auto simp: first_by_def split: list.splits)
qed

end
