(* ===== verification/Subscriptions.thy ===== *)
theory Subscriptions
  imports Ledger_Queries
begin

text \<open>
  Reconciling a monthly subscription with the processor (internal/store/subscriptions.go).
  The processor is a gateway (internal/payments/gateway.go) over an outside world \<open>'g\<close>: a call
  takes the world to its next state and returns an object or an error, so two reads of one
  subscription may differ.
\<close>

section \<open>The processor\<close>

record 'g gateway =
  gw_RetrievePaymentMethod :: "string \<Rightarrow> 'g \<Rightarrow> (store_error + Object) \<times> 'g"
  gw_RetrieveRefund :: "string \<Rightarrow> 'g \<Rightarrow> (store_error + Object) \<times> 'g"
  gw_RetrieveSubscription :: "string \<Rightarrow> 'g \<Rightarrow> (store_error + Object) \<times> 'g"

text \<open>\<open>String\<close> of a nullable text: the empty string when it is NULL.\<close>

definition nullstr :: "string option \<Rightarrow> string" where
  "nullstr v = (case v of None \<Rightarrow> [] | Some s \<Rightarrow> s)"

lemma nullstr_Some [simp]: "nullstr (Some s) = s" and nullstr_None [simp]: "nullstr None = []"
  by (simp_all add: nullstr_def)

definition no_rows_ok :: "store_error + 'a \<Rightarrow> store_error + 'a option" where
  "no_rows_ok r = (case r of Inr a \<Rightarrow> Inr (Some a) | Inl e \<Rightarrow> if e = ErrNoRows then Inr None else Inl e)"

section \<open>Reading subscriptions once per step\<close>

definition remember :: "string \<Rightarrow> Object \<Rightarrow> ('g, unit) tx" where
  "remember ident remote s = (Inr (), s\<lparr>st_seen := AList.update ident remote (st_seen s)\<rparr>)"

definition newSubFetcher :: "('g, unit) tx" where
  "newSubFetcher s = (Inr (), s\<lparr>st_seen := []\<rparr>)"

definition fetcher_refresh :: "'g gateway option \<Rightarrow> string \<Rightarrow> ('g, Object) tx" where
  "fetcher_refresh gateway ident =
     (case gateway of
        None \<Rightarrow> sfail ErrUnconfigured
      | Some g \<Rightarrow> sbind (sgate (gw_RetrieveSubscription g ident)) (\<lambda>remote.
          sbind (remember ident remote) (\<lambda>_. sreturn remote)))"

definition fetcher_retrieve :: "'g gateway option \<Rightarrow> string \<Rightarrow> ('g, Object) tx" where
  "fetcher_retrieve gateway ident s =
     (case map_of (st_seen s) ident of
        Some cached \<Rightarrow> (Inr cached, s)
      | None \<Rightarrow> fetcher_refresh gateway ident s)"

record subscriptionSnapshot =
  ss_attempt :: string
  ss_id :: string
  ss_observed :: "time option"
  ss_remote :: Object

definition fetchSubscription :: "'g gateway option \<Rightarrow> string \<Rightarrow> string \<Rightarrow> ('g, subscriptionSnapshot) tx" where
  "fetchSubscription gateway attempt ident =
     sbind (sread (\<lambda>d. no_rows_ok (q_SubscriptionObservedAt attempt d))) (\<lambda>observed.
     sbind (fetcher_retrieve gateway ident) (\<lambda>remote.
     sreturn \<lparr>ss_attempt = attempt, ss_id = ident, ss_observed = observed, ss_remote = remote\<rparr>))"

definition currentSubscription ::
  "'g gateway option \<Rightarrow> attempt_row \<Rightarrow> subscriptionSnapshot option \<Rightarrow> ('g, Object) tx" where
  "currentSubscription gateway attempt snapshot =
     (case snapshot of
        None \<Rightarrow> fetcher_refresh gateway (nullstr (at_subscription attempt))
      | Some snap \<Rightarrow>
          if ss_attempt snap = at_id attempt \<and> ss_id snap = nullstr (at_subscription attempt)
          then sbind (sread (\<lambda>d. no_rows_ok (q_SubscriptionObservedAt (at_id attempt) d))) (\<lambda>observed.
            if observed = ss_observed snap then sreturn (ss_remote snap)
            else fetcher_refresh gateway (nullstr (at_subscription attempt)))
          else fetcher_refresh gateway (nullstr (at_subscription attempt)))"

section \<open>The monthly item and its period\<close>

definition terminalSubscription :: "string \<Rightarrow> bool" where
  "terminalSubscription status \<longleftrightarrow> status = ''canceled'' \<or> status = ''incomplete_expired''"

definition monthlyItem :: "checkout_row \<Rightarrow> attempt_row \<Rightarrow> Object \<Rightarrow> facts_error + (Object \<times> Object)" where
  "monthlyItem draft attempt remote =
     rbind (facts_Object remote ''metadata'') (\<lambda>metadata.
     rbind (facts_Object remote ''items'') (\<lambda>items.
     rbind (facts_Array items ''data'') (\<lambda>lines.
     if ck_frequency draft \<noteq> ''MONTHLY'' \<or> at_subscription attempt = None \<or>
        Text remote ''id'' \<noteq> nullstr (at_subscription attempt) \<or>
        \<not> BoolIs remote ''livemode'' False \<or>
        Text metadata ''dad_checkout_id'' \<noteq> ck_id draft \<or>
        \<not> BoolIs items ''has_more'' False \<or>
        length lines \<noteq> 1
     then Inl ErrFacts
     else let item = hd lines in
       rbind (facts_Object item ''price'') (\<lambda>price.
       rbind (facts_Object price ''recurring'') (\<lambda>recurring.
       rbind (facts_Int recurring ''interval_count'') (\<lambda>count.
       rbind (facts_Int item ''quantity'') (\<lambda>quantity.
       if Text price ''currency'' \<noteq> ''usd'' \<or> Text recurring ''interval'' \<noteq> ''month'' \<or> count \<noteq> 1 \<or> quantity \<noteq> 1
       then Inl ErrFacts
       else Inr (item, price))))))))"

definition monthlyPeriod :: "Object \<Rightarrow> string \<Rightarrow> string \<Rightarrow> facts_error + (time \<times> time)" where
  "monthlyPeriod obj startKey endKey =
     rbind (facts_Unix obj startKey) (\<lambda>start.
     rbind (facts_Unix obj endKey) (\<lambda>stop.
     if stop < start + 27 * 24 * Hour \<or> stop > start + 32 * 24 * Hour then Inl ErrFacts
     else Inr (start, stop)))"

section \<open>Amount changes\<close>

definition reconcileAmount :: "checkout_row \<Rightarrow> Object \<Rightarrow> Object \<Rightarrow> time \<Rightarrow> time \<Rightarrow> ('g, unit) tx" where
  "reconcileAmount draft item price stop now =
     sbind (slift (of_facts (facts_Int price ''unit_amount''))) (\<lambda>actual.
     sbind (sread (\<lambda>d. no_rows_ok (q_LatestAmountChange (ck_id draft) d))) (\<lambda>latest.
     case latest of
       None \<Rightarrow> sguard (actual = ck_amount draft) StoreFacts
     | Some change \<Rightarrow>
         if Text item ''id'' \<noteq> ac_item change \<or> Text price ''product'' \<noteq> ac_product change then sfail StoreFacts
         else if actual = ac_amount change
         then if ac_confirmed change = None \<and> Unix stop \<noteq> Unix (ac_effective change) then sfail StoreFacts
              else swrite (q_ConfirmAmountChange (ac_id change) now)
         else sguard (ac_confirmed change = None \<and> actual = ac_previous change) StoreFacts))"

section \<open>Reconciliation\<close>

definition subscription_statuses :: "string list" where
  "subscription_statuses = [''active'', ''past_due'', ''unpaid'', ''canceled'', ''incomplete'', ''incomplete_expired'']"

definition reconcileRemoteSubscription ::
  "checkout_row \<Rightarrow> attempt_row \<Rightarrow> Object \<Rightarrow> time \<Rightarrow> ('g, subscription_row) tx" where
  "reconcileRemoteSubscription draft attempt remote now =
     sbind (slift (of_facts (monthlyItem draft attempt remote))) (\<lambda>(item, price).
     sbind (slift (of_facts (monthlyPeriod item ''current_period_start'' ''current_period_end''))) (\<lambda>(_, stop).
     let status = Text remote ''status''; atPeriodEnd = BoolIs remote ''cancel_at_period_end'' True in
     sbind (sguard (status \<in> set subscription_statuses) StoreFacts) (\<lambda>_.
     sbind (sguard (atPeriodEnd \<or> BoolIs remote ''cancel_at_period_end'' False) StoreFacts) (\<lambda>_.
     sbind (slift (of_facts (facts_Unix remote ''billing_cycle_anchor''))) (\<lambda>anchor.
     let cancelAt = \<not> Absent remote ''cancel_at'' in
     sbind (sguard (cancelAt \<longrightarrow> facts_Unix remote ''cancel_at'' = Inr stop) StoreFacts) (\<lambda>_.
     sbind (reconcileAmount draft item price stop now) (\<lambda>_.
     sbind NewID (\<lambda>ident.
     sbind (swrite (q_SaveSubscription
        \<lparr>sb_id = ident, sb_attempt = at_id attempt, sb_donor = ck_donor draft, sb_status = status, sb_period_end = stop,
         sb_stops = (if cancelAt \<or> atPeriodEnd \<or> terminalSubscription status then Some stop else None),
         sb_anchor = Some anchor,
         sb_external = (\<not> Absent remote ''schedule'' \<or> \<not> Absent remote ''pending_update''), sb_observed = now\<rparr>)) (\<lambda>_.
     sbind (sread (\<lambda>d. one_row (\<lambda>r. sb_attempt r = at_id attempt) (db_subscriptions d))) (\<lambda>row.
     if \<not> terminalSubscription status then sreturn row
     else sbind (swrite (q_CancelAttempt (at_id attempt))) (\<lambda>_.
          sbind (swrite (q_ReleaseReservation (at_id attempt))) (\<lambda>_. sreturn row))))))))))))"

definition reconcileSubscription ::
  "'g gateway option \<Rightarrow> checkout_row \<Rightarrow> attempt_row \<Rightarrow> subscriptionSnapshot option \<Rightarrow> time \<Rightarrow> ('g, subscription_row) tx" where
  "reconcileSubscription gateway draft attempt snapshot now =
     sbind (currentSubscription gateway attempt snapshot) (\<lambda>remote.
     reconcileRemoteSubscription draft attempt remote now)"

end
