(* ===== verification/Ledger.thy ===== *)
theory Ledger
  imports Subscriptions
begin

text \<open>
  Writing verified processor facts into the payment ledger: a billing period, a gift and a
  billing observation from an invoice (internal/store/worker.go), a refund's current state
  (internal/store/refunds.go), and the sign-in email that follows a first gift
  (internal/store/outbox.go).
\<close>

section \<open>Sign-in emails\<close>

definition queueLoginEmail :: "string \<Rightarrow> string \<Rightarrow> time \<Rightarrow> ('g, unit) tx" where
  "queueLoginEmail email next_path now =
     sbind (sread (\<lambda>d. no_rows_ok (q_DonorByEmail email d))) (\<lambda>found.
     case found of
       None \<Rightarrow> sreturn ()
     | Some donor \<Rightarrow>
         sbind (sread (q_LockDonor (don_id donor))) (\<lambda>donor.
         if don_disabled donor then sreturn ()
         else sbind NewID (\<lambda>ident.
           swrite (q_QueueLoginEmail
             \<lparr>le_id = ident, le_donor = don_id donor, le_available = now, le_created = now,
              le_return = (if next_path \<noteq> [] then Some next_path else None)\<rparr>))))"

section \<open>Invoices\<close>

definition billingReason :: "Object \<Rightarrow> bool" where
  "billingReason data \<longleftrightarrow>
     Text data ''billing_reason'' = ''subscription_create'' \<or> Text data ''billing_reason'' = ''subscription_cycle''"

definition invoiceBounds :: "Object \<Rightarrow> facts_error + (time \<times> time)" where
  "invoiceBounds data =
     rbind (facts_Array data ''lines'') (\<lambda>lines.
     if \<not> BoolIs data ''lines_complete'' True \<or> length lines \<noteq> 1 then Inl ErrFacts
     else rbind (facts_Object (hd lines) ''period'') (\<lambda>bounds. monthlyPeriod bounds ''start'' ''end''))"

definition recordPeriod :: "checkout_row \<Rightarrow> Object \<Rightarrow> int \<Rightarrow> bool \<Rightarrow> ('g, string) tx" where
  "recordPeriod draft data expected paid =
     sbind (slift (of_facts (invoiceBounds data))) (\<lambda>(start, stop).
     sbind (slift (of_facts (facts_Array data ''lines''))) (\<lambda>lines.
     let line = hd lines in
     sbind (slift (of_facts (facts_Int line ''amount''))) (\<lambda>amount.
     sbind (sguard (amount = expected \<and> Text line ''parent_type'' = ''subscription_item_details'' \<and>
        BoolIs line ''proration'' False \<and> Text line ''subscription'' = Text data ''subscription'' \<and>
        Text line ''currency'' = ''usd'') StoreFacts) (\<lambda>_.
     sbind NewID (\<lambda>ident.
     sbind (swrite (q_InsertBillingPeriod
        \<lparr>pr_id = ident, pr_donor = ck_donor draft, pr_checkout = ck_id draft, pr_invoice = Text data ''id'',
         pr_subscription = Text data ''subscription'', pr_due = start, pr_ends = stop, pr_status = ''FAILED''\<rparr>)) (\<lambda>_.
     sbind (sread (q_BillingPeriodByInvoice (Text data ''id''))) (\<lambda>p.
     sbind (sguard (pr_checkout p = ck_id draft \<and> pr_subscription p = Text data ''subscription'' \<and>
        pr_due p = start \<and> pr_ends p = stop) StoreFacts) (\<lambda>_.
     if paid then sbind (swrite (q_MarkPeriodPaid (pr_id p))) (\<lambda>_. sreturn (pr_id p))
     else sreturn (pr_id p)))))))))"

definition invoicePaymentIntent :: "Object \<Rightarrow> int \<Rightarrow> facts_error + string" where
  "invoicePaymentIntent data amount =
     rbind (facts_Array data ''payments'') (\<lambda>rows.
     if \<not> BoolIs data ''payments_complete'' True \<or> length rows \<noteq> 1 then Inl ErrFacts
     else let p = hd rows in
       rbind (facts_Int p ''amount_paid'') (\<lambda>paid.
       if paid \<noteq> amount \<or> Text p ''status'' \<noteq> ''paid'' \<or> Text p ''currency'' \<noteq> ''usd'' \<or>
          Text p ''invoice'' \<noteq> Text data ''id'' \<or> \<not> BoolIs p ''livemode'' False \<or>
          Text p ''type'' \<noteq> ''payment_intent'' \<or> \<not> HasPrefix (Text p ''payment_intent'') ''pi_''
       then Inl ErrFacts else Inr (Text p ''payment_intent'')))"

definition recordBillingObservation ::
  "string \<Rightarrow> event_row \<Rightarrow> string \<Rightarrow> int \<Rightarrow> string \<Rightarrow> time \<Rightarrow> time \<Rightarrow> ('g, unit) tx" where
  "recordBillingObservation period event status amount reason occurred recorded =
     sbind NewID (\<lambda>ident.
     swrite (q_InsertBillingObservation
       \<lparr>bo_id = ident, bo_period = period, bo_event = ev_id event, bo_status = status, bo_amount = amount,
        bo_currency = ''USD'', bo_reason = reason, bo_occurred = occurred, bo_created = ev_occurred event,
        bo_recorded = recorded\<rparr>))"

section \<open>Gifts\<close>

record paidGift =
  pg_object :: string
  pg_amount :: int
  pg_paid :: time
  pg_payment :: string
  pg_period :: "string option"

text \<open>The checkout's attribution as it stood when the gift was charged.\<close>

definition charged_attribution :: "checkout_row \<Rightarrow> time \<Rightarrow> string option \<times> string option" where
  "charged_attribution draft paid =
     (if ck_referrer draft \<noteq> None \<and> paid < (case ck_expires draft of None \<Rightarrow> 0 | Some t \<Rightarrow> t)
      then (ck_referrer draft, ck_kind draft) else (None, None))"

definition recordGift :: "checkout_row \<Rightarrow> paidGift \<Rightarrow> time \<Rightarrow> ('g, unit) tx" where
  "recordGift draft p now =
     sbind (sread (q_LockDonor (ck_donor draft))) (\<lambda>donor.
     sbind (sread (q_HasGift (don_id donor))) (\<lambda>hadGift.
     sbind NewID (\<lambda>ident.
     let (referrer, kind) = charged_attribution draft (pg_paid p); pi_id = Some (pg_payment p) in
     sbind (swrite (q_InsertGift
        \<lparr>gr_id = ident, gr_donor = don_id donor, gr_checkout = ck_id draft, gr_object = pg_object p,
         gr_amount = pg_amount p, gr_currency = ''USD'', gr_frequency = ck_frequency draft, gr_paid_at = pg_paid p,
         gr_payment = pi_id, gr_period = pg_period p, gr_referrer = referrer, gr_kind = kind\<rparr>)) (\<lambda>_.
     sbind (sread (q_GiftByStripeObject (pg_object p))) (\<lambda>gift.
     sbind (sguard (gr_donor gift = don_id donor \<and> gr_checkout gift = ck_id draft \<and> gr_amount gift = pg_amount p \<and>
        gr_frequency gift = ck_frequency draft \<and> gr_referrer gift = referrer \<and> gr_kind gift = kind \<and>
        (gr_payment gift = None \<or> gr_payment gift = pi_id) \<and>
        (gr_period gift = None \<or> gr_period gift = pg_period p)) StoreFacts) (\<lambda>_.
     sbind (swrite (q_EnrichGift (gr_id gift) pi_id (pg_period p))) (\<lambda>_.
     if \<not> hadGift \<and> don_claimed_at donor = None then queueLoginEmail (don_email donor) [] now
     else sreturn ())))))))"

section \<open>Refunds\<close>

text \<open>The succeeded refunds of a gift, added up without exceeding it.\<close>

fun refund_total :: "int \<Rightarrow> int \<Rightarrow> int list \<Rightarrow> store_error + int" where
  "refund_total limit acc [] = Inr acc"
| "refund_total limit acc (v # vs) =
     (if v > limit - acc then Inl StoreFacts else refund_total limit (acc + v) vs)"

definition recordRefund :: "gift_row \<Rightarrow> Object \<Rightarrow> string option \<Rightarrow> string option \<Rightarrow> time \<Rightarrow> ('g, unit) tx" where
  "recordRefund gift current eventID actionID now =
     sbind (slift (of_facts (facts_Int current ''amount''))) (\<lambda>amount.
     let status = ToUpper (Text current ''status''); remoteID = Text current ''id'' in
     sbind (sguard (HasPrefix remoteID ''re_'' \<and> Text current ''payment_intent'' = nullstr (gr_payment gift) \<and>
        Text current ''currency'' = ''usd'' \<and> amount > 0 \<and> amount \<le> gr_amount gift \<and>
        (eventID = None) \<noteq> (actionID = None)) StoreFacts) (\<lambda>_.
     sbind (sguard (status \<in> refund_row_statuses) StoreFacts) (\<lambda>_.
     sbind NewID (\<lambda>ident.
     sbind (swrite (q_InsertRefund
        \<lparr>rr_id = ident, rr_gift = gr_id gift, rr_stripe = remoteID, rr_amount = amount, rr_currency = ''USD'',
         rr_status = status, rr_observed = now\<rparr>)) (\<lambda>_.
     sbind (sread (q_RefundByStripeID remoteID)) (\<lambda>refund.
     sbind (sguard (rr_gift refund = gr_id gift \<and> rr_amount refund = amount) StoreFacts) (\<lambda>_.
     sbind (swrite (q_UpdateRefund (rr_id refund) status now)) (\<lambda>_.
     sbind (sread (q_SucceededRefundAmounts (gr_id gift))) (\<lambda>amounts.
     sbind (slift (refund_total (gr_amount gift) 0 amounts)) (\<lambda>_.
     sbind NewID (\<lambda>observation.
     swrite (q_InsertRefundObservation
       \<lparr>ro_id = observation, ro_refund = rr_id refund, ro_event = eventID, ro_action = actionID,
        ro_status = status, ro_observed = now\<rparr>))))))))))))"

section \<open>The ledger invariant\<close>

text \<open>
  What the ledger promises its readers: rows are found by any of their keys, every gift is
  positive, in dollars and not attributed to its own donor, every period spans between 27 and
  32 days, and what was refunded of a gift never exceeds it.
\<close>

definition succeeded_refunds :: "db \<Rightarrow> string \<Rightarrow> int" where
  "succeeded_refunds d gift =
     sum_list (map rr_amount (filter (\<lambda>r. rr_gift r = gift \<and> rr_status r = ''SUCCEEDED'') (db_refunds d)))"

definition gifts_ok :: "db \<Rightarrow> bool" where
  "gifts_ok d \<longleftrightarrow> distinct (map gr_id (db_gifts d)) \<and> distinct (map gr_object (db_gifts d)) \<and>
     inj_on gr_payment {g \<in> set (db_gifts d). gr_payment g \<noteq> None} \<and> list_all gift_row_checks (db_gifts d)"

definition month_long :: "period_row \<Rightarrow> bool" where
  "month_long p \<longleftrightarrow> pr_due p + 27 * 24 * Hour \<le> pr_ends p \<and> pr_ends p \<le> pr_due p + 32 * 24 * Hour"

definition periods_ok :: "db \<Rightarrow> bool" where
  "periods_ok d \<longleftrightarrow> distinct (map pr_id (db_periods d)) \<and> distinct (map pr_invoice (db_periods d)) \<and>
     list_all month_long (db_periods d)"

definition refund_of :: "db \<Rightarrow> refund_row \<Rightarrow> bool" where
  "refund_of d r \<longleftrightarrow> rr_amount r > 0 \<and> rr_currency r = ''USD'' \<and> rr_status r \<in> refund_row_statuses \<and>
     (\<exists>g\<in>set (db_gifts d). gr_id g = rr_gift r \<and> rr_amount r \<le> gr_amount g)"

definition refunds_ok :: "db \<Rightarrow> bool" where
  "refunds_ok d \<longleftrightarrow> distinct (map rr_id (db_refunds d)) \<and> distinct (map rr_stripe (db_refunds d)) \<and>
     list_all (refund_of d) (db_refunds d) \<and>
     list_all (\<lambda>g. succeeded_refunds d (gr_id g) \<le> gr_amount g) (db_gifts d)"

definition ledger_ok :: "db \<Rightarrow> bool" where
  "ledger_ok d \<longleftrightarrow> gifts_ok d \<and> periods_ok d \<and> refunds_ok d"

definition same_ledger :: "db \<Rightarrow> db \<Rightarrow> bool" where
  "same_ledger d d' \<longleftrightarrow> db_gifts d' = db_gifts d \<and> db_periods d' = db_periods d \<and> db_refunds d' = db_refunds d"

lemma ledger_ok_same: "same_ledger d d' \<Longrightarrow> ledger_ok d' = ledger_ok d"
  by (simp add: same_ledger_def ledger_ok_def gifts_ok_def periods_ok_def refunds_ok_def refund_of_def [abs_def]
      succeeded_refunds_def)

lemma keeps_ledger_write: "(\<And>d d'. f d = Inr d' \<Longrightarrow> same_ledger d d') \<Longrightarrow> keeps ledger_ok (swrite f)"
  by (rule keeps_write) (metis ledger_ok_same)

lemma ledger_ok_ids [simp]: "ledger_ok (d\<lparr>db_ids := is\<rparr>) = ledger_ok d"
  by (rule ledger_ok_same) (simp add: same_ledger_def)

lemma keeps_ledger_NewID [keeps_rules]: "keeps ledger_ok NewID"
  by (rule keepsI) auto

lemma insert_reversals_frame:
  "insert_reversals rs d = Inr d' \<Longrightarrow> same_ledger d d'"
proof (induction rs arbitrary: d)
  case (Cons r rs)
  then obtain i ids rows where "db_ids d = i # ids"
    and "insert_reversals rs (d\<lparr>db_ids := ids, db_reversals := rows\<rparr>) = Inr d'"
    by (auto simp: rbind_eq_Inr q_InsertReversal_def split: list.splits)
  with Cons.IH show ?case by (fastforce simp: same_ledger_def)
qed (simp add: same_ledger_def)

lemma keeps_ledger_frames [keeps_rules]:
  "keeps ledger_ok (swrite (q_BindSubscription i v))"
  "keeps ledger_ok (swrite (q_RecordCheckoutSession i v w))"
  "keeps ledger_ok (swrite (q_CancelAttempt i))"
  "keeps ledger_ok (swrite (q_ReleaseReservation i))"
  "keeps ledger_ok (swrite (q_InsertBillingObservation b))"
  "keeps ledger_ok (swrite (q_InsertRefundObservation ro))"
  "keeps ledger_ok (swrite (q_ConfirmAmountChange i a))"
  "keeps ledger_ok (swrite (q_SaveSubscription sr))"
  "keeps ledger_ok (swrite (q_IncrementEventAttempt i))"
  "keeps ledger_ok (swrite (q_CompleteStripeEvent i a))"
  "keeps ledger_ok (swrite (q_FailStripeEvent a i v))"
  "keeps ledger_ok (swrite (q_InsertStripeEvent e))"
  "keeps ledger_ok (swrite (q_ScheduleReferralRecheck a i))"
  "keeps ledger_ok (swrite (q_QueueLoginEmail le))"
  "keeps ledger_ok (swrite (q_SavePaymentUpdate i x v y z))"
  by (rule keeps_ledger_write;
      auto simp: same_ledger_def q_BindSubscription_def q_RecordCheckoutSession_def q_CancelAttempt_def
        q_ReleaseReservation_def q_InsertBillingObservation_def q_InsertRefundObservation_def
        q_ConfirmAmountChange_def q_SaveSubscription_def q_IncrementEventAttempt_def q_CompleteStripeEvent_def
        q_FailStripeEvent_def q_InsertStripeEvent_def q_ScheduleReferralRecheck_def q_QueueLoginEmail_def
        q_SavePaymentUpdate_def rbind_eq_Inr Let_def split: if_splits)+

lemma keeps_ledger_reversals [keeps_rules]:
  "keeps ledger_ok (swrite (q_QueueDeletedAccountRefunds a i))"
  "keeps ledger_ok (swrite (q_QueueDeletedAccountCancellation a i))"
  by (rule keeps_ledger_write;
      auto simp: q_QueueDeletedAccountRefunds_def q_QueueDeletedAccountCancellation_def dest: insert_reversals_frame)+

lemma keeps_queueLoginEmail [keeps_rules]: "keeps ledger_ok (queueLoginEmail email n now)"
  unfolding queueLoginEmail_def by (intro keeps_rules)

lemma keeps_recordBillingObservation [keeps_rules]:
  "keeps ledger_ok (recordBillingObservation p e st a r oc rc)"
  unfolding recordBillingObservation_def by (intro keeps_rules)

subsection \<open>Gifts keep it\<close>

lemma insert_row_new:
  assumes "insert_row ok conflict clash r rows = Inr rows'" and "\<not> (\<exists>x\<in>set rows. conflict x)"
  shows "ok \<and> (\<forall>x\<in>set rows. \<not> clash x) \<and> rows' = rows @ [r]"
  using assms by (auto simp: insert_row_def list_ex_iff split: if_splits)

lemma refunds_ok_more_gifts:
  assumes "refunds_ok d" and "gr_id r \<notin> gr_id ` set (db_gifts d)" and "gr_amount r > 0"
  shows "refunds_ok (d\<lparr>db_gifts := db_gifts d @ [r]\<rparr>)"
proof -
  have "rr_gift x \<in> gr_id ` set (db_gifts d)" if "x \<in> set (db_refunds d)" for x
    using assms(1) that by (auto simp: refunds_ok_def refund_of_def list_all_iff) (metis image_eqI)
  then have "\<forall>x\<in>set (db_refunds d). rr_gift x \<noteq> gr_id r" using assms(2) by metis
  then have "filter (\<lambda>x. rr_gift x = gr_id r \<and> rr_status x = ''SUCCEEDED'') (db_refunds d) = []"
    by (simp add: filter_empty_conv)
  then have "succeeded_refunds d (gr_id r) = 0" by (simp add: succeeded_refunds_def)
  with assms show ?thesis
    by (auto simp: refunds_ok_def list_all_iff refund_of_def succeeded_refunds_def)
qed

lemma InsertGift_ledger:
  assumes "ledger_ok d" and "q_InsertGift r d = Inr d'"
  shows "ledger_ok d'"
proof (cases "gr_object r \<in> gr_object ` set (db_gifts d)")
  case True
  then show ?thesis using gift_table.ins_known assms by blast
next
  case False
  from assms(2) obtain rows where
    rows: "insert_row (gift_row_checks r) (\<lambda>x. gr_object x = gr_object r)
        (\<lambda>x. gr_id x = gr_id r \<or> (gr_payment r \<noteq> None \<and> gr_payment x = gr_payment r)) r (db_gifts d) = Inr rows"
    and d': "d' = d\<lparr>db_gifts := rows\<rparr>"
    by (auto simp: q_InsertGift_def rbind_eq_Inr)
  have "\<not> (\<exists>x\<in>set (db_gifts d). gr_object x = gr_object r)" using False by (metis image_eqI)
  from insert_row_new[OF rows this] have checks: "gift_row_checks r" and rows_eq: "rows = db_gifts d @ [r]"
    and fresh: "\<forall>x\<in>set (db_gifts d). gr_id x \<noteq> gr_id r"
    and unpaid: "\<forall>x\<in>set (db_gifts d). gr_payment r \<noteq> None \<longrightarrow> gr_payment x \<noteq> gr_payment r"
    by auto
  have "gr_id r \<notin> gr_id ` set (db_gifts d)" using fresh by auto
  moreover have "inj_on gr_payment {g \<in> set (db_gifts d @ [r]). gr_payment g \<noteq> None}"
    using assms(1) unpaid by (auto simp: ledger_ok_def gifts_ok_def inj_on_def)
  ultimately show ?thesis
    using assms(1) checks False rows_eq refunds_ok_more_gifts[of d r]
    by (auto simp: d' ledger_ok_def gifts_ok_def periods_ok_def gift_row_checks_def)
qed

definition gift_same :: "gift_row \<Rightarrow> gift_row \<Rightarrow> bool" where
  "gift_same g g' \<longleftrightarrow> gr_id g' = gr_id g \<and> gr_amount g' = gr_amount g"

lemma refunds_ok_update_gifts:
  assumes "refunds_ok d" and "\<And>g. gift_same g (f g)"
  shows "refunds_ok (d\<lparr>db_gifts := update_rows P f (db_gifts d)\<rparr>)"
proof -
  have "\<exists>g\<in>set (update_rows P f (db_gifts d)). gr_id g = k \<and> a \<le> gr_amount g"
    if ex: "\<exists>g\<in>set (db_gifts d). gr_id g = k \<and> a \<le> gr_amount g" for k a
  proof -
    obtain g where g: "g \<in> set (db_gifts d)" "gr_id g = k" "a \<le> gr_amount g" using ex by blast
    have "(if P g then f g else g) \<in> set (update_rows P f (db_gifts d))" using g(1) by (simp add: update_rows_def)
    moreover have "gr_id (f g) = k \<and> a \<le> gr_amount (f g)" using g assms(2)[of g] by (simp add: gift_same_def)
    ultimately show ?thesis using g by (metis (full_types))
  qed
  then show ?thesis using assms
    by (auto simp: refunds_ok_def list_all_iff refund_of_def succeeded_refunds_def update_rows_def gift_same_def)
qed

lemma gift_row_checks_enrich [simp]:
  "gift_row_checks (r\<lparr>gr_payment := payment, gr_period := period\<rparr>) = gift_row_checks r"
  by (cases "gr_referrer r") (simp_all add: gift_row_checks_def)

lemma EnrichGift_ledger:
  assumes "ledger_ok d" and "q_EnrichGift ident payment period d = Inr d'"
  shows "ledger_ok d'"
proof -
  let ?f = "\<lambda>r. r\<lparr>gr_payment := payment, gr_period := period\<rparr>"
  let ?rows = "update_rows (\<lambda>r. gr_id r = ident) ?f (db_gifts d)"
  have d': "d' = d\<lparr>db_gifts := ?rows\<rparr>" using assms(2) by (simp add: q_EnrichGift_def split: if_splits)
  have unique: "gr_id r = ident" if "r \<in> set (db_gifts d)" "gr_payment r = payment" "payment \<noteq> None"
      "x \<in> set (db_gifts d)" "gr_id x = ident" for r x
    using assms(2) that by (auto simp: q_EnrichGift_def list_ex_iff split: if_splits)
  have payments: "inj_on gr_payment {g \<in> set (db_gifts d). gr_payment g \<noteq> None}"
    using assms(1) by (simp add: ledger_ok_def gifts_ok_def)
  have ids: "inj_on gr_id (set (db_gifts d))" using assms(1) by (simp add: ledger_ok_def gifts_ok_def distinct_map)
  have "inj_on gr_payment {g \<in> set ?rows. gr_payment g \<noteq> None}"
  proof (rule inj_onI)
    fix x y assume x: "x \<in> {g \<in> set ?rows. gr_payment g \<noteq> None}" and y: "y \<in> {g \<in> set ?rows. gr_payment g \<noteq> None}"
      and eq: "gr_payment x = gr_payment y"
    obtain a where a: "a \<in> set (db_gifts d)" "x = (if gr_id a = ident then ?f a else a)"
      using x by (auto simp: update_rows_def)
    obtain b where b: "b \<in> set (db_gifts d)" "y = (if gr_id b = ident then ?f b else b)"
      using y by (auto simp: update_rows_def)
    show "x = y"
    proof (cases "gr_id a = ident \<or> gr_id b = ident")
      case True
      then have "gr_id a = ident \<and> gr_id b = ident"
        using a b x y eq unique[of b a] unique[of a b] by (auto split: if_splits)
      then show ?thesis using a b inj_onD[OF ids, of a b] by auto
    next
      case False
      then have "gr_payment a = gr_payment b \<and> gr_payment a \<noteq> None" using a b x eq by auto
      then have "a = b" using inj_onD[OF payments, of a b] a(1) b(1) by (metis (mono_tags, lifting) mem_Collect_eq)
      then show ?thesis using a b by simp
    qed
  qed
  moreover have "map gr_id ?rows = map gr_id (db_gifts d)" "map gr_object ?rows = map gr_object (db_gifts d)"
    by simp_all
  moreover have "list_all gift_row_checks ?rows"
    using assms(1) by (auto simp: ledger_ok_def gifts_ok_def list_all_iff update_rows_def)
  moreover have "refunds_ok d'"
    unfolding d' using assms(1) by (intro refunds_ok_update_gifts) (simp_all add: ledger_ok_def gift_same_def)
  ultimately show ?thesis using assms(1) by (simp add: d' ledger_ok_def gifts_ok_def periods_ok_def)
qed

lemma keeps_ledger_gifts [keeps_rules]:
  "keeps ledger_ok (swrite (q_InsertGift r))" "keeps ledger_ok (swrite (q_EnrichGift i x y))"
  by (rule keeps_write, erule (1) InsertGift_ledger EnrichGift_ledger)+

lemma keeps_recordGift [keeps_rules]: "keeps ledger_ok (recordGift draft p now)"
  unfolding recordGift_def Let_def by (intro keeps_rules)

subsection \<open>Periods keep it\<close>

lemma monthlyPeriod_bounds:
  "monthlyPeriod obj a b = Inr (start, stop) \<Longrightarrow> start + 27 * 24 * Hour \<le> stop \<and> stop \<le> start + 32 * 24 * Hour"
  by (auto simp: monthlyPeriod_def rbind_eq_Inr split: if_splits)

lemma invoiceBounds_bounds:
  "invoiceBounds data = Inr (start, stop) \<Longrightarrow> start + 27 * 24 * Hour \<le> stop \<and> stop \<le> start + 32 * 24 * Hour"
  by (auto simp: invoiceBounds_def rbind_eq_Inr split: if_splits dest: monthlyPeriod_bounds)

lemma InsertBillingPeriod_ledger:
  assumes "ledger_ok d" and "q_InsertBillingPeriod r d = Inr d'" and "month_long r"
  shows "ledger_ok d'"
proof (cases "pr_invoice r \<in> pr_invoice ` set (db_periods d)")
  case True
  then show ?thesis using period_table.ins_known assms by blast
next
  case False
  from assms(2) obtain rows where
    rows: "insert_row (pr_due r < pr_ends r \<and> pr_status r = ''FAILED'') (\<lambda>x. pr_invoice x = pr_invoice r)
        (\<lambda>x. pr_id x = pr_id r) r (db_periods d) = Inr rows"
    and d': "d' = d\<lparr>db_periods := rows\<rparr>"
    by (auto simp: q_InsertBillingPeriod_def rbind_eq_Inr)
  have "\<not> (\<exists>x\<in>set (db_periods d). pr_invoice x = pr_invoice r)" using False by (metis image_eqI)
  from insert_row_new[OF rows this] have "rows = db_periods d @ [r]" "pr_id r \<notin> pr_id ` set (db_periods d)" by auto
  with assms(1,3) False show ?thesis
    by (simp add: d' ledger_ok_def gifts_ok_def periods_ok_def refunds_ok_def refund_of_def [abs_def]
        succeeded_refunds_def)
qed

lemma MarkPeriodPaid_ledger [keeps_rules]: "keeps ledger_ok (swrite (q_MarkPeriodPaid ident))"
proof (rule keeps_write)
  fix d d' assume "ledger_ok d" and "q_MarkPeriodPaid ident d = Inr d'"
  moreover from this(2) have "d' = d\<lparr>db_periods := update_rows (\<lambda>r. pr_id r = ident) (\<lambda>r. r\<lparr>pr_status := ''PAID''\<rparr>) (db_periods d)\<rparr>"
    by (simp add: q_MarkPeriodPaid_def)
  ultimately show "ledger_ok d'"
    by (auto simp: ledger_ok_def gifts_ok_def periods_ok_def refunds_ok_def refund_of_def [abs_def]
        succeeded_refunds_def list_all_iff update_rows_def month_long_def comp_def if_distrib cong: if_cong)
qed

lemma keeps_lift_bind:
  "(\<And>a. r = Inr a \<Longrightarrow> keeps P (f a)) \<Longrightarrow> keeps P (sbind (slift r) f)"
  by (rule keepsI) (auto simp: sbind_Inr dest: keepsD)

lemma keeps_recordPeriod [keeps_rules]: "keeps ledger_ok (recordPeriod draft data expected paid)"
  unfolding recordPeriod_def Let_def
proof (rule keeps_lift_bind, clarsimp, goal_cases)
  case (1 start stop)
  then have "month_long \<lparr>pr_id = ident, pr_donor = a, pr_checkout = b, pr_invoice = c, pr_subscription = e,
      pr_due = start, pr_ends = stop, pr_status = f\<rparr>" for ident a b c e f
    using invoiceBounds_bounds[OF 1] by (simp add: month_long_def)
  then have "keeps ledger_ok (swrite (q_InsertBillingPeriod \<lparr>pr_id = ident, pr_donor = a, pr_checkout = b,
      pr_invoice = c, pr_subscription = e, pr_due = start, pr_ends = stop, pr_status = f\<rparr>))" for ident a b c e f
    by (intro keeps_write) (blast intro: InsertBillingPeriod_ledger)
  then show ?case by (intro keeps_rules)
qed

subsection \<open>Refunds keep it\<close>

lemma refund_total_Inr:
  "refund_total limit acc vs = Inr v \<Longrightarrow> acc \<le> limit \<Longrightarrow> v = acc + sum_list vs \<and> v \<le> limit"
proof (induction vs arbitrary: acc)
  case (Cons a vs)
  then have "refund_total limit (acc + a) vs = Inr v" "acc + a \<le> limit" by (auto split: if_splits)
  then show ?case using Cons.IH[of "acc + a"] by simp
qed simp

text \<open>The refund table after an observation: the known refund takes the new state, a new one is added.\<close>

definition put_refund :: "refund_row \<Rightarrow> refund_row list \<Rightarrow> refund_row list" where
  "put_refund r rows =
     (if rr_stripe r \<in> rr_stripe ` set rows
      then update_rows (\<lambda>x. rr_stripe x = rr_stripe r) (\<lambda>x. x\<lparr>rr_status := rr_status r, rr_observed := rr_observed r\<rparr>) rows
      else rows @ [r])"

definition observed_refund :: "string \<Rightarrow> gift_row \<Rightarrow> Object \<Rightarrow> int \<Rightarrow> time \<Rightarrow> refund_row" where
  "observed_refund ident gift current amount now =
     \<lparr>rr_id = ident, rr_gift = gr_id gift, rr_stripe = Text current ''id'', rr_amount = amount, rr_currency = ''USD'',
      rr_status = ToUpper (Text current ''status''), rr_observed = now\<rparr>"

lemma update_by_other_key:
  assumes "distinct (map k rows)" and "distinct (map h rows)" and "x \<in> set rows"
  shows "update_rows (\<lambda>r. k r = k x) f rows = update_rows (\<lambda>r. h r = h x) f rows"
proof -
  have "inj_on k (set rows)" and "inj_on h (set rows)" using assms(1,2) by (simp_all add: distinct_map)
  then have "k r = k x \<longleftrightarrow> h r = h x" if "r \<in> set rows" for r
    using that assms(3) by (auto dest: inj_onD)
  then show ?thesis by (simp add: update_rows_def)
qed

lemma InsertRefund_new:
  assumes "q_InsertRefund r d = Inr d'" and "rr_stripe r \<notin> rr_stripe ` set (db_refunds d)"
  shows "d' = d\<lparr>db_refunds := db_refunds d @ [r]\<rparr> \<and> rr_id r \<notin> rr_id ` set (db_refunds d)"
proof -
  obtain rows where rows: "insert_row (rr_amount r > 0 \<and> rr_currency r = ''USD'' \<and> rr_status r \<in> refund_row_statuses)
      (\<lambda>x. rr_stripe x = rr_stripe r) (\<lambda>x. rr_id x = rr_id r) r (db_refunds d) = Inr rows"
    and d': "d' = d\<lparr>db_refunds := rows\<rparr>"
    using assms(1) by (auto simp: q_InsertRefund_def rbind_eq_Inr)
  have "\<not> (\<exists>x\<in>set (db_refunds d). rr_stripe x = rr_stripe r)" using assms(2) by (metis image_eqI)
  from insert_row_new[OF rows this] d' show ?thesis by auto
qed

lemma put_refund_steps:
  assumes "distinct (map rr_id (db_refunds d))" and "distinct (map rr_stripe (db_refunds d))"
    and ins: "q_InsertRefund r d = Inr d1"
    and look: "one_row (\<lambda>x. rr_stripe x = rr_stripe r) (db_refunds d1) = Inr x"
    and upd: "q_UpdateRefund (rr_id x) (rr_status r) (rr_observed r) d1 = Inr d2"
  shows "d2 = d\<lparr>db_refunds := put_refund r (db_refunds d)\<rparr> \<and>
    (if rr_stripe r \<in> rr_stripe ` set (db_refunds d) then x \<in> set (db_refunds d) \<and> rr_stripe x = rr_stripe r
     else x = r \<and> rr_id r \<notin> rr_id ` set (db_refunds d))"
proof -
  have d2: "d2 = d1\<lparr>db_refunds := update_rows (\<lambda>y. rr_id y = rr_id x)
      (\<lambda>y. y\<lparr>rr_status := rr_status r, rr_observed := rr_observed r\<rparr>) (db_refunds d1)\<rparr>"
    using upd by (simp add: q_UpdateRefund_def split: if_splits)
  have x: "x \<in> set (db_refunds d1)" "rr_stripe x = rr_stripe r" using one_row_in[OF look] by auto
  show ?thesis
  proof (cases "rr_stripe r \<in> rr_stripe ` set (db_refunds d)")
    case True
    then have d1: "d1 = d" using refund_table.ins_known ins by blast
    then have mem: "x \<in> set (db_refunds d)" using x(1) by simp
    note update_by_other_key[OF assms(1,2) mem]
    then have "d2 = d\<lparr>db_refunds := put_refund r (db_refunds d)\<rparr>"
      using True unfolding d2 d1 put_refund_def x(2) by (simp only: if_True)
    then show ?thesis using True mem x(2) by simp
  next
    case False
    from InsertRefund_new[OF ins False] have d1: "d1 = d\<lparr>db_refunds := db_refunds d @ [r]\<rparr>"
      and new: "rr_id r \<notin> rr_id ` set (db_refunds d)" by auto
    have "x \<notin> set (db_refunds d)" using False x(2) by (metis image_eqI)
    then have xr: "x = r" using x(1) d1 by simp
    have "rr_id y \<noteq> rr_id r" if "y \<in> set (db_refunds d)" for y using new that by (metis image_eqI)
    then have "update_rows (\<lambda>y. rr_id y = rr_id r) f (db_refunds d @ [r]) = db_refunds d @ [f r]" for f
      by (simp add: update_rows_def map_idI)
    then have "d2 = d\<lparr>db_refunds := put_refund r (db_refunds d)\<rparr>"
      using False unfolding d2 d1 xr put_refund_def by simp
    then show ?thesis using xr new False by simp
  qed
qed

lemma recordRefund_steps:
  assumes "recordRefund gift current ev act now s = (Inr u, t)"
  obtains amount ident ids d1 x d2 v obs ids2 where
    "facts_Int current ''amount'' = Inr amount" "0 < amount" "amount \<le> gr_amount gift"
    "HasPrefix (Text current ''id'') ''re_''"
    "db_ids (st_db s) = ident # ids"
    "q_InsertRefund (observed_refund ident gift current amount now) (st_db s\<lparr>db_ids := ids\<rparr>) = Inr d1"
    "one_row (\<lambda>r. rr_stripe r = Text current ''id'') (db_refunds d1) = Inr x"
    "rr_gift x = gr_id gift" "rr_amount x = amount"
    "q_UpdateRefund (rr_id x) (ToUpper (Text current ''status'')) now d1 = Inr d2"
    "ToUpper (Text current ''status'') \<in> refund_row_statuses"
    "refund_total (gr_amount gift) 0
       (map rr_amount (filter (\<lambda>r. rr_gift r = gr_id gift \<and> rr_status r = ''SUCCEEDED'') (db_refunds d2))) = Inr v"
    "db_ids d2 = obs # ids2"
    "q_InsertRefundObservation \<lparr>ro_id = obs, ro_refund = rr_id x, ro_event = ev, ro_action = act,
        ro_status = ToUpper (Text current ''status''), ro_observed = now\<rparr> (d2\<lparr>db_ids := ids2\<rparr>) = Inr (st_db t)"
  using assms
  unfolding recordRefund_def Let_def q_SucceededRefundAmounts_def q_RefundByStripeID_def observed_refund_def
  by (elim sbindE) (auto simp: observed_refund_def)

lemma InsertRefundObservation_Inr:
  assumes "q_InsertRefundObservation r d = Inr d'"
  shows "d' = d\<lparr>db_refund_obs := db_refund_obs d @ [r]\<rparr>"
  using assms insert_row_Inr by (fastforce simp: q_InsertRefundObservation_def rbind_eq_Inr)

lemma recordRefund_Inr:
  assumes "recordRefund gift current ev act now s = (Inr u, t)"
    and keys: "distinct (map rr_id (db_refunds (st_db s)))" "distinct (map rr_stripe (db_refunds (st_db s)))"
  obtains amount ident x obs ids where
    "facts_Int current ''amount'' = Inr amount" "0 < amount" "amount \<le> gr_amount gift"
    "ToUpper (Text current ''status'') \<in> refund_row_statuses"
    "if Text current ''id'' \<in> rr_stripe ` set (db_refunds (st_db s))
     then x \<in> set (db_refunds (st_db s)) \<and> rr_stripe x = Text current ''id''
     else x = observed_refund ident gift current amount now \<and> ident \<notin> rr_id ` set (db_refunds (st_db s))"
    "rr_gift x = gr_id gift" "rr_amount x = amount"
    "st_db t = st_db s\<lparr>db_ids := ids,
       db_refunds := put_refund (observed_refund ident gift current amount now) (db_refunds (st_db s)),
       db_refund_obs := db_refund_obs (st_db s) @ [\<lparr>ro_id = obs, ro_refund = rr_id x, ro_event = ev, ro_action = act,
          ro_status = ToUpper (Text current ''status''), ro_observed = now\<rparr>]\<rparr>"
    "succeeded_refunds (st_db t) (gr_id gift) \<le> gr_amount gift"
proof -
  from assms(1) obtain amount ident ids d1 x d2 v obs ids2 where
    amount: "facts_Int current ''amount'' = Inr amount" "0 < amount" "amount \<le> gr_amount gift"
    and ins: "q_InsertRefund (observed_refund ident gift current amount now) (st_db s\<lparr>db_ids := ids\<rparr>) = Inr d1"
    and look: "one_row (\<lambda>r. rr_stripe r = Text current ''id'') (db_refunds d1) = Inr x"
    and x: "rr_gift x = gr_id gift" "rr_amount x = amount"
    and upd: "q_UpdateRefund (rr_id x) (ToUpper (Text current ''status'')) now d1 = Inr d2"
    and status: "ToUpper (Text current ''status'') \<in> refund_row_statuses"
    and total: "refund_total (gr_amount gift) 0
       (map rr_amount (filter (\<lambda>r. rr_gift r = gr_id gift \<and> rr_status r = ''SUCCEEDED'') (db_refunds d2))) = Inr v"
    and obs: "q_InsertRefundObservation \<lparr>ro_id = obs, ro_refund = rr_id x, ro_event = ev, ro_action = act,
        ro_status = ToUpper (Text current ''status''), ro_observed = now\<rparr> (d2\<lparr>db_ids := ids2\<rparr>) = Inr (st_db t)"
    by (rule recordRefund_steps)
  let ?r = "observed_refund ident gift current amount now"
  have r: "rr_stripe ?r = Text current ''id''" "rr_status ?r = ToUpper (Text current ''status'')" "rr_observed ?r = now"
    "rr_id ?r = ident" by (simp_all add: observed_refund_def)
  note steps = put_refund_steps[of "st_db s\<lparr>db_ids := ids\<rparr>" ?r d1 x d2]
  have put: "d2 = st_db s\<lparr>db_ids := ids, db_refunds := put_refund ?r (db_refunds (st_db s))\<rparr>"
      "if Text current ''id'' \<in> rr_stripe ` set (db_refunds (st_db s))
       then x \<in> set (db_refunds (st_db s)) \<and> rr_stripe x = Text current ''id''
       else x = ?r \<and> ident \<notin> rr_id ` set (db_refunds (st_db s))"
    using steps keys ins look upd by (simp_all add: r cong: if_cong)
  have t: "st_db t = st_db s\<lparr>db_ids := ids2, db_refunds := put_refund ?r (db_refunds (st_db s)),
       db_refund_obs := db_refund_obs (st_db s) @ [\<lparr>ro_id = obs, ro_refund = rr_id x, ro_event = ev, ro_action = act,
          ro_status = ToUpper (Text current ''status''), ro_observed = now\<rparr>]\<rparr>"
    using InsertRefundObservation_Inr[OF obs] put(1) by simp
  have "succeeded_refunds (st_db t) (gr_id gift) \<le> gr_amount gift"
    using refund_total_Inr[OF total] amount by (simp add: succeeded_refunds_def t put(1))
  from that[OF amount status put(2) x t this] show thesis .
qed

lemma filter_update_rows_other:
  assumes "\<And>y. y \<in> set rows \<Longrightarrow> P y \<Longrightarrow> \<not> Q y \<and> \<not> Q (f y)"
  shows "filter Q (update_rows P f rows) = filter Q rows"
  using assms by (induction rows) (auto simp: update_rows_def)

lemma put_refund_other:
  assumes "\<And>y. y \<in> set rows \<Longrightarrow> rr_stripe y = rr_stripe r \<Longrightarrow> rr_gift y \<noteq> k" and "rr_gift r \<noteq> k"
  shows "filter (\<lambda>y. rr_gift y = k \<and> rr_status y = ''SUCCEEDED'') (put_refund r rows) =
    filter (\<lambda>y. rr_gift y = k \<and> rr_status y = ''SUCCEEDED'') rows"
proof (cases "rr_stripe r \<in> rr_stripe ` set rows")
  case True
  then show ?thesis unfolding put_refund_def using assms(1) by (simp add: filter_update_rows_other)
next
  case False
  then show ?thesis using assms(2) by (simp add: put_refund_def)
qed

lemma put_refund_keys:
  assumes "distinct (map rr_id rows)" and "distinct (map rr_stripe rows)"
    and "rr_stripe r \<notin> rr_stripe ` set rows \<longrightarrow> rr_id r \<notin> rr_id ` set rows"
  shows "distinct (map rr_id (put_refund r rows)) \<and> distinct (map rr_stripe (put_refund r rows))"
  using assms by (auto simp: put_refund_def)

lemma put_refund_all:
  assumes "list_all P rows" and "P r" and "\<And>y. P y \<Longrightarrow> P (y\<lparr>rr_status := rr_status r, rr_observed := rr_observed r\<rparr>)"
  shows "list_all P (put_refund r rows)"
  using assms by (auto simp: put_refund_def list_all_iff update_rows_def)

lemma recordRefund_ledger:
  assumes run: "recordRefund gift current ev act now s = (Inr u, t)"
    and ok: "ledger_ok (st_db s)" and gift: "gift \<in> set (db_gifts (st_db s))"
  shows "ledger_ok (st_db t)"
proof -
  let ?d = "st_db s"
  have keys: "distinct (map rr_id (db_refunds ?d))" "distinct (map rr_stripe (db_refunds ?d))"
    and each: "list_all (refund_of ?d) (db_refunds ?d)"
    and sums: "list_all (\<lambda>g. succeeded_refunds ?d (gr_id g) \<le> gr_amount g) (db_gifts ?d)"
    using ok by (simp_all add: ledger_ok_def refunds_ok_def)
  from recordRefund_Inr[OF run keys] obtain amount ident x obs ids where
    amount: "0 < amount" "amount \<le> gr_amount gift"
    and status: "ToUpper (Text current ''status'') \<in> refund_row_statuses"
    and x: "if Text current ''id'' \<in> rr_stripe ` set (db_refunds ?d)
       then x \<in> set (db_refunds ?d) \<and> rr_stripe x = Text current ''id''
       else x = observed_refund ident gift current amount now \<and> ident \<notin> rr_id ` set (db_refunds ?d)"
    and xg: "rr_gift x = gr_id gift"
    and t: "st_db t = ?d\<lparr>db_ids := ids,
       db_refunds := put_refund (observed_refund ident gift current amount now) (db_refunds ?d),
       db_refund_obs := db_refund_obs ?d @ [\<lparr>ro_id = obs, ro_refund = rr_id x, ro_event = ev, ro_action = act,
          ro_status = ToUpper (Text current ''status''), ro_observed = now\<rparr>]\<rparr>"
    and total: "succeeded_refunds (st_db t) (gr_id gift) \<le> gr_amount gift"
    by metis
  let ?r = "observed_refund ident gift current amount now"
  have r: "rr_stripe ?r = Text current ''id''" "rr_id ?r = ident" "rr_gift ?r = gr_id gift"
    "rr_status ?r = ToUpper (Text current ''status'')" by (simp_all add: observed_refund_def)
  have same: "rr_gift y = gr_id gift" if "y \<in> set (db_refunds ?d)" "rr_stripe y = rr_stripe ?r" for y
  proof -
    have "Text current ''id'' \<in> rr_stripe ` set (db_refunds ?d)" using that r(1) by (metis image_eqI)
    then have "x \<in> set (db_refunds ?d)" "rr_stripe x = rr_stripe y" using x that r(1) by simp_all
    then have "y = x" using that(1) keys(2) by (auto simp: distinct_map dest: inj_onD)
    then show ?thesis using xg by simp
  qed
  have "refund_of ?d ?r" using amount gift status
    by (auto simp: refund_of_def observed_refund_def)
  then have "list_all (refund_of ?d) (put_refund ?r (db_refunds ?d))"
    using each status by (intro put_refund_all) (auto simp: refund_of_def r)
  moreover have "succeeded_refunds (st_db t) (gr_id g) \<le> gr_amount g" if "g \<in> set (db_gifts ?d)" for g
  proof (cases "gr_id g = gr_id gift")
    case True
    then have "g = gift" using that gift ok by (auto simp: ledger_ok_def gifts_ok_def distinct_map inj_on_def)
    then show ?thesis using total by simp
  next
    case False
    then have "filter (\<lambda>y. rr_gift y = gr_id g \<and> rr_status y = ''SUCCEEDED'') (put_refund ?r (db_refunds ?d)) =
        filter (\<lambda>y. rr_gift y = gr_id g \<and> rr_status y = ''SUCCEEDED'') (db_refunds ?d)"
      using same r(3) by (intro put_refund_other) auto
    then show ?thesis using sums that by (simp add: succeeded_refunds_def t list_all_iff)
  qed
  ultimately show ?thesis
    using ok put_refund_keys[OF keys, of ?r] x
    by (simp add: t r ledger_ok_def gifts_ok_def periods_ok_def refunds_ok_def refund_of_def [abs_def]
        succeeded_refunds_def list_all_iff)
qed

section \<open>Properties of the ledger\<close>

lemma recordGift_steps:
  assumes "recordGift draft p now s = (Inr u, t)"
  obtains ident ids d1 g d2 where
    "db_ids (st_db s) = ident # ids"
    "q_InsertGift \<lparr>gr_id = ident, gr_donor = ck_donor draft, gr_checkout = ck_id draft, gr_object = pg_object p,
       gr_amount = pg_amount p, gr_currency = ''USD'', gr_frequency = ck_frequency draft, gr_paid_at = pg_paid p,
       gr_payment = Some (pg_payment p), gr_period = pg_period p,
       gr_referrer = fst (charged_attribution draft (pg_paid p)),
       gr_kind = snd (charged_attribution draft (pg_paid p))\<rparr> (st_db s\<lparr>db_ids := ids\<rparr>) = Inr d1"
    "one_row (\<lambda>r. gr_object r = pg_object p) (db_gifts d1) = Inr g"
    "gr_donor g = ck_donor draft" "gr_checkout g = ck_id draft" "gr_amount g = pg_amount p" "gr_frequency g = ck_frequency draft"
    "(gr_referrer g, gr_kind g) = charged_attribution draft (pg_paid p)"
    "q_EnrichGift (gr_id g) (Some (pg_payment p)) (pg_period p) d1 = Inr d2"
    "db_gifts (st_db t) = db_gifts d2" "ck_donor draft \<in> gr_donor ` set (db_gifts (st_db s)) \<longrightarrow> st_db t = d2"
proof -
  have emails: "keeps (\<lambda>d. db_gifts d = G) (queueLoginEmail email n now)" for email n G
  proof -
    have "keeps (\<lambda>d. db_gifts d = G) NewID" by (rule keepsI) auto
    moreover have "keeps (\<lambda>d. db_gifts d = G) (swrite (q_QueueLoginEmail r))" for r
      by (rule keeps_write) (auto simp: q_QueueLoginEmail_def Let_def split: if_splits)
    ultimately show ?thesis unfolding queueLoginEmail_def by (intro keeps_rules)
  qed
  have last: "keeps (\<lambda>d. db_gifts d = G) (if c then queueLoginEmail email n now else sreturn ())" for c email n G
    by (intro keeps_if keeps_return emails)
  have donor: "don_id x = ident" if "q_LockDonor ident d = Inr x" for ident d x
    using that by (auto simp: q_LockDonor_def one_row_Inr find_Some_iff)
  have known: "had = True" if "q_HasGift who d = Inr had" "who \<in> gr_donor ` set (db_gifts d)" for who d had
    using that by (auto simp: q_HasGift_def list_ex_iff)
  obtain referrer kind where attr: "charged_attribution draft (pg_paid p) = (referrer, kind)" by fastforce
  obtain who had ident ids d1 g d2 where who: "q_LockDonor (ck_donor draft) (st_db s) = Inr who" and had: "q_HasGift (don_id who) (st_db s) = Inr had"
    and ids: "db_ids (st_db s) = ident # ids"
    and ins: "q_InsertGift \<lparr>gr_id = ident, gr_donor = don_id who, gr_checkout = ck_id draft, gr_object = pg_object p,
       gr_amount = pg_amount p, gr_currency = ''USD'', gr_frequency = ck_frequency draft, gr_paid_at = pg_paid p,
       gr_payment = Some (pg_payment p), gr_period = pg_period p, gr_referrer = referrer, gr_kind = kind\<rparr> (st_db s\<lparr>db_ids := ids\<rparr>) = Inr d1"
    and g: "one_row (\<lambda>r. gr_object r = pg_object p) (db_gifts d1) = Inr g"
    and same: "gr_donor g = don_id who" "gr_checkout g = ck_id draft" "gr_amount g = pg_amount p" "gr_frequency g = ck_frequency draft"
      "gr_referrer g = referrer" "gr_kind g = kind"
    and enrich: "q_EnrichGift (gr_id g) (Some (pg_payment p)) (pg_period p) d1 = Inr d2"
    and rest: "(if \<not> had \<and> don_claimed_at who = None then queueLoginEmail (don_email who) [] now else sreturn ()) (s\<lparr>st_db := d2\<rparr>) = (Inr u, t)"
    using assms unfolding recordGift_def Let_def q_GiftByStripeObject_def attr prod.case
    by (elim sbindE) (auto intro!: that)
  have "db_gifts (st_db t) = db_gifts d2" using keepsD[OF last, OF refl rest] by simp
  moreover have "st_db t = d2" if "ck_donor draft \<in> gr_donor ` set (db_gifts (st_db s))"
    using rest known[OF had] donor[OF who] that by (auto simp: sreturn_def)
  ultimately show thesis
    using donor[OF who] ids ins g same enrich by (intro that[of ident ids d1 g d2]) (simp_all add: attr)
qed

lemma EnrichGift_Inr:
  "q_EnrichGift ident payment period d = Inr d' \<Longrightarrow>
     d' = d\<lparr>db_gifts := update_rows (\<lambda>r. gr_id r = ident) (\<lambda>r. r\<lparr>gr_payment := payment, gr_period := period\<rparr>) (db_gifts d)\<rparr>"
  by (simp add: q_EnrichGift_def split: if_splits)

lemma update_rows_idem:
  assumes "\<And>r. P (f r) = P r" and "\<And>r. f (f r) = f r"
  shows "update_rows P f (update_rows P f rows) = update_rows P f rows"
  using assms by (simp add: update_rows_def)

lemma run_fst: "fst r = Inr a \<Longrightarrow> r = (Inr a, snd r)"
  by (cases r) simp

text \<open>What a delivery does to the gifts, and that a donor who has given gets nothing else.\<close>

lemma recordGift_gifts:
  assumes "recordGift draft p now s = (Inr u, t)"
  obtains g gs where
    "db_gifts (st_db t) = update_rows (\<lambda>r. gr_id r = gr_id g)
       (\<lambda>r. r\<lparr>gr_payment := Some (pg_payment p), gr_period := pg_period p\<rparr>) gs"
    "find (\<lambda>r. gr_object r = pg_object p) gs = Some g"
    "gr_donor g = ck_donor draft" "gr_checkout g = ck_id draft" "gr_amount g = pg_amount p" "gr_frequency g = ck_frequency draft"
    "(gr_referrer g, gr_kind g) = charged_attribution draft (pg_paid p)"
    "pg_object p \<in> gr_object ` set (db_gifts (st_db s)) \<longrightarrow> gs = db_gifts (st_db s)"
    "distinct (map gr_object (db_gifts (st_db s))) \<longrightarrow> distinct (map gr_object gs)"
    "ck_donor draft \<in> gr_donor ` set (db_gifts (st_db s)) \<longrightarrow>
       (\<exists>ids. st_db t = (st_db s)\<lparr>db_ids := ids, db_gifts := db_gifts (st_db t)\<rparr>)"
proof (rule recordGift_steps[OF assms], goal_cases)
  case (1 ident ids d1 g d2)
  note grows = gift_table.ins_rows[OF 1(3)] gift_table.ins_distinct[OF 1(3)]
  have d1: "d1 = (st_db s)\<lparr>db_ids := ids, db_gifts := db_gifts d1\<rparr>" using 1(3) by (auto simp: q_InsertGift_def rbind_eq_Inr)
  have d2: "d2 = d1\<lparr>db_gifts := db_gifts d2\<rparr>" using EnrichGift_Inr[OF 1(10)] by simp
  show ?case
  proof (rule that[of g "db_gifts d1"])
    show "db_gifts (st_db t) = update_rows (\<lambda>r. gr_id r = gr_id g)
       (\<lambda>r. r\<lparr>gr_payment := Some (pg_payment p), gr_period := pg_period p\<rparr>) (db_gifts d1)"
      using EnrichGift_Inr[OF 1(10)] 1(11) by simp
    show "find (\<lambda>r. gr_object r = pg_object p) (db_gifts d1) = Some g" using 1(4) by (simp add: one_row_Inr)
    show "ck_donor draft \<in> gr_donor ` set (db_gifts (st_db s)) \<longrightarrow>
       (\<exists>ids. st_db t = (st_db s)\<lparr>db_ids := ids, db_gifts := db_gifts (st_db t)\<rparr>)"
    proof
      assume "ck_donor draft \<in> gr_donor ` set (db_gifts (st_db s))"
      then have "st_db t = d2" using 1(12) by blast
      moreover have "d2 = (st_db s)\<lparr>db_ids := ids, db_gifts := db_gifts d2\<rparr>" by (subst d2, subst d1) simp
      ultimately show "\<exists>ids. st_db t = (st_db s)\<lparr>db_ids := ids, db_gifts := db_gifts (st_db t)\<rparr>" by metis
    qed
  qed (use 1(5-9) grows in simp_all)
qed

text \<open>
  C26. Recording a paid invoice is idempotent: when the same payment is delivered again, nothing in
  the database changes, up to the identifiers drawn for rows that were not needed; no second
  sign-in email is queued. Either delivery leaves exactly one gift for the processor object,
  the donor's, with the amount, frequency and checkout of the charge, the attribution as it
  stood when charged, and the payment intent and period the refunds and the streak find it by.
\<close>

theorem recordGift_redelivered:
  assumes "distinct (map gr_object (db_gifts (st_db s)))"
    and "recordGift draft p now s = (Inr u, t)" and "recordGift draft p now' t = (Inr v, w)"
  shows "(\<exists>ids. st_db w = (st_db t)\<lparr>db_ids := ids\<rparr>) \<and>
    (\<exists>g. {x \<in> set (db_gifts (st_db t)). gr_object x = pg_object p} = {g} \<and> gr_donor g = ck_donor draft \<and> gr_amount g = pg_amount p \<and>
       gr_frequency g = ck_frequency draft \<and> gr_checkout g = ck_id draft \<and>
       (gr_referrer g, gr_kind g) = charged_attribution draft (pg_paid p) \<and>
       gr_payment g = Some (pg_payment p) \<and> gr_period g = pg_period p)"
proof -
  let ?f = "\<lambda>r. r\<lparr>gr_payment := Some (pg_payment p), gr_period := pg_period p\<rparr>"
  obtain g gs where t: "db_gifts (st_db t) = update_rows (\<lambda>r. gr_id r = gr_id g) ?f gs"
    and g: "find (\<lambda>r. gr_object r = pg_object p) gs = Some g"
    and facts: "gr_donor g = ck_donor draft" "gr_checkout g = ck_id draft" "gr_amount g = pg_amount p" "gr_frequency g = ck_frequency draft"
      "(gr_referrer g, gr_kind g) = charged_attribution draft (pg_paid p)"
    and dist: "distinct (map gr_object gs)"
    by (rule recordGift_gifts[OF assms(2)]) (use assms(1) in \<open>blast intro: that\<close>)
  have gin: "g \<in> set gs" "gr_object g = pg_object p" using g by (auto simp: find_Some_iff)
  then have fin: "?f g \<in> set (db_gifts (st_db t))" by (force simp: t update_rows_def)
  have dt: "distinct (map gr_object (db_gifts (st_db t)))" using dist by (simp add: t)
  then have inj: "inj_on gr_object (set (db_gifts (st_db t)))" by (simp add: distinct_map)
  have only: "x = ?f g" if "x \<in> set (db_gifts (st_db t))" "gr_object x = pg_object p" for x
    using inj_onD[OF inj, of x "?f g"] that fin gin(2) by simp
  have known: "pg_object p \<in> gr_object ` set (db_gifts (st_db t))" "ck_donor draft \<in> gr_donor ` set (db_gifts (st_db t))"
    using imageI[OF fin, of gr_object] imageI[OF fin, of gr_donor] gin(2) facts(1) by simp_all
  obtain g' ids where w: "db_gifts (st_db w) = update_rows (\<lambda>r. gr_id r = gr_id g') ?f (db_gifts (st_db t))"
    and g': "find (\<lambda>r. gr_object r = pg_object p) (db_gifts (st_db t)) = Some g'"
    and rest: "st_db w = (st_db t)\<lparr>db_ids := ids, db_gifts := db_gifts (st_db w)\<rparr>"
    by (rule recordGift_gifts[OF assms(3)]) (use known in \<open>auto intro: that\<close>)
  have "g' \<in> set (db_gifts (st_db t)) \<and> gr_object g' = pg_object p" using g' by (auto simp: find_Some_iff)
  then have "gr_id g' = gr_id g" using only[of g'] by simp
  then have "db_gifts (st_db w) = db_gifts (st_db t)" by (simp add: w t update_rows_idem)
  then have "st_db w = (st_db t)\<lparr>db_ids := ids\<rparr>" using rest by simp
  moreover have "{x \<in> set (db_gifts (st_db t)). gr_object x = pg_object p} = {?f g}"
  proof (rule equalityI)
    show "{x \<in> set (db_gifts (st_db t)). gr_object x = pg_object p} \<subseteq> {?f g}" using only by blast
  qed (use fin gin(2) in simp)
  ultimately show ?thesis using facts by (intro conjI exI[of _ "?f g"] exI[of _ ids]) simp_all
qed

definition empty_rec :: recognition_db where
  "empty_rec = \<lparr>rt_grants = [], rt_resets = [], rt_retention = [], rt_observed = [], rt_badges = [], rt_corrections = [],
     rt_sessions = [], rt_pushes = [], rt_messages = [], rt_rules = no_rules\<rparr>"

definition empty_community :: community_db where
  "empty_community = \<lparr>cm_events = [], cm_places = [], cm_guests = [], cm_alerts = [], cm_exposures = [], cm_rankings = [],
     cm_preferences = [], cm_employees = []\<rparr>"

definition empty_account :: account_db where
  "empty_account = \<lparr>av_events = [], av_links = [], av_touches = [], av_company_touches = [], av_companies = [], av_partner_users = [],
     av_claims = [], av_journeys = [], av_cancellations = [], av_leases = []\<rparr>"

definition empty_db :: db where
  "empty_db = \<lparr>db_ids = [], db_donors = [], db_checkouts = [], db_attempts = [], db_reservations = [], db_gifts = [],
     db_periods = [], db_billing = [], db_refunds = [], db_refund_obs = [], db_changes = [], db_subscriptions = [],
     db_events = [], db_deletions = [], db_reversals = [], db_methods = [], db_devices = [], db_logins = [],
     db_updates = [], db_projections = [], db_rec = empty_rec, db_community = empty_community,
     db_staff = \<lparr>sd_staff = [], sd_sessions = [], sd_audit = []\<rparr>, db_account = empty_account\<rparr>"

definition sample_donor_row :: donor_row where
  "sample_donor_row = \<lparr>don_id = ''d1'', don_email = ''ann@dad.org'', don_claimed_at = None, don_disabled = False,
     don_timezone = None, don_city = None, don_zip = None,
     don_name = None, don_company = None\<rparr>"

definition sample_checkout :: checkout_row where
  "sample_checkout = \<lparr>ck_id = ''c1'', ck_donor = ''d1'', ck_amount = 500, ck_frequency = ''MONTHLY'',
     ck_referrer = Some ''d2'', ck_kind = Some ''LINK'', ck_expires = Some (of_unix 2000),
     ck_created = of_unix 900, ck_journey = None\<rparr>"

definition sample_paid :: paidGift where
  "sample_paid = \<lparr>pg_object = ''in_1'', pg_amount = 500, pg_paid = of_unix 1000, pg_payment = ''pi_1'',
     pg_period = Some ''p1''\<rparr>"

definition sample_st :: "unit st" where
  "sample_st = \<lparr>st_db = empty_db\<lparr>db_ids := [''i1'', ''i2'', ''i3'', ''i4''], db_donors := [sample_donor_row]\<rparr>,
     st_gw = (), st_seen = []\<rparr>"

theorem recordGift_redelivered_witness:
  "length (db_logins (st_db (snd (recordGift sample_checkout sample_paid 7 sample_st)))) = 1 \<and>
   db_logins (st_db (snd (recordGift sample_checkout sample_paid (9 + Hour) (snd (recordGift sample_checkout sample_paid 7 sample_st))))) =
   db_logins (st_db (snd (recordGift sample_checkout sample_paid 7 sample_st)))"
proof -
  have a: "distinct (map gr_object (db_gifts (st_db sample_st)))" by code_simp
  have b: "fst (recordGift sample_checkout sample_paid 7 sample_st) = Inr ()" by code_simp
  have c: "fst (recordGift sample_checkout sample_paid (9 + Hour) (snd (recordGift sample_checkout sample_paid 7 sample_st))) = Inr ()"
    by code_simp
  have d: "length (db_logins (st_db (snd (recordGift sample_checkout sample_paid 7 sample_st)))) = 1" by code_simp
  obtain ids where "st_db (snd (recordGift sample_checkout sample_paid (9 + Hour) (snd (recordGift sample_checkout sample_paid 7 sample_st)))) =
      (st_db (snd (recordGift sample_checkout sample_paid 7 sample_st)))\<lparr>db_ids := ids\<rparr>"
    using recordGift_redelivered[OF a run_fst[OF b] run_fst[OF c]] by blast
  then show ?thesis using d by simp
qed

text \<open>
  C25. Recording a refund stores the processor's current state and nothing else: the refund is in
  the table under its processor identifier, for the same gift and amount, with the processor's
  status observed now; every other refund, the gifts and the periods are as before; one
  observation is appended for it, with its source; and the succeeded refunds of the gift still
  do not exceed it.
\<close>

theorem recordRefund_exact:
  assumes "ledger_ok (st_db s)" and "recordRefund gift current ev act now s = (Inr u, t)"
  shows "\<exists>r obs. r \<in> set (db_refunds (st_db t)) \<and> rr_stripe r = Text current ''id'' \<and> rr_gift r = gr_id gift \<and>
    facts_Int current ''amount'' = Inr (rr_amount r) \<and> 0 < rr_amount r \<and>
    rr_status r = ToUpper (Text current ''status'') \<and> rr_observed r = now \<and>
    {x \<in> set (db_refunds (st_db t)). rr_stripe x \<noteq> rr_stripe r} = {x \<in> set (db_refunds (st_db s)). rr_stripe x \<noteq> rr_stripe r} \<and>
    db_gifts (st_db t) = db_gifts (st_db s) \<and> db_periods (st_db t) = db_periods (st_db s) \<and>
    db_refund_obs (st_db t) = db_refund_obs (st_db s) @ [\<lparr>ro_id = obs, ro_refund = rr_id r, ro_event = ev,
       ro_action = act, ro_status = rr_status r, ro_observed = now\<rparr>] \<and>
    succeeded_refunds (st_db t) (gr_id gift) \<le> gr_amount gift"
proof -
  let ?d = "st_db s"
  have keys: "distinct (map rr_id (db_refunds ?d))" "distinct (map rr_stripe (db_refunds ?d))"
    using assms(1) by (simp_all add: ledger_ok_def refunds_ok_def)
  from recordRefund_Inr[OF assms(2) keys] obtain amount ident x obs ids where
    amount: "facts_Int current ''amount'' = Inr amount" "0 < amount"
    and x: "if Text current ''id'' \<in> rr_stripe ` set (db_refunds ?d)
       then x \<in> set (db_refunds ?d) \<and> rr_stripe x = Text current ''id''
       else x = observed_refund ident gift current amount now \<and> ident \<notin> rr_id ` set (db_refunds ?d)"
    and xg: "rr_gift x = gr_id gift" "rr_amount x = amount"
    and t: "st_db t = ?d\<lparr>db_ids := ids,
       db_refunds := put_refund (observed_refund ident gift current amount now) (db_refunds ?d),
       db_refund_obs := db_refund_obs ?d @ [\<lparr>ro_id = obs, ro_refund = rr_id x, ro_event = ev, ro_action = act,
          ro_status = ToUpper (Text current ''status''), ro_observed = now\<rparr>]\<rparr>"
    and total: "succeeded_refunds (st_db t) (gr_id gift) \<le> gr_amount gift"
    by metis
  let ?r = "observed_refund ident gift current amount now"
  let ?x = "x\<lparr>rr_status := ToUpper (Text current ''status''), rr_observed := now\<rparr>"
  have r: "rr_stripe ?r = Text current ''id''" "rr_status ?r = ToUpper (Text current ''status'')" "rr_observed ?r = now"
    by (simp_all add: observed_refund_def)
  have "?x \<in> set (put_refund ?r (db_refunds ?d)) \<and> rr_stripe ?x = Text current ''id''"
  proof (cases "Text current ''id'' \<in> rr_stripe ` set (db_refunds ?d)")
    case True
    then show ?thesis using x by (force simp: put_refund_def r update_rows_def)
  next
    case False
    then have "?x = ?r" using x by (simp add: observed_refund_def)
    then show ?thesis using False r by (simp add: put_refund_def)
  qed
  moreover have "{y \<in> set (put_refund ?r (db_refunds ?d)). rr_stripe y \<noteq> Text current ''id''} =
      {y \<in> set (db_refunds ?d). rr_stripe y \<noteq> Text current ''id''}"
    by (auto simp: put_refund_def r update_rows_def)
  ultimately show ?thesis
    using amount xg total by (intro exI[of _ ?x] exI[of _ obs]) (simp add: t)
qed

lemma recordPeriod_steps:
  assumes "recordPeriod draft data expected paid s = (Inr i, t)"
  obtains ident ids d1 p where
    "q_InsertBillingPeriod \<lparr>pr_id = ident, pr_donor = ck_donor draft, pr_checkout = ck_id draft,
       pr_invoice = Text data ''id'', pr_subscription = Text data ''subscription'', pr_due = pr_due p, pr_ends = pr_ends p,
       pr_status = ''FAILED''\<rparr> (st_db s\<lparr>db_ids := ids\<rparr>) = Inr d1"
    "one_row (\<lambda>r. pr_invoice r = Text data ''id'') (db_periods d1) = Inr p"
    "pr_checkout p = ck_id draft" "pr_subscription p = Text data ''subscription''"
    "i = pr_id p"
    "db_periods (st_db t) = (if paid then update_rows (\<lambda>r. pr_id r = i) (\<lambda>r. r\<lparr>pr_status := ''PAID''\<rparr>) (db_periods d1)
       else db_periods d1)"
    "invoiceBounds data = Inr (pr_due p, pr_ends p)"
proof -
  obtain start stop where bounds: "invoiceBounds data = Inr (start, stop)"
    using assms by (auto simp: recordPeriod_def sbind_Inr)
  have run: "sbind (slift (Inr a)) f = f a" for a f by (rule ext) (simp add: sbind_def slift_def)
  show thesis
    using assms
    unfolding recordPeriod_def Let_def q_BillingPeriodByInvoice_def q_MarkPeriodPaid_def bounds of_facts_simps run prod.case
    by (elim sbindE) (cases paid; clarsimp simp: sbind_Inr; rule that; (assumption | simp add: bounds))
qed

text \<open>
  An invoice delivered again names the same billing period: the second delivery returns the
  identifier of the first and adds no period. The period belongs to the checkout, has the
  bounds of the invoice's line and spans between 27 and 32 days, and a later failed delivery
  never unmarks a paid period.
\<close>

lemma recordPeriod_redelivered:
  assumes "distinct (map pr_invoice (db_periods (st_db s)))"
    and "recordPeriod draft data expected paid s = (Inr i, t)" and "recordPeriod draft data expected' paid' t = (Inr j, w)"
  shows "j = i \<and>
    db_periods (st_db w) = (if paid' then update_rows (\<lambda>r. pr_id r = i) (\<lambda>r. r\<lparr>pr_status := ''PAID''\<rparr>) (db_periods (st_db t))
      else db_periods (st_db t)) \<and>
    (\<exists>p. {x \<in> set (db_periods (st_db t)). pr_invoice x = Text data ''id''} = {p} \<and> pr_id p = i \<and>
      pr_checkout p = ck_id draft \<and> invoiceBounds data = Inr (pr_due p, pr_ends p) \<and> month_long p \<and>
      (paid \<longrightarrow> pr_status p = ''PAID''))"
proof -
  let ?f = "\<lambda>r. r\<lparr>pr_status := ''PAID''\<rparr>"
  from assms(2) obtain ident ids d1 p where
    ins: "q_InsertBillingPeriod \<lparr>pr_id = ident, pr_donor = ck_donor draft, pr_checkout = ck_id draft,
       pr_invoice = Text data ''id'', pr_subscription = Text data ''subscription'', pr_due = pr_due p, pr_ends = pr_ends p,
       pr_status = ''FAILED''\<rparr> (st_db s\<lparr>db_ids := ids\<rparr>) = Inr d1"
    and p: "one_row (\<lambda>r. pr_invoice r = Text data ''id'') (db_periods d1) = Inr p"
    and facts: "pr_checkout p = ck_id draft" "i = pr_id p"
    and t: "db_periods (st_db t) = (if paid then update_rows (\<lambda>r. pr_id r = i) ?f (db_periods d1) else db_periods d1)"
    and bounds: "invoiceBounds data = Inr (pr_due p, pr_ends p)"
    by (rule recordPeriod_steps)
  have pin: "p \<in> set (db_periods d1)" "pr_invoice p = Text data ''id''" using one_row_in[OF p] by auto
  have "distinct (map pr_invoice (db_periods (st_db t)))"
    using period_table.ins_distinct[OF ins] assms(1) by (simp add: t)
  then have inj: "inj_on pr_invoice (set (db_periods (st_db t)))" by (simp add: distinct_map)
  let ?p = "if paid then ?f p else p"
  have ptin: "?p \<in> set (db_periods (st_db t))" "pr_invoice ?p = Text data ''id''" "pr_id ?p = i"
    using pin facts by (auto simp: t update_rows_def)
  have only: "x = ?p" if "x \<in> set (db_periods (st_db t))" "pr_invoice x = Text data ''id''" for x
    using inj_onD[OF inj, of x ?p] that ptin by simp
  from assms(3) obtain ident' ids' d2 p' where
    ins': "q_InsertBillingPeriod \<lparr>pr_id = ident', pr_donor = ck_donor draft, pr_checkout = ck_id draft,
       pr_invoice = Text data ''id'', pr_subscription = Text data ''subscription'', pr_due = pr_due p', pr_ends = pr_ends p',
       pr_status = ''FAILED''\<rparr> (st_db t\<lparr>db_ids := ids'\<rparr>) = Inr d2"
    and p': "one_row (\<lambda>r. pr_invoice r = Text data ''id'') (db_periods d2) = Inr p'"
    and j: "j = pr_id p'"
    and w: "db_periods (st_db w) = (if paid' then update_rows (\<lambda>r. pr_id r = j) ?f (db_periods d2) else db_periods d2)"
    by (rule recordPeriod_steps)
  have "Text data ''id'' \<in> pr_invoice ` set (db_periods (st_db t))" using imageI[OF ptin(1), of pr_invoice] ptin(2) by simp
  then have d2: "db_periods d2 = db_periods (st_db t)" using period_table.ins_rows[OF ins'] by simp
  have "p' = ?p" using one_row_in[OF p'] only[of p'] d2 by simp
  then have ji: "j = i" using j ptin(3) by simp
  moreover have "{x \<in> set (db_periods (st_db t)). pr_invoice x = Text data ''id''} = {?p}"
  proof (rule equalityI)
    show "{x \<in> set (db_periods (st_db t)). pr_invoice x = Text data ''id''} \<subseteq> {?p}" using only by blast
  qed (use ptin in simp)
  moreover have "month_long ?p" using invoiceBounds_bounds[OF bounds] facts by (simp add: month_long_def)
  ultimately show ?thesis
    using w d2 facts bounds by (intro conjI exI[of _ ?p]) simp_all
qed

section \<open>Sample ledgers\<close>

definition sample_gift_row :: gift_row where
  "sample_gift_row = \<lparr>gr_id = ''g1'', gr_donor = ''d1'', gr_checkout = ''c1'', gr_object = ''in_1'', gr_amount = 500,
     gr_currency = ''USD'', gr_frequency = ''MONTHLY'', gr_paid_at = of_unix 1000, gr_payment = Some ''pi_1'',
     gr_period = Some ''p1'', gr_referrer = Some ''d2'', gr_kind = Some ''LINK''\<rparr>"

definition sample_gift_st :: "unit st" where
  "sample_gift_st = sample_st\<lparr>st_db := (st_db sample_st)\<lparr>db_gifts := [sample_gift_row]\<rparr>\<rparr>"

definition sample_refund_object :: Object where
  "sample_refund_object = [(''id'', JStr ''re_1''), (''amount'', JNum ''200''), (''status'', JStr ''succeeded''),
     (''payment_intent'', JStr ''pi_1''), (''currency'', JStr ''usd'')]"

definition sample_invoice :: Object where
  "sample_invoice = [(''id'', JStr ''in_1''), (''subscription'', JStr ''sub_1''), (''lines_complete'', JBool True),
     (''lines'', JArr [JObj [(''period'', JObj [(''start'', JNum ''1000''), (''end'', JNum ''2679400'')]),
        (''amount'', JNum ''500''), (''parent_type'', JStr ''subscription_item_details''), (''proration'', JBool False),
        (''subscription'', JStr ''sub_1''), (''currency'', JStr ''usd'')]])]"

theorem recordRefund_exact_witness:
  "succeeded_refunds (st_db (snd (recordRefund sample_gift_row sample_refund_object (Some ''e1'') None (of_unix 1500) sample_gift_st)))
     ''g1'' \<le> 500 \<and>
   fst (recordRefund sample_gift_row sample_refund_object (Some ''e1'') None (of_unix 1500) sample_gift_st) = Inr ()"
proof -
  have a: "ledger_ok (st_db sample_gift_st)"
    by (simp add: sample_gift_st_def sample_st_def empty_db_def ledger_ok_def gifts_ok_def periods_ok_def refunds_ok_def
        sample_gift_row_def gift_row_checks_def succeeded_refunds_def inj_on_def)
  have b: "fst (recordRefund sample_gift_row sample_refund_object (Some ''e1'') None (of_unix 1500) sample_gift_st) = Inr ()"
    by code_simp
  have "gr_id sample_gift_row = ''g1'' \<and> gr_amount sample_gift_row = 500" by (simp add: sample_gift_row_def)
  then show ?thesis using recordRefund_exact[OF a run_fst[OF b]] b by auto
qed

end
