(* ===== verification/Projection_Queries.thy ===== *)
theory Projection_Queries
  imports Projection_Facts Ledger
begin

text \<open>
  The statements of the recognition projection (internal/store/queries/financial.sql.go,
  outbox.sql.go, badges.sql.go, analytics.sql.go, referral_signals.sql.go): what they select and
  how they change the tables, with the constraints of the schema that can refuse a write.
\<close>

section \<open>History\<close>

definition q_GiftHistory :: "string \<Rightarrow> db \<Rightarrow> store_error + (gift_row \<times> time option) list" where
  "q_GiftHistory donor d =
     Inr [(g, ck_expires c). g \<leftarrow> db_gifts d, c \<leftarrow> db_checkouts d, ck_id c = gr_checkout g, gr_donor g = donor]"

definition q_RefundHistory :: "string \<Rightarrow> db \<Rightarrow> store_error + (refund_row \<times> string) list" where
  "q_RefundHistory donor d =
     Inr [(r, gr_object g). r \<leftarrow> db_refunds d, g \<leftarrow> db_gifts d, gr_id g = rr_gift r, gr_donor g = donor]"

definition q_PeriodHistory :: "string \<Rightarrow> db \<Rightarrow> store_error + period_row list" where
  "q_PeriodHistory donor d = Inr (filter (\<lambda>p. pr_donor p = donor) (db_periods d))"

definition q_RefundObservations :: "string \<Rightarrow> time \<Rightarrow> db \<Rightarrow> store_error + RefundObservationsRow list" where
  "q_RefundObservations donor asOf d =
     Inr (map snd (sort_key fst
       [((ro_observed x, ro_id x), \<lparr>o_StripeRefundID = rr_stripe r, o_Status = ro_status x, o_ObservedAt = ro_observed x\<rparr>).
          x \<leftarrow> db_refund_obs d, r \<leftarrow> db_refunds d, rr_id r = ro_refund x, g \<leftarrow> db_gifts d, gr_id g = rr_gift r,
          gr_donor g = donor, ro_observed x \<le> asOf]))"

definition q_StoppedPeriods :: "string \<Rightarrow> db \<Rightarrow> store_error + time list" where
  "q_StoppedPeriods donor d = Inr [the (sb_stops s). s \<leftarrow> db_subscriptions d, sb_donor s = donor, sb_stops s \<noteq> None]"

definition q_SharedSignalDonors :: "string \<Rightarrow> db \<Rightarrow> store_error + string list" where
  "q_SharedSignalDonors donor d = Inr (remdups
     ([pm_donor other. mine \<leftarrow> db_methods d, other \<leftarrow> db_methods d, pm_donor mine = donor,
         pm_fingerprint other = pm_fingerprint mine, pm_donor other \<noteq> pm_donor mine]
      @ [dv_donor other. mine \<leftarrow> db_devices d, other \<leftarrow> db_devices d, dv_donor mine = donor,
           dv_hash other = dv_hash mine, dv_donor other \<noteq> dv_donor mine]))"

definition q_FoundingClaimed :: "string \<Rightarrow> db \<Rightarrow> store_error + bool" where
  "q_FoundingClaimed donor d = Inr (donor \<in> set (rt_grants (db_rec d)))"

definition q_LatestStreakReset :: "string \<Rightarrow> time \<Rightarrow> db \<Rightarrow> store_error + time option" where
  "q_LatestStreakReset donor asOf d =
     (let resets = [sr_at r. r \<leftarrow> rt_resets (db_rec d), sr_donor r = donor, sr_at r \<le> asOf]
      in Inr (if resets = [] then None else Some (foldr max resets (hd resets))))"

section \<open>The projection row\<close>

definition has_donor :: "string \<Rightarrow> db \<Rightarrow> bool" where
  "has_donor donor d = list_ex (\<lambda>r. don_id r = donor) (db_donors d)"

definition in_int64 :: "int \<Rightarrow> bool" where "in_int64 n \<longleftrightarrow> - MaxInt64 - 1 \<le> n \<and> n \<le> MaxInt64"

definition seeded_projection :: "string \<Rightarrow> string \<Rightarrow> time \<Rightarrow> projection_row" where
  "seeded_projection ident donor computed = \<lparr>mp_id = ident, mp_donor = donor, mp_referrer = None, mp_kind = None, mp_first = None,
     mp_net = None, mp_founding = None, mp_best = 0, mp_current = None, mp_at_risk = False, mp_grace = None,
     mp_computed = computed, mp_next = computed, mp_rules = 0, mp_failures = 0, mp_error = None, mp_link_count = 0,
     mp_irl_count = 0, mp_link_minor = 0, mp_irl_minor = 0, mp_since = None, mp_monthly = 0, mp_active = False\<rparr>"

definition q_SeedProjection :: "string \<Rightarrow> string \<Rightarrow> time \<Rightarrow> db \<Rightarrow> store_error + db" where
  "q_SeedProjection ident donor computed d =
     (if list_ex (\<lambda>r. mp_donor r = donor) (db_projections d) then Inr d
      else if list_ex (\<lambda>r. mp_id r = ident) (db_projections d) \<or> \<not> has_donor donor d then Inl ErrConstraint
      else Inr (d\<lparr>db_projections := db_projections d @ [seeded_projection ident donor computed]\<rparr>))"

definition q_LockProjection :: "string \<Rightarrow> db \<Rightarrow> store_error + projection_row" where
  "q_LockProjection donor d = one_row (\<lambda>r. mp_donor r = donor) (db_projections d)"

definition projection_checks :: "db \<Rightarrow> projection_row \<Rightarrow> bool" where
  "projection_checks d r \<longleftrightarrow>
     (case mp_net r of None \<Rightarrow> True | Some n \<Rightarrow> n \<ge> 0) \<and> mp_best r \<ge> 0 \<and>
     (case mp_current r of None \<Rightarrow> True | Some n \<Rightarrow> n \<ge> 0) \<and> mp_monthly r \<ge> 0 \<and>
     (case mp_referrer r of
        None \<Rightarrow> mp_kind r = None
      | Some ref \<Rightarrow> mp_kind r \<in> {Some ''LINK'', Some ''IRL''} \<and> has_donor ref d) \<and>
     has_donor (mp_donor r) d"

definition q_SaveProjection :: "projection_row \<Rightarrow> db \<Rightarrow> store_error + db" where
  "q_SaveProjection r d =
     (let row = r\<lparr>mp_failures := 0, mp_error := None\<rparr>
      in if \<not> projection_checks d r then Inl ErrConstraint
         else if list_ex (\<lambda>x. mp_donor x = mp_donor r) (db_projections d)
         then Inr (d\<lparr>db_projections := update_rows (\<lambda>x. mp_donor x = mp_donor r) (\<lambda>x. row\<lparr>mp_id := mp_id x\<rparr>) (db_projections d)\<rparr>)
         else if list_ex (\<lambda>x. mp_id x = mp_id r) (db_projections d) then Inl ErrConstraint
         else Inr (d\<lparr>db_projections := db_projections d @ [row]\<rparr>))"

definition net_or_0 :: "projection_row \<Rightarrow> int" where
  "net_or_0 r = (case mp_net r of None \<Rightarrow> 0 | Some n \<Rightarrow> n)"

text \<open>\<open>count(*) FILTER\<close> and \<open>sum FILTER\<close> over the rows a donor referred.\<close>

definition q_ReferralTotalsFromReferred :: "string \<Rightarrow> db \<Rightarrow> store_error + (int \<times> int \<times> int \<times> int)" where
  "q_ReferralTotalsFromReferred referrer d =
     (let rows = filter (\<lambda>r. mp_referrer r = Some referrer) (db_projections d);
          counted = (\<lambda>kind. int (length (filter (\<lambda>r. mp_kind r = Some kind \<and> net_or_0 r > 0) rows)));
          summed = (\<lambda>kind. sum_list (map net_or_0 (filter (\<lambda>r. mp_kind r = Some kind) rows)))
      in if in_int64 (summed ''LINK'') \<and> in_int64 (summed ''IRL'')
         then Inr (counted ''LINK'', counted ''IRL'', summed ''LINK'', summed ''IRL'') else Inl ErrData)"

record referral_delta =
  rd_link_count :: int
  rd_irl_count :: int
  rd_link_minor :: int
  rd_irl_minor :: int

definition add_delta :: "referral_delta \<Rightarrow> projection_row \<Rightarrow> projection_row" where
  "add_delta a r = r\<lparr>mp_link_count := mp_link_count r + rd_link_count a, mp_irl_count := mp_irl_count r + rd_irl_count a,
     mp_link_minor := mp_link_minor r + rd_link_minor a, mp_irl_minor := mp_irl_minor r + rd_irl_minor a\<rparr>"

definition q_ApplyReferralDelta :: "string \<Rightarrow> referral_delta \<Rightarrow> db \<Rightarrow> store_error + ((int \<times> int) \<times> db)" where
  "q_ApplyReferralDelta donor a d =
     rbind (one_row (\<lambda>r. mp_donor r = donor) (db_projections d)) (\<lambda>r.
       let r = add_delta a r
       in if in_int64 (mp_link_count r) \<and> in_int64 (mp_irl_count r) \<and> in_int64 (mp_link_minor r) \<and> in_int64 (mp_irl_minor r)
          then Inr ((mp_link_count r, mp_irl_count r),
            d\<lparr>db_projections := update_rows (\<lambda>x. mp_donor x = donor) (add_delta a) (db_projections d)\<rparr>)
          else Inl ErrData)"

definition q_DeferProjection :: "string \<Rightarrow> string \<Rightarrow> time \<Rightarrow> int \<Rightarrow> db \<Rightarrow> store_error + db" where
  "q_DeferProjection donor failure asOf rules d =
     Inr (d\<lparr>db_projections := update_rows (\<lambda>r. mp_donor r = donor)
       (\<lambda>r. r\<lparr>mp_failures := mp_failures r + 1, mp_error := Some failure, mp_rules := rules,
              mp_next := asOf + min (2 ^ nat (mp_failures r) * (5 * Minute)) (24 * Hour)\<rparr>) (db_projections d)\<rparr>)"

text \<open>\<open>FOR NO KEY UPDATE OF d SKIP LOCKED\<close>: donors another transaction holds are passed over.\<close>

definition q_DueProjectionDonors :: "time \<Rightarrow> nat \<Rightarrow> string list \<Rightarrow> db \<Rightarrow> store_error + string list" where
  "q_DueProjectionDonors asOf batch locked d =
     Inr (take batch (map mp_donor (sort_key mp_next
       (filter (\<lambda>p. mp_next p \<le> asOf \<and> has_donor (mp_donor p) d \<and> mp_donor p \<notin> set locked) (db_projections d)))))"

definition q_OutdatedProjectionDonors :: "int \<Rightarrow> time \<Rightarrow> nat \<Rightarrow> string list \<Rightarrow> db \<Rightarrow> store_error + string list" where
  "q_OutdatedProjectionDonors rules computed batch locked d =
     Inr (take batch (map mp_donor
       (filter (\<lambda>p. mp_rules p < rules \<and> mp_computed p \<le> computed \<and> has_donor (mp_donor p) d \<and> mp_donor p \<notin> set locked)
         (db_projections d))))"

section \<open>What is recorded beside it\<close>

definition q_SaveRetentionMilestone :: "retention_row \<Rightarrow> db \<Rightarrow> store_error + db" where
  "q_SaveRetentionMilestone r d =
     (let R = db_rec d; same = (\<lambda>x. rm_donor x = rm_donor r \<and> rm_days x = rm_days r)
      in if rm_days r \<notin> {30, 90, 180, 365} \<or> \<not> has_donor (rm_donor r) d then Inl ErrConstraint
         else Inr (d\<lparr>db_rec := R\<lparr>rt_retention :=
           (if list_ex same (rt_retention R) then update_rows same (\<lambda>_. r) (rt_retention R) else rt_retention R @ [r])\<rparr>\<rparr>))"

definition q_InsertObservedEvent :: "observed_row \<Rightarrow> db \<Rightarrow> store_error + db" where
  "q_InsertObservedEvent r d =
     (let R = db_rec d
      in if list_ex (\<lambda>x. ob_id x = ob_id r \<or> ob_key x = ob_key r) (rt_observed R) then Inr d
         else if \<not> has_donor (ob_donor r) d then Inl ErrConstraint
         else Inr (d\<lparr>db_rec := R\<lparr>rt_observed := rt_observed R @ [r]\<rparr>\<rparr>))"

definition q_EarnBadge :: "earned_row \<Rightarrow> db \<Rightarrow> store_error + (int \<times> db)" where
  "q_EarnBadge r d =
     (let R = db_rec d
      in if eb_city r \<noteq> None \<and> eb_code r \<noteq> ''CITY50'' then Inl ErrConstraint
         else if list_ex (\<lambda>x. eb_donor x = eb_donor r \<and> eb_code x = eb_code r) (rt_badges R) then Inr (0, d)
         else if \<not> has_donor (eb_donor r) d then Inl ErrConstraint
         else Inr (1, d\<lparr>db_rec := R\<lparr>rt_badges := rt_badges R @ [r]\<rparr>\<rparr>))"

definition live_device :: "string \<Rightarrow> time \<Rightarrow> recognition_db \<Rightarrow> bool" where
  "live_device donor asOf R = list_ex (\<lambda>s. se_donor s = donor \<and> se_push s \<noteq> None \<and>
     (case se_refresh s of None \<Rightarrow> se_expires s | Some t \<Rightarrow> t) > asOf) (rt_sessions R)"

definition q_QueueBadgePush :: "string \<Rightarrow> string \<Rightarrow> time \<Rightarrow> time \<Rightarrow> db \<Rightarrow> store_error + db" where
  "q_QueueBadgePush donor code asOf expires d =
     (let R = db_rec d
      in if \<not> live_device donor asOf R then Inr d
         else case db_ids d of
           [] \<Rightarrow> Inl ErrRandom
         | i # is \<Rightarrow>
             let r = \<lparr>pn_id = i, pn_donor = donor, pn_category = ''BADGE_EARNED'', pn_key = ''push:badge:'' @ donor @ '':'' @ code,
                      pn_context = JObj [(''code'', JStr code)], pn_available = asOf, pn_expires = expires\<rparr>
             in rbind (insert_row (has_donor donor d) (\<lambda>x. pn_key x = pn_key r) (\<lambda>x. pn_id x = i) r (rt_pushes R))
                  (\<lambda>rows. Inr (d\<lparr>db_ids := is, db_rec := R\<lparr>rt_pushes := rows\<rparr>\<rparr>)))"

definition q_InsertReferralCorrection :: "correction_row \<Rightarrow> db \<Rightarrow> store_error + db" where
  "q_InsertReferralCorrection r d =
     (let R = db_rec d;
          side = (\<lambda>ref kind. (ref = None) = (kind = None) \<and> kind \<in> {None, Some ''LINK'', Some ''IRL''} \<and>
                    (case ref of None \<Rightarrow> True | Some x \<Rightarrow> has_donor x d))
      in if side (rc_old_referrer r) (rc_old_kind r) \<and> side (rc_new_referrer r) (rc_new_kind r) \<and> has_donor (rc_donor r) d
         then Inr (d\<lparr>db_rec := R\<lparr>rt_corrections := rt_corrections R @ [r]\<rparr>\<rparr>) else Inl ErrConstraint)"

section \<open>Frames\<close>

text \<open>
  The tables the projection never writes: everything but its own row, what is recorded beside
  it and the supply of identifiers.
\<close>

definition facts_of :: "db \<Rightarrow> db" where
  "facts_of d = d\<lparr>db_ids := [], db_projections := [], db_rec := empty_rec\<rparr>"

lemma facts_of_simps [simp]:
  "facts_of (d\<lparr>db_ids := i\<rparr>) = facts_of d" "facts_of (d\<lparr>db_projections := p\<rparr>) = facts_of d" "facts_of (d\<lparr>db_rec := r\<rparr>) = facts_of d"
  by (simp_all add: facts_of_def)

lemma keeps_of_facts:
  assumes "\<And>X. keeps (\<lambda>d. facts_of d = X) m" and "\<And>d d'. facts_of d' = facts_of d \<Longrightarrow> P d \<Longrightarrow> P d'"
  shows "keeps P m"
proof (rule keepsI)
  fix s a t assume "P (st_db s)" and run: "m s = (Inr a, t)"
  have "facts_of (st_db t) = facts_of (st_db s)" by (rule keepsD[OF assms(1) refl run])
  then show "P (st_db t)" using \<open>P (st_db s)\<close> by (rule assms(2))
qed

lemma facts_of_eq:
  assumes "facts_of d = facts_of d'"
  shows "db_gifts d = db_gifts d'" "db_periods d = db_periods d'" "db_refunds d = db_refunds d'" "db_events d = db_events d'"
    "db_donors d = db_donors d'" "db_checkouts d = db_checkouts d'" "db_refund_obs d = db_refund_obs d'"
    "db_reversals d = db_reversals d'"
proof -
  have "db_gifts d = db_gifts (facts_of d)" "db_periods d = db_periods (facts_of d)" "db_refunds d = db_refunds (facts_of d)"
    "db_events d = db_events (facts_of d)" "db_donors d = db_donors (facts_of d)" "db_checkouts d = db_checkouts (facts_of d)"
    "db_refund_obs d = db_refund_obs (facts_of d)" "db_reversals d = db_reversals (facts_of d)" for d
    by (simp_all add: facts_of_def)
  with assms show "db_gifts d = db_gifts d'" "db_periods d = db_periods d'" "db_refunds d = db_refunds d'" "db_events d = db_events d'"
    "db_donors d = db_donors d'" "db_checkouts d = db_checkouts d'" "db_refund_obs d = db_refund_obs d'"
    "db_reversals d = db_reversals d'" by metis+
qed

end
