(* ===== verification/Payment_Methods.thy ===== *)
theory Payment_Methods
  imports Ledger
begin

text \<open>
  Settling a hosted card setup (internal/store/payment_methods.go): the session is read from
  the processor without a lock, a verified card becomes the subscription's default, and the
  outcome is recorded on the update under the donor lock.
\<close>

section \<open>The processor\<close>

record 'g pm_gateway = "'g gateway" +
  pmg_RetrieveCheckout :: "string \<Rightarrow> 'g \<Rightarrow> (store_error + Object) \<times> 'g"
  pmg_RetrieveSetupIntent :: "string \<Rightarrow> 'g \<Rightarrow> (store_error + Object) \<times> 'g"
  pmg_UpdateSubscriptionPaymentMethod :: "string \<Rightarrow> string \<Rightarrow> string \<Rightarrow> 'g \<Rightarrow> (store_error + unit) \<times> 'g"

section \<open>States of an update\<close>

definition terminalPaymentUpdate :: "string \<Rightarrow> bool" where
  "terminalPaymentUpdate status \<longleftrightarrow> status = ''APPLIED'' \<or> status = ''EXPIRED'' \<or> status = ''CANCELLED''"

record paymentUpdateFacts =
  pf_update :: string
  pf_session :: string
  pf_status :: string

definition renews :: "string \<Rightarrow> bool" where
  "renews status \<longleftrightarrow> status = ''active'' \<or> status = ''past_due'' \<or> status = ''unpaid''"

definition commandRetryWindow :: duration where "commandRetryWindow = 23 * Hour"

section \<open>The setup session\<close>

text \<open>
  \<open>json.Unmarshal\<close> into a \<open>[]string\<close>: null gives no strings, and a null element the empty one.
\<close>

fun string_elements :: "json list \<Rightarrow> string list option" where
  "string_elements [] = Some []"
| "string_elements (JStr v # js) = map_option (Cons v) (string_elements js)"
| "string_elements (JNull # js) = map_option (Cons []) (string_elements js)"
| "string_elements (j # js) = None"

definition unmarshal_strings :: "json option \<Rightarrow> string list option" where
  "unmarshal_strings raw = (case raw of Some (JArr js) \<Rightarrow> string_elements js | Some JNull \<Rightarrow> Some [] | _ \<Rightarrow> None)"

definition verifiedSetup :: "'g pm_gateway \<Rightarrow> update_row \<Rightarrow> string \<Rightarrow> ('g, string \<times> string) tx" where
  "verifiedSetup gateway row sessionID =
     sbind (sgate (pmg_RetrieveCheckout gateway sessionID)) (\<lambda>remote.
     sbind (slift (of_facts (facts_Object remote ''metadata''))) (\<lambda>metadata.
     sbind (sguard (Text metadata ''dad_payment_update_id'' = pu_id row \<and> Text remote ''id'' = sessionID \<and>
        BoolIs remote ''livemode'' False \<and> Text remote ''mode'' = ''setup'' \<and>
        Text remote ''customer'' = pu_customer row) StoreFacts) (\<lambda>_.
     if Text remote ''status'' = ''expired'' then sreturn ([], ''EXPIRED'')
     else if Text remote ''status'' = ''open'' then sreturn ([], [])
     else if Text remote ''status'' \<noteq> ''complete'' then sfail StoreFacts
     else let setupID = Text remote ''setup_intent'' in
       sbind (sguard (HasPrefix setupID ''seti_'') StoreFacts) (\<lambda>_.
       sbind (sgate (pmg_RetrieveSetupIntent gateway setupID)) (\<lambda>setup.
       sbind (slift (of_facts (facts_Object setup ''metadata''))) (\<lambda>metadata.
       let types = unmarshal_strings (member setup ''payment_method_types''); method = Text setup ''payment_method'' in
       sbind (sguard (Text metadata ''dad_payment_update_id'' = pu_id row \<and> Text setup ''id'' = setupID \<and>
          BoolIs setup ''livemode'' False \<and> Text setup ''customer'' = pu_customer row \<and>
          Text setup ''status'' = ''succeeded'' \<and> Text setup ''usage'' = ''off_session'' \<and>
          types = Some [''card''] \<and> HasPrefix method ''pm_'') StoreFacts) (\<lambda>_.
       sreturn (method, []))))))))"

section \<open>Making the card the default\<close>

definition read_subscription :: "'g pm_gateway \<Rightarrow> update_row \<Rightarrow> checkout_row \<Rightarrow> string \<Rightarrow> ('g, Object) tx" where
  "read_subscription gateway row draft subscription =
     sbind (sgate (gw_RetrieveSubscription gateway subscription)) (\<lambda>sub.
     sbind (slift (of_facts (facts_Object sub ''metadata''))) (\<lambda>metadata.
     sbind (sguard (Text metadata ''dad_checkout_id'' = ck_id draft \<and> Text sub ''id'' = subscription \<and>
        BoolIs sub ''livemode'' False \<and> HasPrefix (Text sub ''customer'') ''cus_'' \<and>
        Text sub ''customer'' = pu_customer row) StoreFacts) (\<lambda>_.
     sreturn sub)))"

definition applyDefaultMethod :: "'g pm_gateway \<Rightarrow> update_row \<Rightarrow> string \<Rightarrow> time \<Rightarrow> ('g, string) tx" where
  "applyDefaultMethod gateway row method now =
     sbind (sread (q_AttemptSnapshotByID (pu_attempt row))) (\<lambda>attempt.
     sbind (sread (q_CheckoutDraft (at_checkout attempt))) (\<lambda>draft.
     case at_subscription attempt of
       None \<Rightarrow> sfail StoreFacts
     | Some subscription \<Rightarrow>
       sbind (sguard (ck_donor draft = pu_donor row \<and> ck_frequency draft = ''MONTHLY'') StoreFacts) (\<lambda>_.
       sbind (read_subscription gateway row draft subscription) (\<lambda>sub.
       if terminalSubscription (Text sub ''status'') then sreturn ''CANCELLED''
       else if \<not> renews (Text sub ''status'') then sfail StoreFacts
       else if Text sub ''default_payment_method'' = method then sreturn ''APPLIED''
       else sbind (sguard (time_Sub now (pu_created row) < commandRetryWindow) StoreFacts) (\<lambda>_.
         sbind (sgate (pmg_UpdateSubscriptionPaymentMethod gateway subscription method (''dad-payment-apply-'' @ pu_id row))) (\<lambda>_.
         sbind (read_subscription gateway row draft subscription) (\<lambda>confirmed.
         sbind (sguard (Text confirmed ''default_payment_method'' = method) StoreFacts) (\<lambda>_.
         sreturn ''APPLIED''))))))))"

definition fetchPaymentUpdate ::
  "'g pm_gateway option \<Rightarrow> update_row \<Rightarrow> string \<Rightarrow> time \<Rightarrow> ('g, paymentUpdateFacts) tx" where
  "fetchPaymentUpdate gateway row sessionID now =
     (let sessionID = (if sessionID = [] then nullstr (pu_session row) else sessionID);
          facts = \<lparr>pf_update = pu_id row, pf_session = sessionID, pf_status = []\<rparr> in
      if terminalPaymentUpdate (pu_status row) then sreturn (facts\<lparr>pf_status := pu_status row\<rparr>)
      else case gateway of
        None \<Rightarrow> sfail ErrUnconfigured
      | Some g \<Rightarrow>
          sbind (sguard (HasPrefix sessionID ''cs_test_'' \<and>
             (pu_session row = None \<or> pu_session row = Some sessionID)) StoreFacts) (\<lambda>_.
          sbind (verifiedSetup g row sessionID) (\<lambda>(method, status).
          if status \<noteq> [] then sreturn (facts\<lparr>pf_status := status\<rparr>)
          else sbind (applyDefaultMethod g row method now) (\<lambda>status. sreturn (facts\<lparr>pf_status := status\<rparr>)))))"

section \<open>Recording the outcome\<close>

definition applyPaymentUpdate :: "update_row \<Rightarrow> paymentUpdateFacts \<Rightarrow> time \<Rightarrow> ('g, string) tx" where
  "applyPaymentUpdate row facts now =
     (if terminalPaymentUpdate (pu_status row) then sreturn (pu_status row)
      else if pf_update facts \<noteq> pu_id row \<or> (pu_session row \<noteq> None \<and> pu_session row \<noteq> Some (pf_session facts))
      then sfail StoreFacts
      else let status = (if pf_status facts = [] then pu_status row else pf_status facts);
               url = (if terminalPaymentUpdate status then None else pu_url row);
               completed = (if status = ''APPLIED'' then Some now else pu_completed row) in
        sbind (swrite (q_SavePaymentUpdate (pu_id row) (Some (pf_session facts)) status url completed)) (\<lambda>_.
        sreturn status))"

section \<open>Properties\<close>

lemma keeps_update [keeps_rules]:
  "keeps ledger_ok (verifiedSetup g row sid)" "keeps ledger_ok (read_subscription g row draft sub)"
  "keeps ledger_ok (applyPaymentUpdate row facts now)"
  unfolding verifiedSetup_def read_subscription_def applyPaymentUpdate_def Let_def by (intro keeps_rules)+

lemma keeps_applyDefaultMethod [keeps_rules]: "keeps ledger_ok (applyDefaultMethod g row method now)"
  unfolding applyDefaultMethod_def by (intro keeps_rules)

lemma keeps_fetchPaymentUpdate [keeps_rules]: "keeps ledger_ok (fetchPaymentUpdate g row sid now)"
  unfolding fetchPaymentUpdate_def Let_def by (intro keeps_rules)

text \<open>
  A hosted setup session that is still open reaches the processor as a card change: reading
  the update continues with the default card of the subscription set to the empty method,
  although an open session has verified no card and its empty status is meant to leave the
  update as it is. For a session that matches the update and is open, the outcome is that of
  making the empty method the default.
\<close>

lemma fetchPaymentUpdate_open_session:
  assumes "\<not> terminalPaymentUpdate (pu_status row)" and "HasPrefix sessionID ''cs_test_''"
    and "pu_session row = Some sessionID"
    and "pmg_RetrieveCheckout g sessionID (st_gw s) = (Inr remote, w)"
    and "facts_Object remote ''metadata'' = Inr metadata" and "Text metadata ''dad_payment_update_id'' = pu_id row"
    and "Text remote ''id'' = sessionID" and "BoolIs remote ''livemode'' False" and "Text remote ''mode'' = ''setup''"
    and "Text remote ''customer'' = pu_customer row" and "Text remote ''status'' = ''open''"
  shows "fetchPaymentUpdate (Some g) row [] now s =
    sbind (applyDefaultMethod g row [] now)
      (\<lambda>status. sreturn \<lparr>pf_update = pu_id row, pf_session = sessionID, pf_status = status\<rparr>) (s\<lparr>st_gw := w\<rparr>)"
  using assms by (simp add: fetchPaymentUpdate_def verifiedSetup_def sbind_def sguard_def sgate_def slift_def sreturn_def
      Let_def cong: if_cong)

lemma SavePaymentUpdate_Inr:
  "q_SavePaymentUpdate ident session status url completed d = Inr d' \<Longrightarrow>
     d' = d\<lparr>db_updates := update_rows (\<lambda>r. pu_id r = ident)
        (\<lambda>r. r\<lparr>pu_session := session, pu_status := status, pu_url := url, pu_completed := completed\<rparr>) (db_updates d)\<rparr>"
  by (simp add: q_SavePaymentUpdate_def split: if_splits)

text \<open>
  A processor whose world is the subscription's default card: the session is open, and setting
  the empty method clears the card.
\<close>

definition open_gateway :: "string pm_gateway" where
  "open_gateway =
     \<lparr>gw_RetrievePaymentMethod = (\<lambda>_ w. (Inl ErrProcessorUnavailable, w)),
      gw_RetrieveRefund = (\<lambda>_ w. (Inl ErrProcessorUnavailable, w)),
      gw_RetrieveSubscription = (\<lambda>sub w. (Inr [(''id'', JStr sub), (''livemode'', JBool False), (''status'', JStr ''active''),
         (''customer'', JStr ''cus_1''), (''metadata'', JObj [(''dad_checkout_id'', JStr ''c1'')]),
         (''default_payment_method'', JStr w)], w)),
      pmg_RetrieveCheckout = (\<lambda>sid w. (Inr [(''id'', JStr sid), (''livemode'', JBool False), (''mode'', JStr ''setup''),
         (''status'', JStr ''open''), (''customer'', JStr ''cus_1''),
         (''metadata'', JObj [(''dad_payment_update_id'', JStr ''u1'')])], w)),
      pmg_RetrieveSetupIntent = (\<lambda>_ w. (Inl ErrProcessorUnavailable, w)),
      pmg_UpdateSubscriptionPaymentMethod = (\<lambda>_ method _ w. (Inr (), method))\<rparr>"

definition sample_update :: update_row where
  "sample_update = \<lparr>pu_id = ''u1'', pu_donor = ''d1'', pu_attempt = ''a1'', pu_customer = ''cus_1'',
     pu_session = Some ''cs_test_1'', pu_url = Some ''https://pay'', pu_status = ''OPEN'', pu_completed = None,
     pu_created = of_unix 1000\<rparr>"

definition sample_attempt :: attempt_row where
  "sample_attempt = \<lparr>at_id = ''a1'', at_checkout = ''c1'', at_session = None, at_subscription = Some ''sub_1'',
     at_status = ''COMPLETE'', at_hash = ''h'', at_params = JObj [], at_url = None, at_created = of_unix 900\<rparr>"

definition sample_update_st :: "string st" where
  "sample_update_st = \<lparr>st_db = empty_db\<lparr>db_checkouts := [sample_checkout], db_attempts := [sample_attempt],
     db_updates := [sample_update]\<rparr>, st_gw = ''pm_1'', st_seen = []\<rparr>"

lemma open_session_clears_card:
  "fetchPaymentUpdate (Some open_gateway) sample_update [] (of_unix 2000) sample_update_st =
     (Inr \<lparr>pf_update = ''u1'', pf_session = ''cs_test_1'', pf_status = ''APPLIED''\<rparr>, sample_update_st\<lparr>st_gw := []\<rparr>)"
proof -
  let ?remote = "[(''id'', JStr ''cs_test_1''), (''livemode'', JBool False), (''mode'', JStr ''setup''),
         (''status'', JStr ''open''), (''customer'', JStr ''cus_1''),
         (''metadata'', JObj [(''dad_payment_update_id'', JStr ''u1'')])]"
  have "sample_update_st\<lparr>st_gw := ''pm_1''\<rparr> = sample_update_st" by (simp add: sample_update_st_def)
  moreover have "applyDefaultMethod open_gateway sample_update [] (of_unix 2000) sample_update_st =
      (Inr ''APPLIED'', sample_update_st\<lparr>st_gw := []\<rparr>)"
    by code_simp
  ultimately show ?thesis
    by (subst fetchPaymentUpdate_open_session[where remote = "?remote" and sessionID = "''cs_test_1''" and w = "''pm_1''"
          and metadata = "[(''dad_payment_update_id'', JStr ''u1'')]"])
      (simp_all add: terminalPaymentUpdate_def sample_update_def open_gateway_def sample_update_st_def facts_Object_def
        member_def Text_def BoolIs_def sbind_def sreturn_def)
qed

text \<open>
  C27. Recording the outcome of a card setup: a finished update is never changed again; otherwise
  exactly the update's own row changes, to the fetched status (its own when none was fetched),
  with the session kept, the hosted page withdrawn once it is finished and the completion time
  set when the card was applied.
\<close>

theorem applyPaymentUpdate_exact:
  assumes "distinct (map pu_id (db_updates (st_db s)))" and "row \<in> set (db_updates (st_db s))"
    and "applyPaymentUpdate row facts now s = (Inr status, t)"
  shows "if terminalPaymentUpdate (pu_status row) then status = pu_status row \<and> t = s
    else status = (if pf_status facts = [] then pu_status row else pf_status facts) \<and>
      {x \<in> set (db_updates (st_db t)). pu_id x = pu_id row} =
        {row\<lparr>pu_session := Some (pf_session facts), pu_status := status,
             pu_url := (if terminalPaymentUpdate status then None else pu_url row),
             pu_completed := (if status = ''APPLIED'' then Some now else pu_completed row)\<rparr>} \<and>
      {x \<in> set (db_updates (st_db t)). pu_id x \<noteq> pu_id row} = {x \<in> set (db_updates (st_db s)). pu_id x \<noteq> pu_id row}"
proof (cases "terminalPaymentUpdate (pu_status row)")
  case True
  then show ?thesis using assms(3) by (simp add: applyPaymentUpdate_def)
next
  case False
  let ?url = "if terminalPaymentUpdate status then None else pu_url row"
  let ?completed = "if status = ''APPLIED'' then Some now else pu_completed row"
  let ?f = "\<lambda>r. r\<lparr>pu_session := Some (pf_session facts), pu_status := status, pu_url := ?url, pu_completed := ?completed\<rparr>"
  have status: "status = (if pf_status facts = [] then pu_status row else pf_status facts)"
    and save: "q_SavePaymentUpdate (pu_id row) (Some (pf_session facts)) status ?url ?completed (st_db s) = Inr (st_db t)"
    using assms(3) False by (auto simp: applyPaymentUpdate_def Let_def sbind_Inr split: if_splits)
  have t: "db_updates (st_db t) = update_rows (\<lambda>r. pu_id r = pu_id row) ?f (db_updates (st_db s))"
    by (simp add: SavePaymentUpdate_Inr[OF save])
  have inj: "inj_on pu_id (set (db_updates (st_db s)))" using assms(1) by (simp add: distinct_map)
  have "{x \<in> set (db_updates (st_db t)). pu_id x = pu_id row} = ?f ` {x \<in> set (db_updates (st_db s)). pu_id x = pu_id row}"
    by (auto simp: t set_update_rows)
  moreover have "{x \<in> set (db_updates (st_db s)). pu_id x = pu_id row} = {row}"
    using inj assms(2) by (auto dest: inj_onD)
  moreover have "{x \<in> set (db_updates (st_db t)). pu_id x \<noteq> pu_id row} = {x \<in> set (db_updates (st_db s)). pu_id x \<noteq> pu_id row}"
    by (auto simp: t set_update_rows)
  ultimately show ?thesis using False status by simp
qed

theorem applyPaymentUpdate_exact_witness:
  "{x \<in> set (db_updates (st_db (snd (applyPaymentUpdate sample_update
      \<lparr>pf_update = ''u1'', pf_session = ''cs_test_1'', pf_status = ''EXPIRED''\<rparr> 5 sample_update_st)))). pu_id x = ''u1''} =
   {sample_update\<lparr>pu_status := ''EXPIRED'', pu_url := None\<rparr>}"
proof -
  let ?facts = "\<lparr>pf_update = ''u1'', pf_session = ''cs_test_1'', pf_status = ''EXPIRED''\<rparr>"
  have a: "distinct (map pu_id (db_updates (st_db sample_update_st)))" "sample_update \<in> set (db_updates (st_db sample_update_st))"
    by (simp_all add: sample_update_st_def)
  have b: "fst (applyPaymentUpdate sample_update ?facts 5 sample_update_st) = Inr ''EXPIRED''" by code_simp
  have c: "\<not> terminalPaymentUpdate (pu_status sample_update)" "terminalPaymentUpdate ''EXPIRED''"
    by (simp_all add: terminalPaymentUpdate_def sample_update_def)
  have "pu_id sample_update = ''u1''" "pu_session sample_update = Some ''cs_test_1''" "pu_completed sample_update = None"
    by (simp_all add: sample_update_def)
  then show ?thesis
    using applyPaymentUpdate_exact[OF a run_fst[OF b]] c by (simp add: sample_update_def)
qed

end
