(* ===== verification/Event_Worker.thy ===== *)
theory Event_Worker
  imports Payment_Methods Webhook
begin

text \<open>
  The worker that applies verified processor events (internal/store/worker.go), the inbox that
  stores them (internal/store/inbox.go), the cards it records to block self-referral
  (internal/store/referral_signals.go) and the reversals it queues for deleted accounts
  (internal/store/deleted_account_reversals.go). \<open>pgtype.UUID.Scan\<close> is the parameter \<open>scan\<close>, and
  the refresh of the donor's projection the parameter \<open>refresh\<close>.
\<close>

section \<open>The inbox\<close>

definition SaveVerifiedEvent :: "time \<Rightarrow> VerifiedEvent \<Rightarrow> ('g, unit) tx" where
  "SaveVerifiedEvent dbnow event =
     (if e_id event = [] then sfail StoreInvalidEvent
      else sbind NewID (\<lambda>ident.
        swrite (q_InsertStripeEvent
          \<lparr>ev_id = ident, ev_stripe = e_id event, ev_type = e_kind event, ev_occurred = e_occurred event,
           ev_data = e_data event, ev_processed = None, ev_attempts = 0, ev_error = None, ev_available = dbnow\<rparr>)))"

section \<open>Cards\<close>

record paymentCard =
  pc_method :: string
  pc_fingerprint :: string

text \<open>A nil gateway would panic here; every caller has read the subscription through it before.\<close>

definition subscriptionCard :: "'g gateway option \<Rightarrow> Object \<Rightarrow> ('g, paymentCard option) tx" where
  "subscriptionCard gateway subscription =
     (let method = Text subscription ''default_payment_method'' in
      if \<not> HasPrefix method ''pm_'' then sreturn None
      else sbind (sread (q_KnownPaymentMethod method)) (\<lambda>known.
        if known then sreturn None
        else case gateway of
          None \<Rightarrow> sfail ErrUnconfigured
        | Some g \<Rightarrow>
            sbind (sgate (gw_RetrievePaymentMethod g method)) (\<lambda>remote.
            case facts_Object remote ''card'' of
              Inl _ \<Rightarrow> sreturn None
            | Inr cd \<Rightarrow>
                if Text remote ''id'' \<noteq> method \<or> Text remote ''type'' \<noteq> ''card'' \<or> Text cd ''fingerprint'' = []
                then sreturn None
                else sreturn (Some \<lparr>pc_method = method, pc_fingerprint = Text cd ''fingerprint''\<rparr>))))"

definition recordCard :: "string \<Rightarrow> paymentCard option \<Rightarrow> time \<Rightarrow> ('g, unit) tx" where
  "recordCard donor cd now =
     (case cd of
        None \<Rightarrow> sreturn ()
      | Some c \<Rightarrow>
          sbind (supdate (q_RecordPaymentMethod
             \<lparr>pm_id = pc_method c, pm_donor = donor, pm_fingerprint = pc_fingerprint c, pm_observed = now\<rparr>)) (\<lambda>added.
          if added = 0 then sreturn () else swrite (q_ScheduleReferralRecheck now donor)))"

section \<open>Deleted accounts\<close>

definition queueDeletedAccountReversals :: "string \<Rightarrow> time \<Rightarrow> ('g, unit) tx" where
  "queueDeletedAccountReversals checkout now =
     sbind (swrite (q_QueueDeletedAccountRefunds now checkout)) (\<lambda>_.
     swrite (q_QueueDeletedAccountCancellation now checkout))"

section \<open>The worker\<close>

text \<open>
  The worker's gateway, and the same gateway as a \<open>PaymentMethodGateway\<close> when the type assertion
  succeeds.
\<close>

record 'g EventWorker =
  ew_Gateway :: "'g gateway option"
  ew_PaymentMethods :: "'g pm_gateway option"

definition eventFailure :: "store_error \<Rightarrow> string" where
  "eventFailure e =
     (case e of
        ErrProcessorUnavailable \<Rightarrow> ''PaymentUnavailable''
      | ErrUnconfigured \<Rightarrow> ''PaymentUnavailable''
      | ErrNoRows \<Rightarrow> ''MissingRecord''
      | StoreFacts \<Rightarrow> ''InvalidFacts''
      | StoreInvalid \<Rightarrow> ''InvalidFacts''
      | _ \<Rightarrow> ''ProcessingError'')"

definition parseID :: "(string \<Rightarrow> string option) \<Rightarrow> string \<Rightarrow> store_error + string" where
  "parseID scan v = (case scan v of None \<Rightarrow> Inl StoreFacts | Some ident \<Rightarrow> Inr ident)"

definition retrieveRefund :: "'g EventWorker \<Rightarrow> string \<Rightarrow> ('g, Object) tx" where
  "retrieveRefund w ident =
     (case ew_Gateway w of
        None \<Rightarrow> sfail ErrUnconfigured
      | Some g \<Rightarrow>
          sbind (sgate (gw_RetrieveRefund g ident)) (\<lambda>current.
          if Text current ''id'' \<noteq> ident then sfail StoreFacts else sreturn current))"

definition applyPaymentUpdateEvent ::
  "'g EventWorker \<Rightarrow> (string \<Rightarrow> string option) \<Rightarrow> Object \<Rightarrow> time \<Rightarrow> ('g, string) tx" where
  "applyPaymentUpdateEvent w scan data now =
     sbind (slift (parseID scan (Text data ''payment_update_id''))) (\<lambda>ident.
     sbind (sread (q_PaymentUpdateSnapshot ident)) (\<lambda>snapshot.
     case ew_PaymentMethods w of
       None \<Rightarrow> sfail ErrUnconfigured
     | Some gateway \<Rightarrow>
         sbind (fetchPaymentUpdate (Some gateway) snapshot (Text data ''id'') now) (\<lambda>facts.
         sbind (sread (q_LockDonor (pu_donor snapshot))) (\<lambda>_.
         sbind (sread (q_PaymentUpdateByID ident)) (\<lambda>row.
         sbind (applyPaymentUpdate row facts now) (\<lambda>status.
         if \<not> terminalPaymentUpdate status then sfail StoreFacts else sreturn (pu_donor snapshot)))))))"

text \<open>The refund is read again when another of its states was recorded since the first read.\<close>

definition reread_refund :: "'g EventWorker \<Rightarrow> bool \<Rightarrow> string \<Rightarrow> Object \<Rightarrow> ('g, Object) tx" where
  "reread_refund w changed ident current = (if changed then retrieveRefund w ident else sreturn current)"

definition applyRefundEvent :: "'g EventWorker \<Rightarrow> event_row \<Rightarrow> Object \<Rightarrow> time \<Rightarrow> ('g, string) tx" where
  "applyRefundEvent w event data now =
     (let payment = Some (Text data ''payment_intent'') in
      sbind (sread (q_GiftSnapshotByPayment payment)) (\<lambda>snapshot.
      sbind (sread (q_GiftRefundObservations (gr_id snapshot))) (\<lambda>observations.
      sbind (retrieveRefund w (Text data ''id'')) (\<lambda>current.
      sbind (sread (q_LockDonor (gr_donor snapshot))) (\<lambda>_.
      sbind (sread (q_GiftByPayment payment)) (\<lambda>gift.
      sbind (sread (q_GiftRefundObservations (gr_id gift))) (\<lambda>recorded.
      sbind (reread_refund w (recorded \<noteq> observations \<or> gr_id gift \<noteq> gr_id snapshot) (Text data ''id'') current) (\<lambda>current.
      sbind (recordRefund gift current (Some (ev_id event)) None now) (\<lambda>_.
      sreturn (gr_donor snapshot))))))))))"

record eventFacts =
  ef_subscription :: "subscriptionSnapshot option"
  ef_card :: "paymentCard option"

definition no_facts :: eventFacts where
  "no_facts = \<lparr>ef_subscription = None, ef_card = None\<rparr>"

text \<open>Whether a change of the amount awaits confirmation; a checkout without changes has none.\<close>

definition pending_change :: "string \<Rightarrow> ('g, bool) tx" where
  "pending_change checkout =
     sbind (sread (\<lambda>d. no_rows_ok (q_PendingAmountChange checkout d))) (\<lambda>pending. sreturn (pending = Some True))"

definition fetch_facts :: "'g EventWorker \<Rightarrow> checkout_row \<Rightarrow> string \<Rightarrow> ('g, eventFacts) tx" where
  "fetch_facts w draft subscription =
     sbind (sguard (HasPrefix subscription ''sub_'') StoreFacts) (\<lambda>_.
     sbind (sread (q_AttemptSnapshotForCheckout (ck_id draft))) (\<lambda>attempt.
     sbind (fetchSubscription (ew_Gateway w) (at_id attempt) subscription) (\<lambda>snapshot.
     sbind (subscriptionCard (ew_Gateway w) (ss_remote snapshot)) (\<lambda>cd.
     sreturn \<lparr>ef_subscription = Some snapshot, ef_card = cd\<rparr>))))"

definition prefetch :: "'g EventWorker \<Rightarrow> event_row \<Rightarrow> Object \<Rightarrow> checkout_row \<Rightarrow> ('g, eventFacts) tx" where
  "prefetch w event data draft =
     (let kind = ev_type event; subscription = Text data ''subscription'' in
      if HasPrefix kind ''customer.subscription.'' then fetch_facts w draft (Text data ''id'')
      else if kind = ''checkout.session.completed''
      then if subscription = [] then sreturn no_facts else fetch_facts w draft subscription
      else if HasPrefix kind ''invoice.''
      then sbind (pending_change (ck_id draft)) (\<lambda>pending.
             if \<not> pending then sreturn no_facts else fetch_facts w draft subscription)
      else sreturn no_facts)"

definition bindSubscription :: "attempt_row \<Rightarrow> string \<Rightarrow> ('g, unit) tx" where
  "bindSubscription attempt subscription =
     (if \<not> HasPrefix subscription ''sub_'' \<or>
         (at_subscription attempt \<noteq> None \<and> at_subscription attempt \<noteq> Some subscription)
      then sfail StoreFacts
      else swrite (q_BindSubscription (at_id attempt) subscription))"

definition applySessionEvent :: "string \<Rightarrow> Object \<Rightarrow> attempt_row \<Rightarrow> ('g, unit) tx" where
  "applySessionEvent kind data attempt =
     (if at_session attempt \<noteq> None \<and> at_session attempt \<noteq> Some (Text data ''id'') then sfail StoreFacts
      else sbind
        (if kind = ''checkout.session.expired''
         then sbind (sguard (Text data ''status'' = ''expired'') StoreFacts) (\<lambda>_.
           if at_status attempt \<noteq> ''COMPLETE'' \<and> at_status attempt \<noteq> ''CANCELLED''
           then sbind (swrite (q_ReleaseReservation (at_id attempt))) (\<lambda>_. sreturn ''EXPIRED'')
           else sreturn (at_status attempt))
         else sbind (sguard (Text data ''status'' = ''complete'') StoreFacts) (\<lambda>_.
           let status = (if at_status attempt \<noteq> ''CANCELLED'' then ''COMPLETE'' else at_status attempt);
               subscription = Text data ''subscription'' in
           if subscription \<noteq> []
           then sbind (bindSubscription attempt subscription) (\<lambda>_. sreturn status)
           else sreturn status))
        (\<lambda>status. swrite (q_RecordCheckoutSession (at_id attempt) (Text data ''id'') status)))"

definition invoiceAmount ::
  "'g EventWorker \<Rightarrow> Object \<Rightarrow> checkout_row \<Rightarrow> attempt_row \<Rightarrow> subscriptionSnapshot option \<Rightarrow> time \<Rightarrow> ('g, int) tx" where
  "invoiceAmount w data draft attempt snapshot now =
     sbind (pending_change (ck_id draft)) (\<lambda>pending.
     sbind (if pending
            then let subscription = Text data ''subscription'' in
              sbind (bindSubscription attempt subscription) (\<lambda>_.
              sbind (reconcileSubscription (ew_Gateway w) draft (attempt\<lparr>at_subscription := Some subscription\<rparr>) snapshot now) (\<lambda>_.
              sreturn ()))
            else sreturn ()) (\<lambda>_.
     sbind (slift (of_facts (invoiceBounds data))) (\<lambda>(start, _).
     sbind (sread (\<lambda>d. no_rows_ok (q_InvoiceAmountChange (ck_id draft) start d))) (\<lambda>amount.
     sreturn (case amount of None \<Rightarrow> ck_amount draft | Some a \<Rightarrow> a)))))"

definition paymentFacts ::
  "event_row \<Rightarrow> Object \<Rightarrow> checkout_row \<Rightarrow> attempt_row \<Rightarrow> int \<Rightarrow> ('g, paidGift) tx" where
  "paymentFacts event data draft attempt expected =
     (if ev_type event \<noteq> ''invoice.payment_succeeded'' then sfail StoreFacts
      else
      sbind (slift (of_facts (IntDefault data ''starting_balance''))) (\<lambda>opening.
      sbind (slift (of_facts (IntDefault data ''ending_balance''))) (\<lambda>closing.
      sbind (slift (of_facts (facts_Int data ''total''))) (\<lambda>invoice_total.
      sbind (slift (of_facts (facts_Int data ''amount_due''))) (\<lambda>due.
      sbind (slift (of_facts (facts_Int data ''amount_paid''))) (\<lambda>amount.
      sbind (sguard (ck_frequency draft = ''MONTHLY'' \<and> Text data ''status'' = ''paid'' \<and> billingReason data \<and>
         opening = 0 \<and> closing = 0 \<and> amount = invoice_total \<and> amount = due) StoreFacts) (\<lambda>_.
      sbind (bindSubscription attempt (Text data ''subscription'')) (\<lambda>_.
      sbind (slift (of_facts (facts_Unix data ''paid_at''))) (\<lambda>paid.
      sbind (slift (of_facts (invoicePaymentIntent data amount))) (\<lambda>intent.
      sbind (recordPeriod draft data expected True) (\<lambda>period.
      sbind (sguard (amount = expected \<and> amount > 0 \<and> Text data ''currency'' = ''usd'') StoreFacts) (\<lambda>_.
      sreturn \<lparr>pg_object = Text data ''id'', pg_amount = amount, pg_paid = paid, pg_payment = intent,
               pg_period = Some period\<rparr>))))))))))))"

definition applyLockedCheckoutEvent ::
  "'g EventWorker \<Rightarrow> event_row \<Rightarrow> Object \<Rightarrow> checkout_row \<Rightarrow> attempt_row \<Rightarrow> eventFacts \<Rightarrow> time \<Rightarrow> ('g, unit) tx" where
  "applyLockedCheckoutEvent w event data draft attempt facts now =
     (let kind = ev_type event in
      if HasPrefix kind ''checkout.session.''
      then sbind (applySessionEvent kind data attempt) (\<lambda>_.
        case ef_subscription facts of
          None \<Rightarrow> sreturn ()
        | Some snap \<Rightarrow>
            sbind (reconcileSubscription (ew_Gateway w) draft (attempt\<lparr>at_subscription := Some (ss_id snap)\<rparr>) (Some snap) now)
              (\<lambda>_. sreturn ()))
      else if HasPrefix kind ''customer.subscription.''
      then sbind (bindSubscription attempt (Text data ''id'')) (\<lambda>_.
        sbind (reconcileSubscription (ew_Gateway w) draft (attempt\<lparr>at_subscription := Some (Text data ''id'')\<rparr>)
           (ef_subscription facts) now) (\<lambda>_. sreturn ()))
      else sbind (if HasPrefix kind ''invoice.''
                  then invoiceAmount w data draft attempt (ef_subscription facts) now
                  else sreturn (ck_amount draft)) (\<lambda>expected.
        if kind = ''invoice.payment_failed''
        then sbind (slift (of_facts (facts_Int data ''amount_due''))) (\<lambda>amount.
          sbind (sguard (ck_frequency draft = ''MONTHLY'' \<and> Text data ''status'' = ''open'' \<and>
             Text data ''currency'' = ''usd'' \<and> amount = expected \<and> billingReason data) StoreFacts) (\<lambda>_.
          sbind (bindSubscription attempt (Text data ''subscription'')) (\<lambda>_.
          sbind (recordPeriod draft data expected False) (\<lambda>period.
          recordBillingObservation period event ''FAILED'' amount (Text data ''billing_reason'') (ev_occurred event) now))))
        else sbind (paymentFacts event data draft attempt expected) (\<lambda>payment.
          sbind (recordGift draft payment now) (\<lambda>_.
          case pg_period payment of
            None \<Rightarrow> sreturn ()
          | Some period \<Rightarrow>
              recordBillingObservation period event ''PAID'' (pg_amount payment) (Text data ''billing_reason'')
                (pg_paid payment) now))))"

definition applyCheckoutEvent ::
  "'g EventWorker \<Rightarrow> (string \<Rightarrow> string option) \<Rightarrow> event_row \<Rightarrow> Object \<Rightarrow> time \<Rightarrow> ('g, string) tx" where
  "applyCheckoutEvent w scan event data now =
     sbind (slift (parseID scan (Text data ''checkout_id''))) (\<lambda>checkoutID.
     sbind (sread (q_CheckoutDraft checkoutID)) (\<lambda>draft.
     sbind (prefetch w event data draft) (\<lambda>facts.
     sbind (sread (q_LockDonor (ck_donor draft))) (\<lambda>_.
     sbind (sread (q_AttemptForCheckout checkoutID)) (\<lambda>attempt.
     sbind (recordCard (ck_donor draft) (ef_card facts) now) (\<lambda>_.
     sbind (applyLockedCheckoutEvent w event data draft attempt facts now) (\<lambda>_.
     sbind (queueDeletedAccountReversals checkoutID now) (\<lambda>_.
     sreturn (ck_donor draft)))))))))"

definition applyEvent ::
  "'g EventWorker \<Rightarrow> (string \<Rightarrow> string option) \<Rightarrow> (string \<Rightarrow> time \<Rightarrow> ('g, unit) tx) \<Rightarrow> event_row \<Rightarrow> time \<Rightarrow> ('g, unit) tx" where
  "applyEvent w scan refresh event now =
     sbind (slift (of_facts (DecodeObject (Some (ev_data event))))) (\<lambda>data.
     sbind newSubFetcher (\<lambda>_.
     sbind (if Text data ''payment_update_id'' \<noteq> [] then applyPaymentUpdateEvent w scan data now
            else if HasPrefix (ev_type event) ''refund.'' then applyRefundEvent w event data now
            else applyCheckoutEvent w scan event data now) (\<lambda>donor.
     refresh donor now)))"

definition ProcessNext ::
  "'g EventWorker \<Rightarrow> (string \<Rightarrow> string option) \<Rightarrow> (string \<Rightarrow> time \<Rightarrow> ('g, unit) tx) \<Rightarrow> time \<Rightarrow> string list \<Rightarrow> time
     \<Rightarrow> ('g, bool) tx" where
  "ProcessNext w scan refresh dbnow locked now =
     BeginFunc (
       sbind (sread (\<lambda>d. no_rows_ok (q_NextStripeEvent dbnow locked d))) (\<lambda>found.
       case found of
         None \<Rightarrow> sreturn False
       | Some event \<Rightarrow>
           sbind (swrite (q_IncrementEventAttempt (ev_id event))) (\<lambda>_.
           sbind (stry (BeginFunc (applyEvent w scan refresh event now))) (\<lambda>applied.
           sbind (case applied of
                    Inl e \<Rightarrow> swrite (q_FailStripeEvent dbnow (ev_id event) (eventFailure e))
                  | Inr _ \<Rightarrow> swrite (q_CompleteStripeEvent (ev_id event) now)) (\<lambda>_.
           sreturn True)))))"

section \<open>What the worker keeps\<close>

lemma keeps_newSubFetcher [keeps_rules]: "keeps P newSubFetcher"
  and keeps_remember [keeps_rules]: "keeps P (remember i r)"
  by (auto intro!: keepsI simp: newSubFetcher_def remember_def)

lemma keeps_refresh [keeps_rules]: "keeps P (fetcher_refresh gw i)"
  unfolding fetcher_refresh_def by (intro keeps_rules)

lemma keeps_retrieve [keeps_rules]: "keeps P (fetcher_retrieve gw i)"
  by (rule keepsI) (auto simp: fetcher_retrieve_def split: option.splits dest: keepsD[OF keeps_refresh])

lemma keeps_reads [keeps_rules]:
  "keeps P (fetchSubscription gw a i)" "keeps P (currentSubscription gw att snap)" "keeps P (pending_change c)"
  "keeps P (retrieveRefund w i)"
  unfolding fetchSubscription_def currentSubscription_def pending_change_def retrieveRefund_def
  by (intro keeps_rules)+

lemma keeps_reread [keeps_rules]: "keeps P (reread_refund w changed i current)"
  unfolding reread_refund_def by (intro keeps_rules)

lemma keeps_sum [keeps_rules]:
  "(\<And>e. x = Inl e \<Longrightarrow> keeps P (m e)) \<Longrightarrow> (\<And>a. x = Inr a \<Longrightarrow> keeps P (n a)) \<Longrightarrow>
    keeps P (case x of Inl e \<Rightarrow> m e | Inr a \<Rightarrow> n a)"
  by (cases x) auto

lemma keeps_subscriptionCard [keeps_rules]: "keeps P (subscriptionCard gw sub)"
  unfolding subscriptionCard_def Let_def by (intro keeps_rules)

lemma keeps_fetch_facts [keeps_rules]: "keeps P (fetch_facts w draft sub)"
  unfolding fetch_facts_def by (intro keeps_rules)

lemma keeps_prefetch [keeps_rules]: "keeps P (prefetch w event data draft)"
  unfolding prefetch_def Let_def by (intro keeps_rules)

lemma applyRefundEvent_steps:
  assumes "applyRefundEvent w event data now s = (Inr a, t)"
  obtains current u1 gift changed current' u2 v where
    "retrieveRefund w (Text data ''id'') s = (Inr current, u1)"
    "q_GiftByPayment (Some (Text data ''payment_intent'')) (st_db u1) = Inr gift"
    "reread_refund w changed (Text data ''id'') current u1 = (Inr current', u2)"
    "recordRefund gift current' (Some (ev_id event)) None now u2 = (Inr v, t)"
  using assms unfolding applyRefundEvent_def Let_def
  by (elim sbindE) (simp only: sread_Inr sreturn_Inr)

text \<open>
  Every handler is built from the writes below, so an invariant of the tables that each of them
  keeps is kept by the whole worker. The two steps that free a donor's recurring slot count as
  one write each: between their statements the slot and its checkout disagree.
\<close>

locale worker_calls =
  fixes P :: "db \<Rightarrow> bool"
  assumes NewID: "keeps P (NewID :: ('g, string) tx)"
    and bind: "keeps P (swrite (q_BindSubscription i v) :: ('g, unit) tx)"
    and session_event: "keeps P (applySessionEvent kind data attempt :: ('g, unit) tx)"
    and terminal: "keeps P (sbind (swrite (q_CancelAttempt i)) (\<lambda>_. sbind (swrite (q_ReleaseReservation i)) (\<lambda>_. sreturn sub)) ::
      ('g, subscription_row) tx)"
    and confirm: "keeps P (swrite (q_ConfirmAmountChange i a) :: ('g, unit) tx)"
    and save: "keeps P (swrite (q_SaveSubscription sr) :: ('g, unit) tx)"
    and recheck: "keeps P (swrite (q_ScheduleReferralRecheck a i) :: ('g, unit) tx)"
    and card_write: "keeps P (supdate (q_RecordPaymentMethod mr) :: ('g, int) tx)"
    and update_write: "keeps P (swrite (q_SavePaymentUpdate i y v z b) :: ('g, unit) tx)"
    and billing: "keeps P (swrite (q_InsertBillingObservation br) :: ('g, unit) tx)"
    and reversal_refunds: "keeps P (swrite (q_QueueDeletedAccountRefunds a i) :: ('g, unit) tx)"
    and reversal_cancels: "keeps P (swrite (q_QueueDeletedAccountCancellation a i) :: ('g, unit) tx)"
    and period: "keeps P (recordPeriod draft data expected paid :: ('g, string) tx)"
    and gift: "keeps P (recordGift draft p now :: ('g, unit) tx)"
    and refund_write: "recordRefund g c e act now (s :: 'g st) = (Inr u, t) \<Longrightarrow> g \<in> set (db_gifts (st_db s)) \<Longrightarrow>
      P (st_db s) \<Longrightarrow> P (st_db t)"
begin

lemmas writes = NewID bind session_event confirm save recheck card_write update_write billing reversal_refunds
  reversal_cancels period gift

lemma keeps_reconcileAmount: "keeps P (reconcileAmount draft item price stop now :: ('g, unit) tx)"
  unfolding reconcileAmount_def by (intro keeps_rules writes)

lemma keeps_reconcile: "keeps P (reconcileSubscription gw draft attempt snap now :: ('g, subscription_row) tx)"
  unfolding reconcileSubscription_def reconcileRemoteSubscription_def Let_def
  by (intro terminal keeps_rules writes keeps_reconcileAmount)

lemma keeps_bindSubscription: "keeps P (bindSubscription attempt sub :: ('g, unit) tx)"
  unfolding bindSubscription_def by (intro keeps_rules writes)

lemma keeps_invoiceAmount: "keeps P (invoiceAmount w data draft attempt snap now :: ('g, int) tx)"
  unfolding invoiceAmount_def Let_def by (intro keeps_rules writes keeps_bindSubscription keeps_reconcile)

lemma keeps_paymentFacts: "keeps P (paymentFacts event data draft attempt expected :: ('g, paidGift) tx)"
  unfolding paymentFacts_def by (intro keeps_rules writes keeps_bindSubscription)

lemma keeps_observation: "keeps P (recordBillingObservation pd e st a r oc rc :: ('g, unit) tx)"
  unfolding recordBillingObservation_def by (intro keeps_rules writes)

lemma keeps_locked: "keeps P (applyLockedCheckoutEvent w event data draft attempt facts now :: ('g, unit) tx)"
  unfolding applyLockedCheckoutEvent_def Let_def
  by (intro keeps_rules writes keeps_reconcile keeps_bindSubscription keeps_invoiceAmount
      keeps_paymentFacts keeps_observation)

lemma keeps_applyCheckoutEvent: "keeps P (applyCheckoutEvent w scan event data now :: ('g, string) tx)"
  unfolding applyCheckoutEvent_def recordCard_def queueDeletedAccountReversals_def
  by (intro keeps_rules writes keeps_locked)

lemma keeps_applyPaymentUpdateEvent: "keeps P (applyPaymentUpdateEvent w scan data now :: ('g, string) tx)"
  unfolding applyPaymentUpdateEvent_def fetchPaymentUpdate_def verifiedSetup_def applyDefaultMethod_def
    read_subscription_def applyPaymentUpdate_def Let_def
  by (intro keeps_rules writes)

lemma keeps_applyRefundEvent: "keeps P (applyRefundEvent w event data now :: ('g, string) tx)"
proof (rule keepsI)
  fix s t :: "'g st" and a
  assume P: "P (st_db s)" and run: "applyRefundEvent w event data now s = (Inr a, t)"
  from run obtain current u1 gift changed current' u2 v where
    first: "retrieveRefund w (Text data ''id'') s = (Inr current, u1)"
    and gift: "q_GiftByPayment (Some (Text data ''payment_intent'')) (st_db u1) = Inr gift"
    and again: "reread_refund w changed (Text data ''id'') current u1 = (Inr current', u2)"
    and rec: "recordRefund gift current' (Some (ev_id event)) None now u2 = (Inr v, t)"
    by (rule applyRefundEvent_steps)
  have u1: "st_db u1 = st_db s" using keepsD[OF keeps_reads(4) _ first, of "\<lambda>d. d = st_db s"] by simp
  have u2: "st_db u2 = st_db s" using keepsD[OF keeps_reread _ again, of "\<lambda>d. d = st_db s"] u1 by simp
  have "gift \<in> set (db_gifts (st_db u2))" using one_row_in[OF gift[unfolded q_GiftByPayment_def]] by (simp add: u1 u2)
  then show "P (st_db t)" using refund_write[OF rec] P u2 by simp
qed

lemma keeps_applyEvent:
  assumes "\<And>donor. keeps P (refresh donor now)"
  shows "keeps P (applyEvent w scan refresh event now :: ('g, unit) tx)"
  unfolding applyEvent_def
  by (intro keeps_rules keeps_applyPaymentUpdateEvent keeps_applyRefundEvent keeps_applyCheckoutEvent assms)

end

text \<open>An invariant that every statement keeps on its own.\<close>

locale worker_writes =
  fixes P :: "db \<Rightarrow> bool"
  assumes each_NewID: "keeps P (NewID :: ('g, string) tx)"
    and each_bind: "keeps P (swrite (q_BindSubscription i v) :: ('g, unit) tx)"
    and each_session: "keeps P (swrite (q_RecordCheckoutSession i v x) :: ('g, unit) tx)"
    and each_cancel: "keeps P (swrite (q_CancelAttempt i) :: ('g, unit) tx)"
    and each_release: "keeps P (swrite (q_ReleaseReservation i) :: ('g, unit) tx)"
    and each_confirm: "keeps P (swrite (q_ConfirmAmountChange i a) :: ('g, unit) tx)"
    and each_save: "keeps P (swrite (q_SaveSubscription sr) :: ('g, unit) tx)"
    and each_recheck: "keeps P (swrite (q_ScheduleReferralRecheck a i) :: ('g, unit) tx)"
    and each_card_write: "keeps P (supdate (q_RecordPaymentMethod mr) :: ('g, int) tx)"
    and each_update_write: "keeps P (swrite (q_SavePaymentUpdate i y v z b) :: ('g, unit) tx)"
    and each_billing: "keeps P (swrite (q_InsertBillingObservation br) :: ('g, unit) tx)"
    and each_reversal_refunds: "keeps P (swrite (q_QueueDeletedAccountRefunds a i) :: ('g, unit) tx)"
    and each_reversal_cancels: "keeps P (swrite (q_QueueDeletedAccountCancellation a i) :: ('g, unit) tx)"
    and each_period: "keeps P (recordPeriod draft data expected paid :: ('g, string) tx)"
    and each_gift: "keeps P (recordGift draft p now :: ('g, unit) tx)"
    and each_refund_write: "recordRefund g c e act now (s :: 'g st) = (Inr u, t) \<Longrightarrow> g \<in> set (db_gifts (st_db s)) \<Longrightarrow>
      P (st_db s) \<Longrightarrow> P (st_db t)"

sublocale worker_writes \<subseteq> worker_calls P
proof unfold_locales
  show "keeps P (applySessionEvent kind data attempt :: ('g, unit) tx)" for kind data attempt
    unfolding applySessionEvent_def bindSubscription_def Let_def by (intro keeps_rules each_bind each_session each_release)
  show "keeps P (sbind (swrite (q_CancelAttempt i)) (\<lambda>_. sbind (swrite (q_ReleaseReservation i)) (\<lambda>_. sreturn sub)) ::
      ('g, subscription_row) tx)" for i sub
    by (intro keeps_rules each_cancel each_release)
qed (rule each_NewID each_bind each_confirm each_save each_recheck each_card_write each_update_write each_billing
    each_reversal_refunds each_reversal_cancels each_period each_gift | erule (2) each_refund_write)+

lemma RecordPaymentMethod_Inr:
  "q_RecordPaymentMethod r d = Inr (n, d') \<Longrightarrow> \<exists>rows. d' = d\<lparr>db_methods := rows\<rparr>"
  by (auto simp: q_RecordPaymentMethod_def q_InsertPaymentMethod_def rbind_eq_Inr)

lemma keeps_ledger_method: "keeps ledger_ok (supdate (q_RecordPaymentMethod r))"
proof (rule keeps_update_rows)
  fix d a d' assume ok: "ledger_ok d" and "q_RecordPaymentMethod r d = Inr (a, d')"
  then have "same_ledger d d'" by (auto dest!: RecordPaymentMethod_Inr simp: same_ledger_def)
  then show "ledger_ok d'" using ok by (simp only: ledger_ok_same)
qed

interpretation ledger_worker: worker_writes ledger_ok
  by unfold_locales (rule keeps_rules keeps_ledger_method | blast intro: recordRefund_ledger)+

lemma insert_reversals_events: "insert_reversals rs d = Inr d' \<Longrightarrow> db_events d' = db_events d"
proof (induction rs arbitrary: d)
  case (Cons r rs)
  then obtain i ids rows where "db_ids d = i # ids"
    and "insert_reversals rs (d\<lparr>db_ids := ids, db_reversals := rows\<rparr>) = Inr d'"
    by (auto simp: rbind_eq_Inr q_InsertReversal_def split: list.splits)
  with Cons.IH show ?case by fastforce
qed simp

lemma keeps_events_NewID: "keeps (\<lambda>d. db_events d = E) NewID"
  by (rule keepsI) auto

lemma keeps_events_frames:
  "keeps (\<lambda>d. db_events d = E) (swrite (q_BindSubscription i v))"
  "keeps (\<lambda>d. db_events d = E) (swrite (q_RecordCheckoutSession i v x))"
  "keeps (\<lambda>d. db_events d = E) (swrite (q_CancelAttempt i))"
  "keeps (\<lambda>d. db_events d = E) (swrite (q_ReleaseReservation i))"
  "keeps (\<lambda>d. db_events d = E) (swrite (q_ConfirmAmountChange i a))"
  "keeps (\<lambda>d. db_events d = E) (swrite (q_SaveSubscription sr))"
  "keeps (\<lambda>d. db_events d = E) (swrite (q_ScheduleReferralRecheck a i))"
  "keeps (\<lambda>d. db_events d = E) (swrite (q_SavePaymentUpdate i y v z b))"
  "keeps (\<lambda>d. db_events d = E) (swrite (q_InsertBillingObservation br))"
  "keeps (\<lambda>d. db_events d = E) (swrite (q_QueueDeletedAccountRefunds a i))"
  "keeps (\<lambda>d. db_events d = E) (swrite (q_QueueDeletedAccountCancellation a i))"
  "keeps (\<lambda>d. db_events d = E) (swrite (q_InsertBillingPeriod pr))"
  "keeps (\<lambda>d. db_events d = E) (swrite (q_MarkPeriodPaid i))"
  "keeps (\<lambda>d. db_events d = E) (swrite (q_InsertGift gr))"
  "keeps (\<lambda>d. db_events d = E) (swrite (q_EnrichGift i y z))"
  "keeps (\<lambda>d. db_events d = E) (swrite (q_InsertRefund rr))"
  "keeps (\<lambda>d. db_events d = E) (swrite (q_UpdateRefund i v a))"
  "keeps (\<lambda>d. db_events d = E) (swrite (q_InsertRefundObservation ro))"
  "keeps (\<lambda>d. db_events d = E) (swrite (q_QueueLoginEmail lr))"
  by (rule keeps_write;
      auto simp: q_BindSubscription_def q_RecordCheckoutSession_def q_CancelAttempt_def q_ReleaseReservation_def
        q_ConfirmAmountChange_def q_SaveSubscription_def q_ScheduleReferralRecheck_def q_SavePaymentUpdate_def
        q_InsertBillingObservation_def q_QueueDeletedAccountRefunds_def q_QueueDeletedAccountCancellation_def
        q_InsertBillingPeriod_def q_MarkPeriodPaid_def q_InsertGift_def q_EnrichGift_def q_InsertRefund_def
        q_UpdateRefund_def q_InsertRefundObservation_def q_QueueLoginEmail_def rbind_eq_Inr Let_def
        split: if_splits dest: insert_reversals_events)+

lemma keeps_events_method: "keeps (\<lambda>d. db_events d = E) (supdate (q_RecordPaymentMethod r))"
  by (rule keeps_update_rows) (auto dest!: RecordPaymentMethod_Inr)

lemma keeps_events_records:
  "keeps (\<lambda>d. db_events d = E) (recordPeriod draft data expected paid)"
  "keeps (\<lambda>d. db_events d = E) (recordGift draft p now)"
  "keeps (\<lambda>d. db_events d = E) (recordRefund g c ev act now)"
  unfolding recordPeriod_def recordGift_def recordRefund_def queueLoginEmail_def Let_def
  by (intro keeps_rules keeps_events_NewID keeps_events_frames)+

interpretation events_worker: worker_writes "\<lambda>d. db_events d = E" for E
  by unfold_locales
    (auto intro: keeps_events_NewID keeps_events_frames keeps_events_method keeps_events_records
      dest: keepsD[OF keeps_events_records(3), OF refl])

section \<open>One step of the worker\<close>

definition started :: "string \<Rightarrow> db \<Rightarrow> db" where
  "started ident d = d\<lparr>db_events := update_rows (\<lambda>r. ev_id r = ident) (\<lambda>r. r\<lparr>ev_attempts := ev_attempts r + 1\<rparr>) (db_events d)\<rparr>"

lemma no_rows_first:
  "no_rows_ok (q_NextStripeEvent dbnow locked d) =
     Inr (case q_NextStripeEvent dbnow locked d of Inl _ \<Rightarrow> None | Inr e \<Rightarrow> Some e)"
  using first_by_None by (auto simp: no_rows_ok_def q_NextStripeEvent_def split: sum.splits)

lemma ProcessNext_Inr:
  assumes "ProcessNext w scan refresh dbnow locked now s = (Inr b, t)"
  shows "(\<not> b \<and> t = s \<and> isl (q_NextStripeEvent dbnow locked (st_db s))) \<or>
    (b \<and> (\<exists>e r u. q_NextStripeEvent dbnow locked (st_db s) = Inr e \<and>
       applyEvent w scan refresh e now (s\<lparr>st_db := started (ev_id e) (st_db s)\<rparr>) = (r, u) \<and>
       (case r of
          Inl err \<Rightarrow> q_FailStripeEvent dbnow (ev_id e) (eventFailure err) (started (ev_id e) (st_db s)) = Inr (st_db t)
        | Inr _ \<Rightarrow> q_CompleteStripeEvent (ev_id e) now (st_db u) = Inr (st_db t))))"
proof (cases "q_NextStripeEvent dbnow locked (st_db s)")
  case (Inl e)
  then show ?thesis using assms
    by (auto simp: ProcessNext_def BeginFunc_def sbind_def sread_def no_rows_first sreturn_def)
next
  case (Inr e)
  obtain r u where run: "applyEvent w scan refresh e now (s\<lparr>st_db := started (ev_id e) (st_db s)\<rparr>) = (r, u)" by fastforce
  have "sbind (stry (BeginFunc (applyEvent w scan refresh e now))) (\<lambda>applied.
      sbind (case applied of
               Inl err \<Rightarrow> swrite (q_FailStripeEvent dbnow (ev_id e) (eventFailure err))
             | Inr _ \<Rightarrow> swrite (q_CompleteStripeEvent (ev_id e) now)) (\<lambda>_.
      sreturn True)) (s\<lparr>st_db := started (ev_id e) (st_db s)\<rparr>) = (Inr b, t)"
    using assms
    by (simp add: ProcessNext_def BeginFunc_cases) (simp add: sbind_def sread_def swrite_def no_rows_first Inr
        q_IncrementEventAttempt_def started_def)
  then have "b \<and> (case r of
          Inl err \<Rightarrow> q_FailStripeEvent dbnow (ev_id e) (eventFailure err) (started (ev_id e) (st_db s)) = Inr (st_db t)
        | Inr _ \<Rightarrow> q_CompleteStripeEvent (ev_id e) now (st_db u) = Inr (st_db t))"
    using run by (cases r) (auto simp: sbind_Inr stry_Inr BeginFunc_cases)
  then show ?thesis using Inr run by blast
qed

section \<open>Properties of the worker\<close>

text \<open>
  Saving a verified event is idempotent in the processor's event identifier: a first delivery
  appends the event, unprocessed and due at once; a redelivery, whatever it carries, leaves the
  stored facts and their processing state as they are. An event without an identifier is
  never stored.
\<close>

lemma SaveVerifiedEvent_first_wins:
  assumes "SaveVerifiedEvent dbnow event s = (Inr u, t)"
  shows "e_id event \<noteq> [] \<and> db_events (st_db t) =
    (if e_id event \<in> ev_stripe ` set (db_events (st_db s)) then db_events (st_db s)
     else db_events (st_db s) @ [\<lparr>ev_id = hd (db_ids (st_db s)), ev_stripe = e_id event, ev_type = e_kind event,
       ev_occurred = e_occurred event, ev_data = e_data event, ev_processed = None, ev_attempts = 0, ev_error = None,
       ev_available = dbnow\<rparr>])"
proof -
  obtain ident ids d' where "e_id event \<noteq> []" and ids: "db_ids (st_db s) = ident # ids"
    and ins: "q_InsertStripeEvent \<lparr>ev_id = ident, ev_stripe = e_id event, ev_type = e_kind event,
       ev_occurred = e_occurred event, ev_data = e_data event, ev_processed = None, ev_attempts = 0, ev_error = None,
       ev_available = dbnow\<rparr> (st_db s\<lparr>db_ids := ids\<rparr>) = Inr d'" and "st_db t = d'"
    using assms by (auto simp: SaveVerifiedEvent_def sbind_Inr split: if_splits)
  then show ?thesis using event_table.ins_rows[OF ins] by (auto simp: ids)
qed

definition retry_at :: "time \<Rightarrow> int \<Rightarrow> time" where
  "retry_at dbnow attempts = dbnow + min (2 ^ nat attempts * (30 * Second)) Hour"

text \<open>
  The tables after the worker is done with event \<open>key\<close>, where \<open>r\<close> is what applying it gave, \<open>d\<close>
  the tables before and \<open>d'\<close> those the application left.
\<close>

definition settled :: "time \<Rightarrow> time \<Rightarrow> string \<Rightarrow> store_error + unit \<Rightarrow> db \<Rightarrow> db \<Rightarrow> db" where
  "settled dbnow now key r d d' = (case r of
      Inl err \<Rightarrow> d\<lparr>db_events := update_rows (\<lambda>x. ev_id x = key)
        (\<lambda>x. x\<lparr>ev_attempts := ev_attempts x + 1, ev_error := Some (eventFailure err),
               ev_available := retry_at dbnow (ev_attempts x + 1)\<rparr>) (db_events d)\<rparr>
    | Inr _ \<Rightarrow> d'\<lparr>db_events := update_rows (\<lambda>x. ev_id x = key)
        (\<lambda>x. x\<lparr>ev_processed := Some now, ev_error := None\<rparr>) (db_events d')\<rparr>)"

lemma ProcessNext_step:
  assumes "ProcessNext w scan refresh dbnow locked now s = (Inr True, t)"
  obtains e r u where "q_NextStripeEvent dbnow locked (st_db s) = Inr e"
    "e \<in> set (db_events (st_db s))" "ev_processed e = None" "ev_attempts e < 10" "ev_available e \<le> dbnow"
    "applyEvent w scan refresh e now (s\<lparr>st_db := started (ev_id e) (st_db s)\<rparr>) = (r, u)"
    "st_db t = settled dbnow now (ev_id e) r (st_db s) (st_db u)"
proof -
  obtain e r u where e: "q_NextStripeEvent dbnow locked (st_db s) = Inr e"
    and run: "applyEvent w scan refresh e now (s\<lparr>st_db := started (ev_id e) (st_db s)\<rparr>) = (r, u)"
    and out: "case r of
          Inl err \<Rightarrow> q_FailStripeEvent dbnow (ev_id e) (eventFailure err) (started (ev_id e) (st_db s)) = Inr (st_db t)
        | Inr _ \<Rightarrow> q_CompleteStripeEvent (ev_id e) now (st_db u) = Inr (st_db t)"
    using ProcessNext_Inr[OF assms] by auto
  have due: "e \<in> set (db_events (st_db s))" "ev_processed e = None" "ev_attempts e < 10" "ev_available e \<le> dbnow"
    using first_by_in[OF e[unfolded q_NextStripeEvent_def]] by simp_all
  have "st_db t = settled dbnow now (ev_id e) r (st_db s) (st_db u)"
    using out by (cases r) (auto simp: settled_def q_FailStripeEvent_def q_CompleteStripeEvent_def started_def
        retry_at_def update_rows_update_rows)
  with e due run show thesis by (rule that)
qed

text \<open>
  C24. A step of the worker takes a due event that is neither processed nor exhausted,
  counts an attempt and applies it. If applying it fails, nothing of its work remains: the
  tables are as before but for the event's own row, which carries the attempt, the category of
  the failure and its next try, 30 seconds doubled per attempt and at most an hour away. If it
  succeeds, the event is marked processed on top of its effects.
\<close>

theorem ProcessNext_outcome:
  assumes "ProcessNext w scan refresh dbnow locked now s = (Inr True, t)"
  shows "\<exists>e r u. e \<in> set (db_events (st_db s)) \<and> ev_processed e = None \<and> ev_attempts e < 10 \<and> ev_available e \<le> dbnow \<and>
    applyEvent w scan refresh e now (s\<lparr>st_db := started (ev_id e) (st_db s)\<rparr>) = (r, u) \<and>
    st_db t = settled dbnow now (ev_id e) r (st_db s) (st_db u)"
  by (rule ProcessNext_step[OF assms]) (intro exI conjI)

definition sample_event :: event_row where
  "sample_event = \<lparr>ev_id = ''e1'', ev_stripe = ''evt_1'', ev_type = ''refund.created'', ev_occurred = of_unix 900,
     ev_data = JObj [(''id'', JStr ''re_1''), (''payment_intent'', JStr ''pi_1'')], ev_processed = None, ev_attempts = 0,
     ev_error = None, ev_available = of_unix 1000\<rparr>"

text \<open>A processor that reports the sample refund, succeeded.\<close>

definition sample_worker :: "unit EventWorker" where
  "sample_worker = \<lparr>ew_Gateway = Some \<lparr>gw_RetrievePaymentMethod = (\<lambda>_ x. (Inl ErrProcessorUnavailable, x)),
     gw_RetrieveRefund = (\<lambda>_ x. (Inr sample_refund_object, x)),
     gw_RetrieveSubscription = (\<lambda>_ x. (Inl ErrProcessorUnavailable, x))\<rparr>, ew_PaymentMethods = None\<rparr>"

definition no_refresh :: "string \<Rightarrow> time \<Rightarrow> (unit, unit) tx" where
  "no_refresh donor now = sreturn ()"

definition sample_inbox_st :: "unit st" where
  "sample_inbox_st = sample_gift_st\<lparr>st_db := (st_db sample_gift_st)\<lparr>db_events := [sample_event]\<rparr>\<rparr>"

theorem ProcessNext_outcome_witness:
  "fst (ProcessNext sample_worker Some no_refresh (of_unix 2000) [] (of_unix 2000) sample_inbox_st) = Inr True \<and>
   (\<exists>e. e \<in> set (db_events (st_db sample_inbox_st)) \<and> ev_attempts e < 10)"
proof -
  have a: "fst (ProcessNext sample_worker Some no_refresh (of_unix 2000) [] (of_unix 2000) sample_inbox_st) = Inr True"
    by code_simp
  show ?thesis using ProcessNext_outcome[OF run_fst[OF a]] a by blast
qed

subsection \<open>The ledger over time\<close>

subsection \<open>The worker does not spin\<close>

definition event_budget :: "event_row \<Rightarrow> nat" where
  "event_budget e = (if ev_processed e = None then nat (10 - ev_attempts e) else 0)"

definition inbox_budget :: "'g st \<Rightarrow> nat" where
  "inbox_budget s = sum_list (map event_budget (db_events (st_db s)))"

text \<open>The same for the rows of one event, and the polls that take it.\<close>

definition attempts_left :: "string \<Rightarrow> 'g st \<Rightarrow> nat" where
  "attempts_left ident s = sum_list (map event_budget (filter (\<lambda>e. ev_id e = ident) (db_events (st_db s))))"

definition takes_event :: "string \<Rightarrow> time \<times> string list \<times> time \<Rightarrow> 'g st \<Rightarrow> bool" where
  "takes_event ident poll s = (case poll of (dbnow, locked, now) \<Rightarrow>
     (case q_NextStripeEvent dbnow locked (st_db s) of Inl _ \<Rightarrow> False | Inr e \<Rightarrow> ev_id e = ident))"

text \<open>
  What a step does to the inbox: it changes the row of the event it takes, which loses an
  attempt at least; no other step changes a row.
\<close>

lemma ProcessNext_rows:
  assumes frame: "\<And>donor now E. keeps (\<lambda>d. db_events d = E) (refresh donor now)"
    and run: "ProcessNext w scan refresh dbnow locked now s = (Inr True, t)"
  obtains e f where "q_NextStripeEvent dbnow locked (st_db s) = Inr e" "e \<in> set (db_events (st_db s))"
    "db_events (st_db t) = update_rows (\<lambda>x. ev_id x = ev_id e) f (db_events (st_db s))"
    "\<And>x. ev_id (f x) = ev_id x" "\<And>x. event_budget (f x) \<le> event_budget x" "event_budget (f e) < event_budget e"
proof -
  obtain e r u where next': "q_NextStripeEvent dbnow locked (st_db s) = Inr e"
    and e: "e \<in> set (db_events (st_db s))" "ev_processed e = None" "ev_attempts e < 10"
    and app: "applyEvent w scan refresh e now (s\<lparr>st_db := started (ev_id e) (st_db s)\<rparr>) = (r, u)"
    and t: "st_db t = settled dbnow now (ev_id e) r (st_db s) (st_db u)"
    using run by (rule ProcessNext_step)
  have frame': "db_events (st_db u) = db_events (started (ev_id e) (st_db s))" if "r = Inr x" for x
    using keepsD[OF events_worker.keeps_applyEvent[OF frame] refl] app that by fastforce
  show thesis
  proof (cases r)
    case (Inl err)
    show thesis
      by (rule that[OF next' e(1), of "\<lambda>x. x\<lparr>ev_attempts := ev_attempts x + 1, ev_error := Some (eventFailure err),
          ev_available := retry_at dbnow (ev_attempts x + 1)\<rparr>"])
        (use t e Inl in \<open>auto simp: event_budget_def settled_def\<close>)
  next
    case (Inr x)
    show thesis
      by (rule that[OF next' e(1), of "\<lambda>x. x\<lparr>ev_attempts := ev_attempts x + 1, ev_processed := Some now, ev_error := None\<rparr>"])
        (use t e Inr frame'[OF Inr] in \<open>auto simp: settled_def started_def update_rows_update_rows
          event_budget_def\<close>)
  qed
qed

lemma ProcessNext_budget:
  assumes frame: "\<And>donor now E. keeps (\<lambda>d. db_events d = E) (refresh donor now)"
    and run: "ProcessNext w scan refresh dbnow locked now s = (Inr b, t)"
  shows "if b then inbox_budget t < inbox_budget s else t = s"
proof (cases b)
  case True
  with run have "ProcessNext w scan refresh dbnow locked now s = (Inr True, t)" by simp
  then obtain e f where "e \<in> set (db_events (st_db s))"
    and rows: "db_events (st_db t) = update_rows (\<lambda>x. ev_id x = ev_id e) f (db_events (st_db s))"
    and f: "\<And>x. event_budget (f x) \<le> event_budget x" "event_budget (f e) < event_budget e"
    by (rule ProcessNext_rows[OF frame]) blast
  then show ?thesis unfolding inbox_budget_def rows if_P[OF True] by (intro sum_list_update_rows_less[of e]) simp_all
next
  case False
  then show ?thesis using ProcessNext_Inr[OF run] by simp
qed

lemma filter_update_same:
  "(\<And>x. Q (f x) = Q x) \<Longrightarrow> filter Q (update_rows P f rows) = update_rows P f (filter Q rows)"
  by (induction rows) (auto simp: update_rows_def)

lemma ProcessNext_attempts:
  assumes frame: "\<And>donor now E. keeps (\<lambda>d. db_events d = E) (refresh donor now)"
    and run: "ProcessNext w scan refresh dbnow locked now s = (Inr b, t)"
  shows "if b \<and> takes_event ident (dbnow, locked, now) s then attempts_left ident t < attempts_left ident s
    else attempts_left ident t \<le> attempts_left ident s"
proof (cases b)
  case True
  with run have run': "ProcessNext w scan refresh dbnow locked now s = (Inr True, t)" by simp
  obtain e f where e: "q_NextStripeEvent dbnow locked (st_db s) = Inr e" "e \<in> set (db_events (st_db s))"
    and rows: "db_events (st_db t) = update_rows (\<lambda>x. ev_id x = ev_id e) f (db_events (st_db s))"
    and f: "\<And>x. ev_id (f x) = ev_id x" "\<And>x. event_budget (f x) \<le> event_budget x" "event_budget (f e) < event_budget e"
    using run' by (rule ProcessNext_rows[OF frame]) blast
  let ?mine = "filter (\<lambda>x. ev_id x = ident) (db_events (st_db s))"
  have t: "attempts_left ident t = sum_list (map event_budget (update_rows (\<lambda>x. ev_id x = ev_id e) f ?mine))"
    unfolding attempts_left_def rows by (subst filter_update_same) (simp_all add: f)
  have s: "attempts_left ident s = sum_list (map event_budget ?mine)" by (simp add: attempts_left_def)
  show ?thesis
  proof (cases "ev_id e = ident")
    case True
    then have "attempts_left ident t < attempts_left ident s"
      unfolding t s using e(2) f(2,3) by (intro sum_list_update_rows_less[of e]) auto
    then show ?thesis by auto
  next
    case False
    have "attempts_left ident t \<le> attempts_left ident s"
      unfolding t s update_rows_def map_map by (rule sum_list_mono) (simp add: f(2))
    then show ?thesis using False e(1) by (simp add: takes_event_def)
  qed
next
  case False
  then show ?thesis using ProcessNext_Inr[OF run] by simp
qed

end
