(* ===== verification/Projection.thy ===== *)
theory Projection
  imports Projection_Queries Event_Worker
begin

text \<open>
  Saving the recognition projection (internal/store/financial.go, retention_milestones.go,
  referral_signals.go, outbox.go): under the donor lock the donor's history is read, the
  projection recomputed and saved, the referrer's totals adjusted and the facts worth telling
  recorded. From the run time come the tz database, the zone of New York and
  \<open>time.Time.String\<close>, and from the database the time it stamped each gift row with
  (the default of \<open>created_at\<close>) and its clock.
\<close>

record runtime =
  rn_Zone :: "string \<Rightarrow> location"
  rn_NewYork :: location
  rn_String :: "time \<Rightarrow> string"
  rn_Created :: "string \<Rightarrow> time"
  rn_Clock :: time

section \<open>Reading the history\<close>

definition history_gift :: "gift_row \<times> time option \<Rightarrow> rec_error + gift" where
  "history_gift row =
     (let (g, expires) = row;
          gift = \<lparr>g_ID = gr_object g, g_DonorID = gr_donor g, g_Amount = gr_amount g, g_PaidAt = gr_paid_at g,
                  g_Frequency = gr_frequency g, g_Candidate = None, g_PeriodID = nullstr (gr_period g), g_Currency = gr_currency g\<rparr>
      in case gr_referrer g of
           None \<Rightarrow> Inr gift
         | Some referrer \<Rightarrow>
             (case (gr_kind g, expires) of
                (Some kind, Some at) \<Rightarrow>
                  Inr (gift\<lparr>g_Candidate := Some \<lparr>c_ReferrerID = referrer, c_Kind = kind, c_ExpiresAt = at\<rparr>\<rparr>)
              | _ \<Rightarrow> Inl ErrInvalid))"

fun history_gifts :: "(gift_row \<times> time option) list \<Rightarrow> rec_error + gift list" where
  "history_gifts [] = Inr []"
| "history_gifts (row # rows) = rbind (history_gift row) (\<lambda>g. rbind (history_gifts rows) (\<lambda>gs. Inr (g # gs)))"

definition loadHistory :: "string \<Rightarrow> ('g, history) tx" where
  "loadHistory donor =
     sbind (sread (q_GiftHistory donor)) (\<lambda>rows.
     sbind (slift (of_rec (history_gifts rows))) (\<lambda>gifts.
     sbind (sread (q_RefundHistory donor)) (\<lambda>refunds.
     sbind (sread (q_PeriodHistory donor)) (\<lambda>periods.
     sreturn \<lparr>h_Gifts = gifts,
       h_Refunds = map (\<lambda>(r, object'). \<lparr>r_ID = rr_stripe r, r_GiftID = object', r_Amount = rr_amount r, r_Status = rr_status r,
         r_UpdatedAt = rr_observed r, r_Currency = rr_currency r\<rparr>) refunds,
       h_Periods = map (\<lambda>p. \<lparr>p_ID = pr_id p, p_DonorID = pr_donor p, p_DueAt = pr_due p, p_EndsAt = pr_ends p,
         p_Status = (if pr_status p = ''FAILED'' then ''FAILED'' else ''EXPECTED'')\<rparr>) periods\<rparr>))))"

definition withholdSharedReferrals :: "string \<Rightarrow> gift list \<Rightarrow> ('g, gift list) tx" where
  "withholdSharedReferrals donor gifts =
     (if \<not> list_ex (\<lambda>g. g_Candidate g \<noteq> None) gifts then sreturn gifts
      else sbind (sread (q_SharedSignalDonors donor)) (\<lambda>blocked.
        sreturn (map (\<lambda>g. case g_Candidate g of
            None \<Rightarrow> g
          | Some c \<Rightarrow> if c_ReferrerID c \<in> set blocked then g\<lparr>g_Candidate := None\<rparr> else g) gifts)))"

definition renewalStops :: "string \<Rightarrow> ('g, time list) tx" where
  "renewalStops donor = sread (q_StoppedPeriods donor)"

section \<open>What is recorded beside the projection\<close>

definition seedProjection :: "string \<Rightarrow> time \<Rightarrow> ('g, unit) tx" where
  "seedProjection donor now = sbind NewID (\<lambda>ident. swrite (q_SeedProjection ident donor now))"

definition recordServerEvent :: "string \<Rightarrow> string \<Rightarrow> string \<Rightarrow> time \<Rightarrow> ('g, unit) tx" where
  "recordServerEvent donor name key now = sbind NewID (\<lambda>ident.
     swrite (q_InsertObservedEvent \<lparr>ob_id = ident, ob_name = name, ob_donor = donor, ob_key = key, ob_occurred = now\<rparr>))"

definition pushLifetime :: duration where "pushLifetime = 24 * Hour"

definition earnBadge :: "string \<Rightarrow> string \<Rightarrow> string option \<Rightarrow> time \<Rightarrow> ('g, unit) tx" where
  "earnBadge donor code city now =
     sbind (supdate (q_EarnBadge \<lparr>eb_donor = donor, eb_code = code, eb_earned = now, eb_city = city, eb_revoked = None\<rparr>)) (\<lambda>earned.
     if earned = 0 then sreturn ()
     else sbind (recordServerEvent donor ''badge_earned'' (''badge:'' @ donor @ '':'' @ code) now) (\<lambda>_.
       swrite (q_QueueBadgePush donor code now (now + pushLifetime))))"

definition first_monthly :: "gift list \<Rightarrow> time \<Rightarrow> time" where
  "first_monthly gifts now = foldl (\<lambda>first g.
     if g_Frequency g = ''MONTHLY'' \<and> \<not> g_PaidAt g > now \<and> (IsZero first \<or> g_PaidAt g < first) then g_PaidAt g else first) 0 gifts"

definition retained_at ::
  "string \<Rightarrow> history \<Rightarrow> RefundObservationsRow list \<Rightarrow> time list \<Rightarrow> time \<Rightarrow> time \<Rightarrow> time \<Rightarrow> rec_error + bool option" where
  "retained_at donor h observations stops first checkpoint now =
     (if checkpoint > now then Inr None
      else let earlier = filter (\<lambda>o'. \<not> o_ObservedAt o' > checkpoint) observations;
               refunds = fst (refundsAsOf (h_Refunds h) earlier checkpoint)
           in case GivingStreak (h_Gifts h) refunds (h_Periods h) donor checkpoint 0 stops of
                Inl e \<Rightarrow> if e = ErrIncomplete then Inr None else Inl e
              | Inr s \<Rightarrow> Inr (Some (case s_Since s of None \<Rightarrow> False | Some since \<Rightarrow> \<not> since > first)))"

definition saveRetention ::
  "string \<Rightarrow> history \<Rightarrow> RefundObservationsRow list \<Rightarrow> time list \<Rightarrow> location \<Rightarrow> time \<Rightarrow> ('g, unit) tx" where
  "saveRetention donor h observations stops zone now =
     (let first = first_monthly (h_Gifts h) now
      in if IsZero first then sreturn ()
         else sfor [30, 90, 180, 365] (\<lambda>days.
           let checkpoint = AddDays zone first days
           in sbind (slift (of_rec (retained_at donor h observations stops first checkpoint now))) (\<lambda>retained.
              swrite (q_SaveRetentionMilestone \<lparr>rm_donor = donor, rm_days = days, rm_cohort = first, rm_checkpoint = checkpoint,
                rm_retained = retained, rm_computed = now\<rparr>))))"

section \<open>The referrer's totals\<close>

definition recomputeReferredTotals :: "string \<Rightarrow> projection_row \<Rightarrow> ('g, projection_row) tx" where
  "recomputeReferredTotals donor out =
     sbind (sread (\<lambda>d. no_rows_ok (q_ReferralTotalsFromReferred donor d))) (\<lambda>totals.
       let (link, irl, linkMinor, irlMinor) = (case totals of None \<Rightarrow> (0, 0, 0, 0) | Some t \<Rightarrow> t)
       in sreturn (out\<lparr>mp_link_count := link, mp_irl_count := irl, mp_link_minor := linkMinor, mp_irl_minor := irlMinor\<rparr>))"

definition no_delta :: referral_delta where
  "no_delta = \<lparr>rd_link_count = 0, rd_irl_count = 0, rd_link_minor = 0, rd_irl_minor = 0\<rparr>"

definition add_contribution ::
  "string option \<Rightarrow> string option \<Rightarrow> int option \<Rightarrow> int \<Rightarrow> referral_delta gomap \<Rightarrow> referral_delta gomap" where
  "add_contribution referrer kind net sign deltas =
     (case referrer of
        None \<Rightarrow> deltas
      | Some ref \<Rightarrow>
          let (link, irl, linkMinor, irlMinor) = referralContribution referrer kind net;
              d = (case map_of deltas ref of None \<Rightarrow> no_delta | Some d \<Rightarrow> d)
          in AList.update ref
               (d\<lparr>rd_link_count := rd_link_count d + sign * link, rd_irl_count := rd_irl_count d + sign * irl,
                  rd_link_minor := rd_link_minor d + sign * linkMinor, rd_irl_minor := rd_irl_minor d + sign * irlMinor\<rparr>) deltas)"

definition no_signals :: Signals where
  "no_signals = \<lparr>FirstGiftMade = False, FoundingQualified = False, StreakDays = 0, ComebackReached30 = False, RaisedAmount = False,
     ConvertedReferrals = 0, HasIRLReferral = False, DistinctInitiatives = 0, NationalTopPercent = None, NationalPopulation = 0,
     CityRank = None, City = [], CityPopulation = 0, VolunteerOptIn = False, EventCheckins = 0, JoinedTeam = False\<rparr>"

definition transfer :: "time \<Rightarrow> string \<times> referral_delta \<Rightarrow> ('g, unit) tx" where
  "transfer now entry =
     (let (referrer, a) = entry
      in if a = no_delta then sreturn ()
         else sbind (seedProjection referrer now) (\<lambda>_.
           sbind (supdate (q_ApplyReferralDelta referrer a)) (\<lambda>(links, irls).
           let referrals = no_signals\<lparr>ConvertedReferrals := links + irls, HasIRLReferral := irls > 0\<rparr>
           in sbind (sread (\<lambda>d. Inr (recognitionRules (rt_rules (db_rec d))))) (\<lambda>rules.
              sfor (rr_Badges rules) (\<lambda>rule.
                if ruleEarned rule referrals then earnBadge referrer (br_Code rule) None now else sreturn ())))))"

definition applyReferralDelta :: "projection_row \<Rightarrow> projection_row \<Rightarrow> time \<Rightarrow> ('g, unit) tx" where
  "applyReferralDelta old out now =
     (let deltas = add_contribution (mp_referrer old) (mp_kind old) (mp_net old) (- 1) [];
          deltas = add_contribution (mp_referrer out) (mp_kind out) (mp_net out) 1 deltas
      in sfor (sort_key fst deltas) (transfer now))"

section \<open>The projection\<close>

record projection =
  pj_row :: projection_row
  pj_since :: "time option"
  pj_donor :: donor_row
  pj_zone :: location

text \<open>
  The streak part of \<open>projectFacts\<close>: an incomplete history is retried in five minutes, an
  invalid one refused, and a counted streak saved within 32 bits. After a reset the streak is
  counted on the later gifts only, while the pledge is active by the whole history.
\<close>

definition projectStreak ::
  "projection_row \<Rightarrow> history \<Rightarrow> refund list \<Rightarrow> time list \<Rightarrow> time option \<Rightarrow> string \<Rightarrow> time \<Rightarrow> int \<Rightarrow> rec_error + (projection_row \<times> time option)" where
  "projectStreak out h refunds stops resetAt donor now best =
     (let streakGifts = (case resetAt of None \<Rightarrow> h_Gifts h | Some r \<Rightarrow> filter (\<lambda>g. g_PaidAt g > r) (h_Gifts h))
      in case GivingStreak streakGifts (refundsForGifts refunds streakGifts) (h_Periods h) donor now best stops of
           Inl e \<Rightarrow> if e = ErrIncomplete then Inr (out\<lparr>mp_next := now + 5 * Minute\<rparr>, None) else Inl e
         | Inr streak \<Rightarrow>
             if s_Current streak > MaxInt32 \<or> s_Best streak > MaxInt32 then Inl ErrInvalid
             else let out = out\<lparr>mp_current := Some (s_Current streak), mp_best := s_Best streak, mp_at_risk := s_AtRisk streak,
                                mp_grace := s_GraceEndsAt streak, mp_since := s_Since streak\<rparr>
                  in rbind (if resetAt = None then Inr streak
                            else case GivingStreak (h_Gifts h) refunds (h_Periods h) donor now best stops of
                                   Inl e \<Rightarrow> if e = ErrIncomplete then Inr streak else Inl e
                                 | Inr natural \<Rightarrow> Inr natural) (\<lambda>currentGift.
                     let active = (s_Since currentGift \<noteq> None \<and> s_Current currentGift > 0)
                     in Inr (out\<lparr>mp_active := active, mp_monthly := (if active then latestMonthlyMinor (h_Gifts h) else 0)\<rparr>,
                          s_Since streak)))"

definition or_zero :: "time option \<Rightarrow> time" where
  "or_zero t = (case t of None \<Rightarrow> 0 | Some t \<Rightarrow> t)"

text \<open>The analytics of a refresh: each gift of the last thirteen months, and the turns of the streak.\<close>

definition recordTurns :: "runtime \<Rightarrow> string \<Rightarrow> projection_row \<Rightarrow> projection_row \<Rightarrow> gift list \<Rightarrow> time \<Rightarrow> ('g, unit) tx" where
  "recordTurns rt donor old out gifts now =
     sbind (sfor gifts (\<lambda>g.
       if g_PaidAt g > now \<or> g_PaidAt g < AddDate UTC now 0 (- 13) 0 then sreturn ()
       else recordServerEvent donor ''gift_completed'' (''gift:'' @ g_ID g) (g_PaidAt g))) (\<lambda>_.
     sbind (if mp_at_risk old \<noteq> mp_at_risk out \<and> mp_at_risk out
            then recordServerEvent donor ''gift_failed''
              (''gift-failed:'' @ donor @ '':'' @ rn_String rt (or_zero (mp_grace out))) now
            else sreturn ()) (\<lambda>_.
     sbind (if mp_at_risk old \<and> \<not> mp_at_risk out \<and> mp_active out
            then recordServerEvent donor ''gift_recovered''
              (''gift-recovered:'' @ donor @ '':'' @ rn_String rt (or_zero (mp_grace old))) now
            else sreturn ()) (\<lambda>_.
     if mp_active old \<and> \<not> mp_active out \<and> \<not> mp_at_risk out
     then recordServerEvent donor ''gift_lapsed''
       (''gift-lapsed:'' @ donor @ '':'' @ rn_String rt (or_zero (mp_since old))) now
     else sreturn ())))"

definition recordConversion :: "string \<Rightarrow> projection_row \<Rightarrow> projection_row \<Rightarrow> time \<Rightarrow> ('g, unit) tx" where
  "recordConversion donor old out now =
     sbind (if mp_referrer out \<noteq> None then recordServerEvent donor ''referral_converted'' (''referral:'' @ donor) now
            else sreturn ()) (\<lambda>_.
     case mp_first old of
       None \<Rightarrow> sreturn ()
     | Some first \<Rightarrow>
         if mp_first old \<noteq> mp_first out \<or> mp_referrer old \<noteq> mp_referrer out \<or> mp_kind old \<noteq> mp_kind out
         then swrite (q_InsertReferralCorrection \<lparr>rc_donor = donor, rc_old_first = first, rc_new_first = mp_first out,
           rc_old_referrer = mp_referrer old, rc_new_referrer = mp_referrer out, rc_old_kind = mp_kind old,
           rc_new_kind = mp_kind out, rc_recorded = now, rc_rules = projectionRules\<rparr>)
         else sreturn ())"

definition computeFacts ::
  "runtime \<Rightarrow> string \<Rightarrow> time \<Rightarrow> projection_row \<Rightarrow> location \<Rightarrow> ('g, projection_row \<times> time option \<times> history) tx" where
  "computeFacts rt donor now old zone =
     (let out = (seeded_projection (mp_id old) donor now)\<lparr>mp_next := now + refreshCap donor, mp_rules := projectionRules,
                  mp_founding := mp_founding old, mp_best := mp_best old\<rparr>
      in sbind (loadHistory donor) (\<lambda>h.
         sbind (withholdSharedReferrals donor (h_Gifts h)) (\<lambda>gifts.
         let h = h\<lparr>h_Gifts := gifts\<rparr>
         in sbind (sread (q_RefundObservations donor now)) (\<lambda>observations.
            let (refunds, refundBoundaries) = refundsAsOf (h_Refunds h) observations now
            in sbind (if mp_founding out = None then sread (q_FoundingClaimed donor) else sreturn False) (\<lambda>claimed.
               sbind (slift (of_rec (projectConversion out h donor claimed now))) (\<lambda>out.
               sbind (slift (of_rec (netMinor (h_Gifts h) refunds now))) (\<lambda>net.
               let out = out\<lparr>mp_net := Some net\<rparr>
               in sbind (renewalStops donor) (\<lambda>stops.
                  sbind (saveRetention donor h observations stops zone now) (\<lambda>_.
                  sbind (slift (of_rec (historicalBest donor h observations now (mp_best out) stops))) (\<lambda>best.
                  sbind (sguard (best \<le> MaxInt32) StoreInvalid) (\<lambda>_.
                  let out = out\<lparr>mp_best := best\<rparr>
                  in sbind (sread (q_LatestStreakReset donor now)) (\<lambda>resetAt.
                     sbind (slift (of_rec (projectStreak out h refunds stops resetAt donor now best))) (\<lambda>(out, since).
                     sbind (recordTurns rt donor old out (h_Gifts h) now) (\<lambda>_.
                     sbind (sread (\<lambda>d. Inr (recognitionRules (rt_rules (db_rec d))))) (\<lambda>rules.
                     case nextRefresh (rn_NewYork rt) out h refundBoundaries stops now zone (rr_Milestones rules) of
                       None \<Rightarrow> sfail ErrPanic
                     | Some t \<Rightarrow> sreturn (out\<lparr>mp_next := t\<rparr>, since, h))))))))))))))))"

definition projectFacts :: "runtime \<Rightarrow> string \<Rightarrow> time \<Rightarrow> ('g, projection) tx" where
  "projectFacts rt donor now =
     sbind (sread (q_LockDonor donor)) (\<lambda>row.
     let zone = rn_Zone rt (nullstr (don_timezone row))
     in sbind (seedProjection donor now) (\<lambda>_.
        sbind (sread (q_LockProjection donor)) (\<lambda>old.
        sbind (computeFacts rt donor now old zone) (\<lambda>(out, since, h).
        sbind (recomputeReferredTotals donor out) (\<lambda>out.
        sbind (applyReferralDelta old out now) (\<lambda>_.
        sbind (recordConversion donor old out now) (\<lambda>_.
        sbind (swrite (q_SaveProjection out)) (\<lambda>_.
        sreturn \<lparr>pj_row = out, pj_since = since, pj_donor = row, pj_zone = zone\<rparr>))))))))"

section \<open>What a refresh leaves alone\<close>

text \<open>
  Everything \<open>projectFacts\<close> does before it touches a projection row is built from the writes
  below; what they keep, the computation keeps.
\<close>

locale beside_writes =
  fixes P :: "db \<Rightarrow> bool" and world :: "'g itself"
  assumes NewID: "keeps P (NewID :: ('g, string) tx)"
    and observed: "keeps P (swrite (q_InsertObservedEvent obr) :: ('g, unit) tx)"
    and earned: "keeps P (supdate (q_EarnBadge ebr) :: ('g, int) tx)"
    and pushed: "keeps P (swrite (q_QueueBadgePush v x a b) :: ('g, unit) tx)"
    and retention: "keeps P (swrite (q_SaveRetentionMilestone rmr) :: ('g, unit) tx)"
    and corrected: "keeps P (swrite (q_InsertReferralCorrection rcr) :: ('g, unit) tx)"
begin

lemmas beside = NewID observed earned pushed retention corrected

lemma keeps_recordServerEvent: "keeps P (recordServerEvent donor name key at :: ('g, unit) tx)"
  unfolding recordServerEvent_def by (intro keeps_rules beside)

lemma keeps_earnBadge: "keeps P (earnBadge donor code city at :: ('g, unit) tx)"
  unfolding earnBadge_def by (intro keeps_rules beside keeps_recordServerEvent)

lemma keeps_saveRetention: "keeps P (saveRetention donor h observations stops zone at :: ('g, unit) tx)"
  unfolding saveRetention_def Let_def by (intro keeps_rules beside)

lemma keeps_recordTurns: "keeps P (recordTurns rt donor old out gifts at :: ('g, unit) tx)"
  unfolding recordTurns_def by (intro keeps_rules keeps_recordServerEvent)

lemma keeps_recordConversion: "keeps P (recordConversion donor old out at :: ('g, unit) tx)"
  unfolding recordConversion_def by (intro keeps_rules beside keeps_recordServerEvent)

lemma keeps_loadHistory: "keeps P (loadHistory donor :: ('g, history) tx)"
  unfolding loadHistory_def by (intro keeps_rules)

lemma keeps_withhold: "keeps P (withholdSharedReferrals donor gifts :: ('g, gift list) tx)"
  unfolding withholdSharedReferrals_def by (intro keeps_rules)

lemma keeps_computeFacts: "keeps P (computeFacts rt donor at old zone :: ('g, projection_row \<times> time option \<times> history) tx)"
  unfolding computeFacts_def Let_def renewalStops_def
  by (intro keeps_rules keeps_loadHistory keeps_withhold keeps_saveRetention keeps_recordTurns)

end

text \<open>The whole of \<open>projectFacts\<close> also seeds, adjusts, defers and saves projection rows.\<close>

locale projection_writes = beside_writes P world for P :: "db \<Rightarrow> bool" and world :: "'g itself" +
  assumes seeded: "keeps P (swrite (q_SeedProjection i v a) :: ('g, unit) tx)"
    and adjusted: "keeps P (supdate (q_ApplyReferralDelta i x) :: ('g, int \<times> int) tx)"
    and saved: "keeps P (swrite (q_SaveProjection mpr) :: ('g, unit) tx)"
    and deferred: "keeps P (swrite (q_DeferProjection i v a n) :: ('g, unit) tx)"
begin

lemma keeps_transfer: "keeps P (transfer at e :: ('g, unit) tx)"
  unfolding transfer_def seedProjection_def Let_def by (intro keeps_rules NewID seeded adjusted keeps_earnBadge)

lemma keeps_projectFacts: "keeps P (projectFacts rt donor at :: ('g, projection) tx)"
  unfolding projectFacts_def Let_def seedProjection_def recomputeReferredTotals_def applyReferralDelta_def
  by (intro keeps_rules NewID seeded saved keeps_computeFacts keeps_transfer keeps_recordConversion)

end

lemma keeps_factsI:
  "(\<And>d d'. f d = Inr d' \<Longrightarrow> facts_of d' = facts_of d) \<Longrightarrow> keeps (\<lambda>d. facts_of d = X) (swrite f)"
  by (rule keeps_write) auto

lemma keeps_facts_NewID: "keeps (\<lambda>d. facts_of d = X) NewID"
  by (rule keepsI) auto

interpretation facts_kept: projection_writes "\<lambda>d. facts_of d = X" "TYPE('g)" for X
proof unfold_locales
  show "keeps (\<lambda>d. facts_of d = X) (supdate (q_EarnBadge ebr) :: ('g, int) tx)" for ebr
    by (rule keeps_update_rows) (auto simp: q_EarnBadge_def Let_def split: if_splits)
  show "keeps (\<lambda>d. facts_of d = X) (supdate (q_ApplyReferralDelta i x) :: ('g, int \<times> int) tx)" for i x
    by (rule keeps_update_rows) (auto simp: q_ApplyReferralDelta_def rbind_eq_Inr Let_def split: if_splits)
qed (rule keeps_facts_NewID, auto intro!: keeps_factsI simp: q_InsertObservedEvent_def q_QueueBadgePush_def
    q_SaveRetentionMilestone_def q_InsertReferralCorrection_def q_SeedProjection_def q_SaveProjection_def
    q_DeferProjection_def rbind_eq_Inr Let_def split: if_splits list.splits)

interpretation rows_kept: beside_writes "\<lambda>d. db_projections d = R \<and> db_donors d = D" "TYPE('g)" for R D
proof unfold_locales
  show "keeps (\<lambda>d. db_projections d = R \<and> db_donors d = D) (supdate (q_EarnBadge ebr) :: ('g, int) tx)" for ebr
    by (rule keeps_update_rows) (auto simp: q_EarnBadge_def Let_def split: if_splits)
  show "keeps (\<lambda>d. db_projections d = R \<and> db_donors d = D) NewID" by (rule keepsI) auto
qed (auto intro!: keeps_write simp: q_InsertObservedEvent_def q_QueueBadgePush_def
    q_SaveRetentionMilestone_def q_InsertReferralCorrection_def rbind_eq_Inr Let_def split: if_splits list.splits)

section \<open>The referral totals\<close>

text \<open>
  The four totals on a referrer's row, by number, what a row contributes to them, and what all
  rows together credit a referrer with: the aggregate the totals stand for.
\<close>

definition share :: "nat \<Rightarrow> projection_row \<Rightarrow> int" where
  "share k r = (case referralContribution (mp_referrer r) (mp_kind r) (mp_net r) of (a, b, c, e) \<Rightarrow> [a, b, c, e] ! k)"

definition held :: "nat \<Rightarrow> projection_row \<Rightarrow> int" where
  "held k r = [mp_link_count r, mp_irl_count r, mp_link_minor r, mp_irl_minor r] ! k"

definition credit :: "nat \<Rightarrow> string \<Rightarrow> projection_row \<Rightarrow> int" where
  "credit k R r = (if mp_referrer r = Some R then share k r else 0)"

definition credited :: "nat \<Rightarrow> string \<Rightarrow> projection_row list \<Rightarrow> int" where
  "credited k R rows = sum_list (map (credit k R) rows)"

definition held_by :: "nat \<Rightarrow> string \<Rightarrow> projection_row list \<Rightarrow> int" where
  "held_by k R rows = (case find (\<lambda>r. mp_donor r = R) rows of None \<Rightarrow> 0 | Some r \<Rightarrow> held k r)"

definition totals_ok :: "projection_row list \<Rightarrow> bool" where
  "totals_ok rows \<longleftrightarrow> distinct (map mp_donor rows) \<and> (\<forall>r\<in>set rows. mp_referrer r \<noteq> Some (mp_donor r)) \<and>
     (\<forall>k<4. \<forall>R. held_by k R rows = credited k R rows)"

lemma less_4: "k < (4::nat) \<longleftrightarrow> k = 0 \<or> k = 1 \<or> k = 2 \<or> k = 3"
  by auto

text \<open>The statement computes the aggregate.\<close>

lemma filtered_sum:
  "int (length (filter P rows)) = sum_list (map (\<lambda>r. if P r then 1 else 0) rows)"
  "sum_list (map f (filter P rows)) = sum_list (map (\<lambda>r. if P r then f r else 0) rows)" for f :: "'a \<Rightarrow> int"
  by (induction rows) auto

lemma ReferralTotals_credited:
  assumes "q_ReferralTotalsFromReferred R d = Inr (a, b, c, e)" and "k < 4"
  shows "[a, b, c, e] ! k = credited k R (db_projections d)"
proof -
  have "a = credited 0 R (db_projections d)" "b = credited 1 R (db_projections d)" "c = credited 2 R (db_projections d)"
    "e = credited 3 R (db_projections d)"
    using assms(1) unfolding q_ReferralTotalsFromReferred_def Let_def credited_def
    by (auto simp: filtered_sum credit_def share_def referralContribution_def net_or_0_def split: if_splits option.splits
        intro!: arg_cong[where f = sum_list] map_cong)
  with assms(2) show ?thesis unfolding less_4 by (elim disjE) simp_all
qed

lemma find_by_donor:
  "distinct (map mp_donor rows) \<Longrightarrow> r \<in> set rows \<Longrightarrow> find (\<lambda>x. mp_donor x = mp_donor r) rows = Some r"
  by (induction rows) (auto simp: image_iff)

text \<open>How the three writes of projection rows change what is held and what is credited.\<close>

lemma seed_totals:
  assumes "q_SeedProjection i R at d = Inr d'" and "k < 4"
  shows "held_by k Q (db_projections d') = held_by k Q (db_projections d)"
    and "credited k Q (db_projections d') = credited k Q (db_projections d)"
    and "distinct (map mp_donor (db_projections d)) \<Longrightarrow> distinct (map mp_donor (db_projections d'))"
    and "R \<in> mp_donor ` set (db_projections d')"
    and "\<exists>new. db_projections d' = db_projections d @ new \<and> (\<forall>r\<in>set new. mp_referrer r = None)"
proof -
  have "find P (xs @ ys) = (case find P xs of None \<Rightarrow> find P ys | Some x \<Rightarrow> Some x)" for P xs and ys :: "projection_row list"
    by (induction xs) auto
  moreover have "held k (seeded_projection i R at) = 0"
    using assms(2) unfolding less_4 by (auto simp: held_def seeded_projection_def)
  ultimately show "held_by k Q (db_projections d') = held_by k Q (db_projections d)"
    using assms(1) by (auto simp: q_SeedProjection_def held_by_def split: if_splits option.splits)
  show "credited k Q (db_projections d') = credited k Q (db_projections d)"
    using assms(1) by (auto simp: q_SeedProjection_def credited_def credit_def seeded_projection_def split: if_splits)
  show "distinct (map mp_donor (db_projections d)) \<Longrightarrow> distinct (map mp_donor (db_projections d'))"
    using assms(1) by (auto simp: q_SeedProjection_def list_ex_iff seeded_projection_def split: if_splits)
  show "R \<in> mp_donor ` set (db_projections d')"
    using assms(1) by (force simp: q_SeedProjection_def list_ex_iff seeded_projection_def split: if_splits)
  show "\<exists>new. db_projections d' = db_projections d @ new \<and> (\<forall>r\<in>set new. mp_referrer r = None)"
    using assms(1) by (auto simp: q_SeedProjection_def seeded_projection_def split: if_splits)
qed

definition delta :: "nat \<Rightarrow> referral_delta \<Rightarrow> int" where
  "delta k a = [rd_link_count a, rd_irl_count a, rd_link_minor a, rd_irl_minor a] ! k"

lemma held_add_delta: "k < 4 \<Longrightarrow> held k (add_delta a r) = held k r + delta k a"
  unfolding less_4 by (auto simp: held_def add_delta_def delta_def)

lemma delta_totals:
  assumes "q_ApplyReferralDelta R a d = Inr (n, d')" and "k < 4"
  shows "held_by k Q (db_projections d') = held_by k Q (db_projections d) + (if Q = R then delta k a else 0)"
    and "credited k Q (db_projections d') = credited k Q (db_projections d)"
    and "map (\<lambda>r. (mp_donor r, mp_referrer r, mp_kind r, mp_net r)) (db_projections d') =
      map (\<lambda>r. (mp_donor r, mp_referrer r, mp_kind r, mp_net r)) (db_projections d)"
proof -
  obtain r where r: "find (\<lambda>r. mp_donor r = R) (db_projections d) = Some r"
    and d': "db_projections d' = update_rows (\<lambda>x. mp_donor x = R) (add_delta a) (db_projections d)"
    using assms(1) by (auto simp: q_ApplyReferralDelta_def rbind_eq_Inr one_row_Inr Let_def split: if_splits)
  have keep: "mp_donor (add_delta a x) = mp_donor x" "credit k Q (add_delta a x) = credit k Q x" for x
    by (simp_all add: add_delta_def credit_def share_def)
  have "find (\<lambda>x. mp_donor x = Q) (db_projections d') =
    map_option (\<lambda>x. if mp_donor x = R then add_delta a x else x) (find (\<lambda>x. mp_donor x = Q) (db_projections d))"
    unfolding d' by (rule find_update_rows) (simp add: keep)
  then show "held_by k Q (db_projections d') = held_by k Q (db_projections d) + (if Q = R then delta k a else 0)"
  proof (cases "Q = R")
    case True
    moreover have "mp_donor r = R" using r by (auto simp: find_Some_iff)
    ultimately show ?thesis using \<open>find _ (db_projections d') = _\<close> r assms(2) by (simp add: held_by_def held_add_delta)
  next
    case False
    have "mp_donor x = Q" if "find (\<lambda>x. mp_donor x = Q) (db_projections d) = Some x" for x
      using that by (auto simp: find_Some_iff)
    then show ?thesis using False \<open>find _ (db_projections d') = _\<close> by (auto simp: held_by_def split: option.splits)
  qed
  show "credited k Q (db_projections d') = credited k Q (db_projections d)"
    unfolding d' credited_def map_update_rows[of "credit k Q" "add_delta a", OF keep(2)] ..
  show "map (\<lambda>r. (mp_donor r, mp_referrer r, mp_kind r, mp_net r)) (db_projections d') =
      map (\<lambda>r. (mp_donor r, mp_referrer r, mp_kind r, mp_net r)) (db_projections d)"
    unfolding d' by (rule map_update_rows) (simp add: add_delta_def)
qed

text \<open>The rows that matter to the totals are there before and after, and new rows credit nobody.\<close>

definition key_of :: "projection_row \<Rightarrow> string \<times> string option \<times> string option \<times> int option" where
  "key_of r = (mp_donor r, mp_referrer r, mp_kind r, mp_net r)"

definition grown :: "projection_row list \<Rightarrow> projection_row list \<Rightarrow> bool" where
  "grown rows rows' \<longleftrightarrow> (\<exists>new. map key_of rows' = map key_of rows @ new \<and> (\<forall>x\<in>set new. fst (snd x) = None)) \<and>
     (distinct (map mp_donor rows) \<longrightarrow> distinct (map mp_donor rows'))"

lemma map_donor: "map mp_donor rows = map fst (map key_of rows)"
  by (simp add: key_of_def)

lemma grown_refl [simp]: "grown rows rows"
  by (simp add: grown_def)

lemma grown_trans: "grown a b \<Longrightarrow> grown b c \<Longrightarrow> grown a c"
  unfolding grown_def by (elim conjE exE, intro conjI) (rule_tac x = "new @ newa" in exI, auto)

lemma credit_key: "credit k R r = (case key_of r of (_, ref, kind, net) \<Rightarrow>
    if ref = Some R then (case referralContribution ref kind net of (a, b, c, e) \<Rightarrow> [a, b, c, e] ! k) else 0)"
  by (simp add: credit_def share_def key_of_def)

lemma grown_credited: "grown rows rows' \<Longrightarrow> credited k R rows' = credited k R rows"
proof -
  let ?f = "\<lambda>(_ :: string, ref, kind, net). if ref = Some R
     then (case referralContribution ref kind net of (a, b, c, e) \<Rightarrow> [a, b, c, e] ! k) else 0"
  have sum: "credited k R rs = sum_list (map ?f (map key_of rs))" for rs
    unfolding credited_def map_map by (intro arg_cong[where f = sum_list] map_cong refl) (simp add: credit_key)
  assume "grown rows rows'"
  then obtain new where "map key_of rows' = map key_of rows @ new" "\<forall>x\<in>set new. fst (snd x) = None" by (auto simp: grown_def)
  moreover from this(2) have "sum_list (map ?f new) = 0" by (induction new) (auto split: prod.splits)
  ultimately show ?thesis unfolding sum by simp
qed

lemma grown_find:
  assumes "grown rows rows'" and "find (\<lambda>r. mp_donor r = R) rows = Some r"
  shows "\<exists>r'. find (\<lambda>r. mp_donor r = R) rows' = Some r' \<and> key_of r' = key_of r"
proof -
  have key: "map_option key_of (find (\<lambda>r. mp_donor r = R) rs) = find (\<lambda>x. fst x = R) (map key_of rs)" for rs
    by (induction rs) (auto simp: key_of_def)
  have app: "find P xs = Some x \<Longrightarrow> find P (xs @ ys) = Some x" for P x and xs ys :: "(string \<times> string option \<times> string option \<times> int option) list"
    by (induction xs) auto
  obtain new where new: "map key_of rows' = map key_of rows @ new" using assms(1) by (auto simp: grown_def)
  have "find (\<lambda>x. fst x = R) (map key_of rows) = Some (key_of r)" using key[of rows] assms(2) by simp
  then have "map_option key_of (find (\<lambda>r. mp_donor r = R) rows') = Some (key_of r)"
    unfolding key new by (rule app)
  then show ?thesis by auto
qed

lemma grown_appended:
  "(\<forall>r\<in>set new. mp_referrer r = None) \<Longrightarrow> (distinct (map mp_donor rows) \<Longrightarrow> distinct (map mp_donor (rows @ new))) \<Longrightarrow> grown rows (rows @ new)"
  unfolding grown_def by (intro conjI exI[of _ "map key_of new"]) (auto simp: key_of_def)

lemma seed_grown:
  assumes "seedProjection R at s = (Inr u, t)"
  shows "grown (db_projections (st_db s)) (db_projections (st_db t))"
    and "k < 4 \<Longrightarrow> held_by k Q (db_projections (st_db t)) = held_by k Q (db_projections (st_db s))"
proof -
  obtain i ids where seed: "q_SeedProjection i R at ((st_db s)\<lparr>db_ids := ids\<rparr>) = Inr (st_db t)"
    using assms by (auto simp: seedProjection_def sbind_Inr)
  show "k < 4 \<Longrightarrow> held_by k Q (db_projections (st_db t)) = held_by k Q (db_projections (st_db s))"
    using seed_totals(1)[OF seed] by simp
  show "grown (db_projections (st_db s)) (db_projections (st_db t))"
    using seed_totals(3,5)[OF seed, of 0] grown_appended by fastforce
qed

lemma transfer_totals:
  assumes "transfer at (R, a) s = (Inr u, t)"
  shows "grown (db_projections (st_db s)) (db_projections (st_db t))"
    and "k < 4 \<Longrightarrow> held_by k Q (db_projections (st_db t)) = held_by k Q (db_projections (st_db s)) + (if Q = R then delta k a else 0)"
proof -
  have "grown (db_projections (st_db s)) (db_projections (st_db t)) \<and>
    (k < 4 \<longrightarrow> held_by k Q (db_projections (st_db t)) = held_by k Q (db_projections (st_db s)) + (if Q = R then delta k a else 0))" for k Q
  proof (cases "a = no_delta")
    case True
    moreover have "k < 4 \<Longrightarrow> delta k no_delta = 0" unfolding less_4 by (auto simp: delta_def no_delta_def)
    ultimately show ?thesis using assms by (auto simp: transfer_def)
  next
    case False
    obtain s1 n d where seed: "seedProjection R at s = (Inr (), s1)"
      and app: "q_ApplyReferralDelta R a (st_db s1) = Inr (n, d)"
      and award: "sfor (rr_Badges (recognitionRules (rt_rules (db_rec d)))) (\<lambda>rule.
        if ruleEarned rule (no_signals\<lparr>ConvertedReferrals := fst n + snd n, HasIRLReferral := snd n > 0\<rparr>)
        then earnBadge R (br_Code rule) None at else sreturn ()) (s1\<lparr>st_db := d\<rparr>) = (Inr u, t)"
      using assms False by (auto simp: transfer_def sbind_Inr Let_def split: prod.splits)
    have "keeps (\<lambda>x. db_projections x = db_projections d \<and> db_donors x = db_donors d) (sfor (rr_Badges (recognitionRules (rt_rules (db_rec d)))) (\<lambda>rule.
        if ruleEarned rule (no_signals\<lparr>ConvertedReferrals := fst n + snd n, HasIRLReferral := snd n > 0\<rparr>)
        then earnBadge R (br_Code rule) None at else sreturn ()))"
      by (intro keeps_rules rows_kept.keeps_earnBadge)
    from keepsD[OF this _ award] have rows: "db_projections (st_db t) = db_projections d" by simp
    have "map key_of (db_projections d) = map key_of (db_projections (st_db s1))"
      using delta_totals(3)[OF app, of 0] unfolding key_of_def by simp
    moreover from this have "map mp_donor (db_projections d) = map mp_donor (db_projections (st_db s1))"
      unfolding map_donor by (rule arg_cong)
    ultimately have "grown (db_projections (st_db s1)) (db_projections d)" unfolding grown_def by simp
    with seed_grown(1)[OF seed] have "grown (db_projections (st_db s)) (db_projections (st_db t))"
      unfolding rows by (rule grown_trans)
    then show ?thesis using delta_totals(1)[OF app] seed_grown(2)[OF seed] rows by simp
  qed
  then show "grown (db_projections (st_db s)) (db_projections (st_db t))"
    and "k < 4 \<Longrightarrow> held_by k Q (db_projections (st_db t)) = held_by k Q (db_projections (st_db s)) + (if Q = R then delta k a else 0)"
    by blast+
qed

lemma transfers_totals:
  assumes "sfor es (transfer at) s = (Inr u, t)"
  shows "grown (db_projections (st_db s)) (db_projections (st_db t)) \<and>
    (k < 4 \<longrightarrow> held_by k Q (db_projections (st_db t)) =
       held_by k Q (db_projections (st_db s)) + sum_list (map (\<lambda>(R, a). if Q = R then delta k a else 0) es))"
  using assms
proof (induction es arbitrary: s)
  case (Cons e es)
  obtain s1 v where step: "transfer at (fst e, snd e) s = (Inr v, s1)" and rest: "sfor es (transfer at) s1 = (Inr u, t)"
    using Cons.prems by (auto simp: sbind_Inr)
  have "grown (db_projections (st_db s)) (db_projections (st_db t))"
    using transfer_totals(1)[OF step] Cons.IH[OF rest] by (blast intro: grown_trans)
  then show ?case using transfer_totals(2)[OF step, of k Q] Cons.IH[OF rest] by (simp add: case_prod_beta)
qed simp

lemma sum_keyed:
  "distinct (map fst ds) \<Longrightarrow> sum_list (map (\<lambda>(R, a). if Q = R then f a else 0) ds) =
     (case map_of ds Q of None \<Rightarrow> 0 | Some a \<Rightarrow> f a)" for f :: "'a \<Rightarrow> int"
proof (induction ds)
  case (Cons x ds)
  then show ?case by (cases x) (force split: option.splits dest: map_of_SomeD)
qed simp

lemma add_contribution_sum:
  assumes "distinct (map fst ds)" and "k < 4"
  shows "distinct (map fst (add_contribution ref kind net sign ds))"
    and "sum_list (map (\<lambda>(R, a). if Q = R then delta k a else 0) (add_contribution ref kind net sign ds)) =
      sum_list (map (\<lambda>(R, a). if Q = R then delta k a else 0) ds) +
      (if ref = Some Q then sign * (case referralContribution ref kind net of (a, b, c, e) \<Rightarrow> [a, b, c, e] ! k) else 0)"
proof -
  show d: "distinct (map fst (add_contribution ref kind net sign ds))"
    using assms(1) by (auto simp: add_contribution_def Let_def distinct_update split: option.splits prod.splits)
  have "delta k (if R = Q then x else y) = (if R = Q then delta k x else delta k y)" for R x y by simp
  moreover have "delta k no_delta = 0" using assms(2) unfolding less_4 by (auto simp: delta_def no_delta_def)
  ultimately show "sum_list (map (\<lambda>(R, a). if Q = R then delta k a else 0) (add_contribution ref kind net sign ds)) =
      sum_list (map (\<lambda>(R, a). if Q = R then delta k a else 0) ds) +
      (if ref = Some Q then sign * (case referralContribution ref kind net of (a, b, c, e) \<Rightarrow> [a, b, c, e] ! k) else 0)"
    unfolding sum_keyed[OF d] sum_keyed[OF assms(1)] using assms(2)
    by (cases ref; cases "referralContribution ref kind net")
      (auto simp: add_contribution_def Let_def update_conv' less_4 delta_def no_delta_def split: option.splits)
qed

lemma applyReferralDelta_totals:
  assumes "applyReferralDelta old out at s = (Inr u, t)"
  shows "grown (db_projections (st_db s)) (db_projections (st_db t))"
    and "k < 4 \<Longrightarrow> held_by k Q (db_projections (st_db t)) =
      held_by k Q (db_projections (st_db s)) + credit k Q out - credit k Q old"
proof -
  let ?d1 = "add_contribution (mp_referrer old) (mp_kind old) (mp_net old) (- 1) []"
  let ?d2 = "add_contribution (mp_referrer out) (mp_kind out) (mp_net out) 1 ?d1"
  have run: "sfor (sort_key fst ?d2) (transfer at) s = (Inr u, t)" using assms by (simp add: applyReferralDelta_def)
  show "grown (db_projections (st_db s)) (db_projections (st_db t))" using transfers_totals[OF run] by blast
  assume k: "k < 4"
  let ?w = "\<lambda>(R, a). if Q = R then delta k a else 0"
  have "sum_list (map ?w (sort_key fst ?d2)) = sum_list (map ?w ?d2)"
    by (simp only: sum_mset_sum_list[symmetric] mset_map mset_sort)
  also have "\<dots> = credit k Q out - credit k Q old"
    using add_contribution_sum[OF _ k, of ?d1] add_contribution_sum[OF _ k, of "[]"] by (simp add: credit_def share_def)
  finally show "held_by k Q (db_projections (st_db t)) = held_by k Q (db_projections (st_db s)) + credit k Q out - credit k Q old"
    using transfers_totals[OF run, of k Q] k by simp
qed

lemma save_totals:
  assumes "q_SaveProjection out d = Inr d'" and "distinct (map mp_donor (db_projections d))"
    and "find (\<lambda>r. mp_donor r = mp_donor out) (db_projections d) = Some r"
  shows "held_by k Q (db_projections d') = (if Q = mp_donor out then held k out else held_by k Q (db_projections d))"
    and "credited k Q (db_projections d') = credited k Q (db_projections d) + credit k Q out - credit k Q r"
    and "map mp_donor (db_projections d') = map mp_donor (db_projections d)"
    and "x \<in> set (db_projections d') \<Longrightarrow> x \<in> set (db_projections d) \<or> mp_donor x = mp_donor out \<and> mp_referrer x = mp_referrer out"
proof -
  let ?row = "\<lambda>x. out\<lparr>mp_failures := 0, mp_error := None, mp_id := mp_id x\<rparr>"
  have r: "r \<in> set (db_projections d)" "mp_donor r = mp_donor out" using assms(3) by (auto simp: find_Some_iff)
  then have d': "db_projections d' = update_rows (\<lambda>x. mp_donor x = mp_donor out) ?row (db_projections d)"
    using assms(1) by (auto simp: q_SaveProjection_def Let_def list_ex_iff split: if_splits)
  have found: "find (\<lambda>x. mp_donor x = Q) (update_rows (\<lambda>x. mp_donor x = mp_donor out) ?row rows) =
      map_option (\<lambda>x. if mp_donor x = mp_donor out then ?row x else x) (find (\<lambda>x. mp_donor x = Q) rows)" for Q rows
    by (induction rows) (auto simp: update_rows_def)
  show "held_by k Q (db_projections d') = (if Q = mp_donor out then held k out else held_by k Q (db_projections d))"
  proof (cases "Q = mp_donor out")
    case True
    then show ?thesis using assms(3) r(2) by (simp add: held_by_def held_def d' found)
  next
    case False
    have "mp_donor x \<noteq> mp_donor out" if "find (\<lambda>x. mp_donor x = Q) (db_projections d) = Some x" for x
      using that False by (auto simp: find_Some_iff)
    then show ?thesis using False by (simp add: held_by_def d' found split: option.splits)
  qed
  have credit: "credit k Q (?row x) = credit k Q out" for x by (simp add: credit_def share_def)
  have "sum_list (map (credit k Q) (update_rows (\<lambda>x. mp_donor x = mp_donor out) ?row rows)) =
      sum_list (map (credit k Q) rows) + credit k Q out - credit k Q r"
    if "distinct (map mp_donor rows)" "r \<in> set rows" for rows
    using that
  proof (induction rows)
    case (Cons x rows)
    have same: "update_rows (\<lambda>x. mp_donor x = mp_donor out) ?row rows = rows" if "mp_donor out \<notin> mp_donor ` set rows"
      unfolding update_rows_def using that by (intro map_idI) (metis imageI)
    show ?case
    proof (cases "x = r")
      case True
      then show ?thesis using Cons.prems same r(2) credit by (simp add: update_rows_def)
    next
      case False
      then have "mp_donor x \<noteq> mp_donor out" using Cons.prems r(2) by (auto simp: image_iff)
      then show ?thesis using Cons False by (simp add: update_rows_def)
    qed
  qed simp
  then show "credited k Q (db_projections d') = credited k Q (db_projections d) + credit k Q out - credit k Q r"
    unfolding credited_def d' using assms(2) r(1) by blast
  show "map mp_donor (db_projections d') = map mp_donor (db_projections d)"
    unfolding d' by (auto simp: update_rows_def)
  show "x \<in> set (db_projections d') \<Longrightarrow> x \<in> set (db_projections d) \<or> mp_donor x = mp_donor out \<and> mp_referrer x = mp_referrer out"
    unfolding d' by (auto simp: update_rows_def)
qed

section \<open>What the computation gives\<close>

lemma computeFacts_steps:
  assumes "computeFacts rt donor at old zone s = (Inr (out, since, h), t)"
  obtains claimed observations refunds boundaries stops net best resetAt milestones o1 o2 nxt where
    "projectConversion ((seeded_projection (mp_id old) donor at)\<lparr>mp_next := at + refreshCap donor, mp_rules := projectionRules,
       mp_founding := mp_founding old, mp_best := mp_best old\<rparr>) h donor claimed at = Inr o1"
    "refundsAsOf (h_Refunds h) observations at = (refunds, boundaries)"
    "netMinor (h_Gifts h) refunds at = Inr net"
    "historicalBest donor h observations at (mp_best o1) stops = Inr best"
    "projectStreak (o1\<lparr>mp_net := Some net, mp_best := best\<rparr>) h refunds stops resetAt donor at best = Inr (o2, since)"
    "nextRefresh (rn_NewYork rt) o2 h boundaries stops at zone milestones = Some nxt"
    "out = o2\<lparr>mp_next := nxt\<rparr>"
proof -
  from assms show thesis
    unfolding computeFacts_def Let_def
    by (elim sbindE) (auto simp: sbind_Inr split: prod.splits option.splits intro: that)
qed

section \<open>What the computation keeps\<close>

definition no_self :: "relationship gomap \<Rightarrow> bool" where
  "no_self rels \<longleftrightarrow> (\<forall>k r. map_of rels k = Some r \<longrightarrow> rel_ReferrerID r \<noteq> Some k)"

lemma Relationships_loop_no_self: "no_self result \<Longrightarrow> no_self (Relationships_loop at result gs)"
proof (induction gs arbitrary: result)
  case (Cons g gs)
  show ?case
  proof (cases "map_of result (g_DonorID g) \<noteq> None \<or> g_PaidAt g > at")
    case True
    then show ?thesis using Cons by auto
  next
    case False
    have "no_self (AList.update (g_DonorID g) r result)" if "rel_ReferrerID r \<noteq> Some (g_DonorID g)" for r
      using Cons.prems that by (auto simp: no_self_def update_conv')
    then show ?thesis using False
      by (auto simp: Let_def split: option.splits intro!: Cons.IH)
  qed
qed simp

lemma projectConversion_out:
  assumes "projectConversion out h donor claimed at = Inr out'"
  shows "mp_donor out' = mp_donor out" and "mp_id out' = mp_id out" and "mp_best out' = mp_best out"
    and "mp_referrer out' \<noteq> Some donor" and "mp_founding out \<noteq> None \<Longrightarrow> mp_founding out' = mp_founding out"
proof -
  let ?o = "out\<lparr>mp_first := None, mp_referrer := None, mp_kind := None\<rparr>"
  obtain rels where rels: "Relationships (h_Gifts h) at = Inr rels" using assms by (auto simp: projectConversion_def rbind_eq_Inr)
  define o1 where "o1 = (case map_of rels donor of None \<Rightarrow> ?o
    | Some relation \<Rightarrow> let out = ?o\<lparr>mp_first := Some (rel_FirstGiftID relation)\<rparr>
        in if rel_ReferrerID relation \<noteq> None
           then out\<lparr>mp_referrer := rel_ReferrerID relation, mp_kind := rel_Kind relation\<rparr> else out)"
  have "no_self rels" using rels Relationships_loop_no_self[of "[]"]
    by (auto simp: Relationships_def rbind_eq_Inr no_self_def split: if_splits)
  then have o1: "mp_donor o1 = mp_donor out" "mp_id o1 = mp_id out" "mp_best o1 = mp_best out"
    "mp_referrer o1 \<noteq> Some donor" "mp_founding o1 = mp_founding out"
    by (auto simp: o1_def no_self_def Let_def split: option.splits)
  have "mp_donor out' = mp_donor o1 \<and> mp_id out' = mp_id o1 \<and> mp_best out' = mp_best o1 \<and> mp_referrer out' = mp_referrer o1 \<and>
    (mp_founding o1 \<noteq> None \<longrightarrow> mp_founding out' = mp_founding o1)"
    using assms unfolding projectConversion_def rels rbind_simps Let_def[of ?o] o1_def[symmetric]
    by (cases "mp_founding o1 \<noteq> None") (auto simp: Let_def rbind_eq_Inr o1_def[symmetric] split: if_splits)
  then show "mp_donor out' = mp_donor out" and "mp_id out' = mp_id out" and "mp_best out' = mp_best out"
    and "mp_referrer out' \<noteq> Some donor" and "mp_founding out \<noteq> None \<Longrightarrow> mp_founding out' = mp_founding out"
    using o1 by auto
qed

lemma replay_loop_ge: "replay_loop donorID h stops points best latest paid R S = Inr v \<Longrightarrow> best \<le> v"
proof (induction points arbitrary: best latest paid R S)
  case (Cons p points)
  then show ?case by (fastforce simp: Let_def split: if_splits sum.splits)
qed simp

lemma historicalBest_ge: "historicalBest donor h observations at previous stops = Inr v \<Longrightarrow> previous \<le> v"
  by (auto simp: historicalBest_def replayBest_def rbind_eq_Inr Let_def dest: replay_loop_ge)

lemma projectStreak_out:
  assumes "projectStreak out h refunds stops resetAt donor at best = Inr (out', since)" and "best \<le> mp_best out"
  shows "mp_donor out' = mp_donor out" and "mp_id out' = mp_id out" and "mp_referrer out' = mp_referrer out"
    and "mp_founding out' = mp_founding out" and "best \<le> mp_best out'"
proof -
  let ?gifts = "case resetAt of None \<Rightarrow> h_Gifts h | Some r \<Rightarrow> filter (\<lambda>g. g_PaidAt g > r) (h_Gifts h)"
  have ge: "best \<le> s_Best s" if "GivingStreak ?gifts (refundsForGifts refunds ?gifts) (h_Periods h) donor at best stops = Inr s" for s
    using GivingStreak_streak_ok[OF that] by (simp add: streak_ok_def)
  show "mp_donor out' = mp_donor out" and "mp_id out' = mp_id out" and "mp_referrer out' = mp_referrer out"
    and "mp_founding out' = mp_founding out" and "best \<le> mp_best out'"
    using assms ge by (auto simp: projectStreak_def Let_def rbind_eq_Inr split: sum.splits if_splits)
qed

lemma computeFacts_out:
  assumes "computeFacts rt donor at old zone s = (Inr (out, since, h), t)"
  shows "mp_donor out = donor" and "mp_referrer out \<noteq> Some donor" and "mp_best old \<le> mp_best out"
    and "mp_founding old \<noteq> None \<Longrightarrow> mp_founding out = mp_founding old"
    and "db_projections (st_db t) = db_projections (st_db s)"
proof -
  have "db_projections (st_db t) = db_projections (st_db s) \<and> db_donors (st_db t) = db_donors (st_db s)"
    by (rule keepsD[OF rows_kept.keeps_computeFacts _ assms]) simp
  then show "db_projections (st_db t) = db_projections (st_db s)" ..
  from assms show "mp_donor out = donor" and "mp_referrer out \<noteq> Some donor" and "mp_best old \<le> mp_best out"
    and "mp_founding old \<noteq> None \<Longrightarrow> mp_founding out = mp_founding old"
    by (rule computeFacts_steps; use projectConversion_out projectStreak_out historicalBest_ge in
        \<open>fastforce simp: seeded_projection_def\<close>)+
qed

lemma recompute_Inr:
  "recomputeReferredTotals donor out s = (Inr out', t) \<longleftrightarrow> t = s \<and>
     (\<exists>a b c e. q_ReferralTotalsFromReferred donor (st_db s) = Inr (a, b, c, e) \<and>
        out' = out\<lparr>mp_link_count := a, mp_irl_count := b, mp_link_minor := c, mp_irl_minor := e\<rparr>)"
proof -
  have "no_rows_ok (q_ReferralTotalsFromReferred donor d) = Inr x \<longleftrightarrow>
      (\<exists>a b c e. x = Some (a, b, c, e) \<and> q_ReferralTotalsFromReferred donor d = Inr (a, b, c, e))" for d x
    by (auto simp: no_rows_ok_def q_ReferralTotalsFromReferred_def Let_def split: if_splits)
  then show ?thesis by (auto simp: recomputeReferredTotals_def sbind_Inr Let_def)
qed

lemma projectFacts_steps:
  assumes "projectFacts rt donor at s = (Inr p, t)"
  obtains row old s1 s2 out0 h a b c e s3 s4 where
    "seedProjection donor at s = (Inr (), s1)"
    "find (\<lambda>r. mp_donor r = donor) (db_projections (st_db s1)) = Some old"
    "computeFacts rt donor at old (pj_zone p) s1 = (Inr (out0, pj_since p, h), s2)"
    "q_ReferralTotalsFromReferred donor (st_db s2) = Inr (a, b, c, e)"
    "pj_row p = out0\<lparr>mp_link_count := a, mp_irl_count := b, mp_link_minor := c, mp_irl_minor := e\<rparr>"
    "applyReferralDelta old (pj_row p) at s2 = (Inr (), s3)"
    "recordConversion donor old (pj_row p) at s3 = (Inr (), s4)"
    "q_SaveProjection (pj_row p) (st_db s4) = Inr (st_db t)"
  using assms unfolding projectFacts_def q_LockProjection_def Let_def
  by (auto simp: sbind_Inr one_row_Inr recompute_Inr split: prod.splits intro: that)

lemma find_grown_old:
  assumes "grown rows rows'" and "find (\<lambda>r. mp_donor r = R) rows = Some old"
  obtains r where "find (\<lambda>r. mp_donor r = R) rows' = Some r" "\<And>k Q. credit k Q r = credit k Q old"
  using grown_find[OF assms] by (auto simp: key_of_def credit_def share_def)

lemma grown_no_self:
  assumes "grown rows rows'" and "\<forall>r\<in>set rows. mp_referrer r \<noteq> Some (mp_donor r)" and "x \<in> set rows'"
  shows "mp_referrer x \<noteq> Some (mp_donor x)"
proof -
  obtain new where new: "map key_of rows' = map key_of rows @ new" "\<forall>y\<in>set new. fst (snd y) = None"
    using assms(1) by (auto simp: grown_def)
  have "key_of x \<in> set (map key_of rows')" using assms(3) by simp
  then have "key_of x \<in> key_of ` set rows \<or> key_of x \<in> set new" unfolding new(1) by simp
  then show ?thesis using assms(2) new(2) by (auto simp: key_of_def)
qed

text \<open>
  The denormalised referral totals are exact: if, for every donor, the link and in-person
  counts and amounts on the donor's row are those of the rows that name the donor as referrer
  (and zero where there is no row), then they still are after any donor's projection is
  recomputed, whoever the referrer was before and is now, and nobody refers to themselves.
\<close>

lemma projectFacts_totals:
  assumes "totals_ok (db_projections (st_db s))" and "projectFacts rt donor at s = (Inr p, t)"
  shows "totals_ok (db_projections (st_db t))"
  using assms(2)
proof (rule projectFacts_steps)
  fix s1 old out0 h s2 a b c e s3 s4
  let ?out = "pj_row p" and ?rows = "\<lambda>s. db_projections (st_db s)"
  assume seed: "seedProjection donor at s = (Inr (), s1)" and old: "find (\<lambda>r. mp_donor r = donor) (?rows s1) = Some old"
    and compute: "computeFacts rt donor at old (pj_zone p) s1 = (Inr (out0, pj_since p, h), s2)"
    and totals: "q_ReferralTotalsFromReferred donor (st_db s2) = Inr (a, b, c, e)"
    and out: "?out = out0\<lparr>mp_link_count := a, mp_irl_count := b, mp_link_minor := c, mp_irl_minor := e\<rparr>"
    and delta: "applyReferralDelta old ?out at s2 = (Inr (), s3)"
    and conversion: "recordConversion donor old ?out at s3 = (Inr (), s4)"
    and save: "q_SaveProjection ?out (st_db s4) = Inr (st_db t)"
  have rows2: "?rows s2 = ?rows s1" by (rule computeFacts_out(5)[OF compute])
  have "?rows s4 = ?rows s3 \<and> db_donors (st_db s4) = db_donors (st_db s3)"
    by (rule keepsD[OF rows_kept.keeps_recordConversion _ conversion]) simp
  then have rows4: "?rows s4 = ?rows s3" ..
  have g: "grown (?rows s) (?rows s1)" "grown (?rows s1) (?rows s3)"
    using seed_grown(1)[OF seed] applyReferralDelta_totals(1)[OF delta] rows2 by simp_all
  then have distinct3: "distinct (map mp_donor (?rows s3))" using assms(1) by (simp add: grown_def totals_ok_def)
  have donor: "mp_donor ?out = donor" and self: "mp_referrer ?out \<noteq> Some donor"
    using computeFacts_out(1,2)[OF compute] out by simp_all
  have keys: "x \<in> set (?rows s3) \<Longrightarrow> mp_referrer x \<noteq> Some (mp_donor x)" for x
    using grown_no_self[OF grown_trans[OF g]] assms(1) by (simp add: totals_ok_def)
  obtain r where r: "find (\<lambda>r. mp_donor r = donor) (?rows s3) = Some r" and same: "\<And>k Q. credit k Q r = credit k Q old"
    using find_grown_old[OF g(2) old] by blast
  note saved = save_totals[OF save, unfolded rows4, OF distinct3, unfolded donor, OF r]
  have r_in: "r \<in> set (?rows s3)" "mp_donor r = donor" using r by (auto simp: find_Some_iff)
  have "held_by k Q (?rows t) = credited k Q (?rows t)" if k: "k < 4" for k Q
  proof (cases "Q = donor")
    case True
    have "held k ?out = credited k donor (?rows s1)"
      using ReferralTotals_credited[OF totals k] out k rows2 unfolding less_4 by (auto simp: held_def)
    moreover have "credit k donor ?out = 0" "credit k donor r = 0"
      using self keys[OF r_in(1)] r_in(2) by (auto simp: credit_def)
    ultimately show ?thesis using True saved(1,2) grown_credited[OF g(2)] by simp
  next
    case False
    have "held_by k Q (?rows s3) = held_by k Q (?rows s) + credit k Q ?out - credit k Q old"
      using applyReferralDelta_totals(2)[OF delta k] seed_grown(2)[OF seed k] rows2 by simp
    moreover have "credited k Q (?rows s3) = credited k Q (?rows s)"
      using grown_credited[OF grown_trans[OF g]] by simp
    ultimately show ?thesis using False saved(1,2) same assms(1) k by (simp add: totals_ok_def)
  qed
  moreover have "mp_referrer x \<noteq> Some (mp_donor x)" if "x \<in> set (?rows t)" for x
    using saved(4)[OF that] keys self by auto
  ultimately show ?thesis using saved(3) distinct3 by (simp add: totals_ok_def)
qed

text \<open>Earned badges are among what every write keeps.\<close>

lemma keeps_badgesI:
  "(\<And>d d'. f d = Inr d' \<Longrightarrow> rt_badges (db_rec d') = rt_badges (db_rec d)) \<Longrightarrow>
     keeps (\<lambda>d. B \<subseteq> set (rt_badges (db_rec d))) (swrite f)"
  by (rule keeps_write) auto

interpretation badges_kept: projection_writes "\<lambda>d. B \<subseteq> set (rt_badges (db_rec d))" "TYPE('g)" for B
proof unfold_locales
  show "keeps (\<lambda>d. B \<subseteq> set (rt_badges (db_rec d))) (supdate (q_EarnBadge ebr) :: ('g, int) tx)" for ebr
    by (rule keeps_update_rows) (auto simp: q_EarnBadge_def Let_def split: if_splits)
  show "keeps (\<lambda>d. B \<subseteq> set (rt_badges (db_rec d))) (supdate (q_ApplyReferralDelta i x) :: ('g, int \<times> int) tx)" for i x
    by (rule keeps_update_rows) (auto simp: q_ApplyReferralDelta_def rbind_eq_Inr Let_def split: if_splits)
  show "keeps (\<lambda>d. B \<subseteq> set (rt_badges (db_rec d))) NewID" by (rule keepsI) auto
qed (auto intro!: keeps_badgesI simp: q_InsertObservedEvent_def q_QueueBadgePush_def
    q_SaveRetentionMilestone_def q_InsertReferralCorrection_def q_SeedProjection_def q_SaveProjection_def
    q_DeferProjection_def rbind_eq_Inr Let_def split: if_splits list.splits)

lemma seed_find:
  assumes "seedProjection R at s = (Inr u, t)" and "find P (db_projections (st_db s)) = Some r"
  shows "find P (db_projections (st_db t)) = Some r"
proof -
  obtain i ids where seed: "q_SeedProjection i R at ((st_db s)\<lparr>db_ids := ids\<rparr>) = Inr (st_db t)"
    using assms(1) by (auto simp: seedProjection_def sbind_Inr)
  obtain new where "db_projections (st_db t) = db_projections (st_db s) @ new" using seed_totals(5)[OF seed, of 0] by auto
  moreover have "find P xs = Some x \<Longrightarrow> find P (xs @ ys) = Some x" for x and xs ys :: "projection_row list"
    by (induction xs) auto
  ultimately show ?thesis using assms(2) by simp
qed

lemma saved_row:
  assumes "q_SaveProjection out d = Inr d'"
  shows "\<exists>i. out\<lparr>mp_failures := 0, mp_error := None, mp_id := i\<rparr> \<in> set (db_projections d')"
proof (cases "list_ex (\<lambda>x. mp_donor x = mp_donor out) (db_projections d)")
  case True
  then obtain x where "x \<in> set (db_projections d)" "mp_donor x = mp_donor out" by (auto simp: list_ex_iff)
  then show ?thesis using assms True
    by (intro exI[of _ "mp_id x"]) (auto simp: q_SaveProjection_def Let_def update_rows_def split: if_splits)
next
  case False
  then show ?thesis using assms
    by (intro exI[of _ "mp_id out"]) (auto simp: q_SaveProjection_def Let_def split: if_splits)
qed

text \<open>
  C32. Recognition is permanent: recomputing a donor's projection never lowers the best streak,
  never takes back or redates a founding award, removes no earned badge of anyone, and changes
  no gift, refund, period or other fact it was computed from.
\<close>

theorem projectFacts_permanent:
  assumes "projectFacts rt donor at s = (Inr p, t)" and "one_row (\<lambda>r. mp_donor r = donor) (db_projections (st_db s)) = Inr old"
  shows "mp_best old \<le> mp_best (pj_row p) \<and> (mp_founding old \<noteq> None \<longrightarrow> mp_founding (pj_row p) = mp_founding old) \<and>
    (\<exists>r. r \<in> set (db_projections (st_db t)) \<and> mp_donor r = donor \<and> mp_best r = mp_best (pj_row p) \<and> mp_founding r = mp_founding (pj_row p)) \<and>
    set (rt_badges (db_rec (st_db s))) \<subseteq> set (rt_badges (db_rec (st_db t))) \<and> facts_of (st_db t) = facts_of (st_db s)"
  using assms(1)
proof (rule projectFacts_steps)
  fix s1 old' out0 h s2 a b c e s3 s4
  let ?rows = "\<lambda>s. db_projections (st_db s)"
  assume seed: "seedProjection donor at s = (Inr (), s1)" and old': "find (\<lambda>r. mp_donor r = donor) (?rows s1) = Some old'"
    and compute: "computeFacts rt donor at old' (pj_zone p) s1 = (Inr (out0, pj_since p, h), s2)"
    and out: "pj_row p = out0\<lparr>mp_link_count := a, mp_irl_count := b, mp_link_minor := c, mp_irl_minor := e\<rparr>"
    and save: "q_SaveProjection (pj_row p) (st_db s4) = Inr (st_db t)"
  have "old' = old" using seed_find[OF seed] old' assms(2) by (auto simp: one_row_Inr)
  then have best: "mp_best old \<le> mp_best (pj_row p)" "mp_founding old \<noteq> None \<longrightarrow> mp_founding (pj_row p) = mp_founding old"
    using computeFacts_out(3,4)[OF compute] out by auto
  have "mp_donor (pj_row p) = donor" using computeFacts_out(1)[OF compute] out by simp
  then have row: "\<exists>r. r \<in> set (?rows t) \<and> mp_donor r = donor \<and> mp_best r = mp_best (pj_row p) \<and> mp_founding r = mp_founding (pj_row p)"
    using saved_row[OF save] by (elim exE) (rule exI, erule conjI, simp)
  have badges: "set (rt_badges (db_rec (st_db s))) \<subseteq> set (rt_badges (db_rec (st_db t)))"
    by (rule keepsD[OF badges_kept.keeps_projectFacts _ assms(1)]) simp
  have "facts_of (st_db t) = facts_of (st_db s)"
    by (rule keepsD[OF facts_kept.keeps_projectFacts _ assms(1)]) simp
  with best row badges show ?thesis by blast
qed

section \<open>A sample refresh\<close>

definition sample_runtime :: runtime where
  "sample_runtime = \<lparr>rn_Zone = (\<lambda>_. UTC), rn_NewYork = UTC, rn_String = (\<lambda>_. []), rn_Created = (\<lambda>_. 0), rn_Clock = 0\<rparr>"

definition sample_referral_st :: "unit st" where
  "sample_referral_st = \<lparr>st_db = empty_db\<lparr>db_ids := [''i1'', ''i2'', ''i3'', ''i4'', ''i5'', ''i6'', ''i7'', ''i8''],
     db_donors := [sample_donor_row, sample_donor_row\<lparr>don_id := ''d2''\<rparr>], db_checkouts := [sample_checkout],
     db_gifts := [sample_gift_row\<lparr>gr_frequency := ''ONE_TIME'', gr_period := None\<rparr>],
     db_projections := [(seeded_projection ''m1'' ''d1'' 5)\<lparr>mp_best := 3\<rparr>]\<rparr>, st_gw = (), st_seen = []\<rparr>"

lemma sample_refresh: "fst (projectFacts sample_runtime ''d1'' (of_unix 1500) sample_referral_st) = Inr
    \<lparr>pj_row = (seeded_projection ''m1'' ''d1'' (of_unix 1500))\<lparr>mp_referrer := Some ''d2'', mp_kind := Some ''LINK'', mp_first := Some ''in_1'',
       mp_net := Some 500, mp_founding := Some (of_unix 1000), mp_best := 3, mp_current := Some 0, mp_next := of_unix (1500 + 25 * 86400), mp_rules := 12\<rparr>,
     pj_since = None, pj_donor = sample_donor_row, pj_zone = UTC\<rparr>"
  by code_simp

theorem projectFacts_permanent_witness:
  "\<exists>r. r \<in> set (db_projections (st_db (snd (projectFacts sample_runtime ''d1'' (of_unix 1500) sample_referral_st)))) \<and> 3 \<le> mp_best r"
proof -
  have "one_row (\<lambda>r. mp_donor r = ''d1'') (db_projections (st_db sample_referral_st)) = Inr ((seeded_projection ''m1'' ''d1'' 5)\<lparr>mp_best := 3\<rparr>)"
    by code_simp
  from projectFacts_permanent[OF run_fst[OF sample_refresh] this] show ?thesis by force
qed

end
