(* ===== verification/Credentials.thy ===== *)
theory Credentials
  imports Json_Facts
begin

text \<open>
  Package \<open>credentials\<close> (internal/credentials/credentials.go): the ASCII-only quoting of strings
  and the preimage of a checkout request hash. A Go string is its bytes; ranging over a
  valid one yields the runes of its UTF-8 encoding.
\<close>

section \<open>UTF-8\<close>

definition byte :: "char \<Rightarrow> nat" where "byte c = of_char c"

definition cont :: "nat \<Rightarrow> bool" where "cont b \<longleftrightarrow> 128 \<le> b \<and> b < 192"

text \<open>The first rune of an encoding and the bytes behind it, \<open>None\<close> when it is not valid.\<close>

definition decode_rune :: "nat \<Rightarrow> nat list \<Rightarrow> (nat \<times> nat list) option" where
  "decode_rune a bs =
     (if a < 128 then Some (a, bs)
      else if 194 \<le> a \<and> a < 224 then
        (case bs of b # cs \<Rightarrow> if cont b then Some ((a - 192) * 64 + (b - 128), cs) else None | _ \<Rightarrow> None)
      else if 224 \<le> a \<and> a < 240 then
        (case bs of b # c # cs \<Rightarrow>
           if cont b \<and> cont c \<and> (a = 224 \<longrightarrow> 160 \<le> b) \<and> (a = 237 \<longrightarrow> b < 160)
           then Some ((a - 224) * 4096 + (b - 128) * 64 + (c - 128), cs) else None
         | _ \<Rightarrow> None)
      else if 240 \<le> a \<and> a < 245 then
        (case bs of b # c # d # cs \<Rightarrow>
           if cont b \<and> cont c \<and> cont d \<and> (a = 240 \<longrightarrow> 144 \<le> b) \<and> (a = 244 \<longrightarrow> b < 144)
           then Some ((a - 240) * 262144 + (b - 128) * 4096 + (c - 128) * 64 + (d - 128), cs) else None
         | _ \<Rightarrow> None)
      else None)"

lemma decode_rune_shorter: "decode_rune a bs = Some (r, cs) \<Longrightarrow> length cs \<le> length bs"
  by (auto simp: decode_rune_def split: if_splits list.splits)

text \<open>The runes of a valid string, \<open>None\<close> when it is not valid UTF-8.\<close>

function utf8_decode :: "nat list \<Rightarrow> nat list option" where
  "utf8_decode [] = Some []"
| "utf8_decode (a # bs) =
     (case decode_rune a bs of None \<Rightarrow> None | Some (r, cs) \<Rightarrow> map_option ((#) r) (utf8_decode cs))"
  by pat_completeness auto
termination
  by (relation "measure length") (auto dest: decode_rune_shorter)

section \<open>Quoting\<close>

datatype credential_error = CredInvalid

definition hex_digit :: "nat \<Rightarrow> char" where
  "hex_digit n = ''0123456789abcdef'' ! n"

definition appendHex :: "nat \<Rightarrow> string" where
  "appendHex r = [CHR 0x5C, CHR ''u'', hex_digit (r div 4096 mod 16), hex_digit (r div 256 mod 16),
     hex_digit (r div 16 mod 16), hex_digit (r mod 16)]"

definition quote_rune :: "nat \<Rightarrow> string" where
  "quote_rune r =
     (if r = 34 \<or> r = 92 then [CHR 0x5C, char_of r]
      else if r = 8 then [CHR 0x5C, CHR ''b'']
      else if r = 12 then [CHR 0x5C, CHR ''f'']
      else if r = 10 then [CHR 0x5C, CHR ''n'']
      else if r = 13 then [CHR 0x5C, CHR ''r'']
      else if r = 9 then [CHR 0x5C, CHR ''t'']
      else if r < 32 \<or> r \<ge> 127 then
        (if r > 65535 then let r = r - 65536 in appendHex (55296 + r div 1024) @ appendHex (56320 + r mod 1024)
         else appendHex r)
      else [char_of r])"

definition QuoteASCII :: "string \<Rightarrow> credential_error + string" where
  "QuoteASCII value =
     (case utf8_decode (map byte value) of
        None \<Rightarrow> Inl CredInvalid
      | Some runes \<Rightarrow> Inr (CHR 0x22 # concat (map quote_rune runes) @ [CHR 0x22]))"

section \<open>The checkout preimage\<close>

text \<open>\<open>strconv.FormatInt(n, 10)\<close>.\<close>

fun format_nat :: "nat \<Rightarrow> string" where
  "format_nat n = (if n < 10 then [char_of (48 + n)] else format_nat (n div 10) @ [char_of (48 + n mod 10)])"

declare format_nat.simps [simp del]

definition FormatInt :: "int \<Rightarrow> string" where
  "FormatInt n = (if n < 0 then CHR ''-'' # format_nat (nat (- n)) else format_nat (nat n))"

definition CheckoutPreimage :: "string \<Rightarrow> int \<Rightarrow> string \<Rightarrow> string option \<Rightarrow> credential_error + string" where
  "CheckoutPreimage email amount frequency visitor =
     (if amount < 100 \<or> frequency \<noteq> ''MONTHLY'' then Inl CredInvalid
      else rbind (QuoteASCII email) (\<lambda>quoted.
           rbind (case visitor of None \<Rightarrow> Inr ''null'' | Some v \<Rightarrow> QuoteASCII v) (\<lambda>cookie.
             Inr (''['' @ quoted @ '','' @ FormatInt amount @ '','' @ [CHR 0x22] @ frequency @ [CHR 0x22] @ '','' @ cookie @ '']''))))"

section \<open>Quoting is unambiguous\<close>

text \<open>A Unicode scalar value.\<close>

definition scalar :: "nat \<Rightarrow> bool" where
  "scalar r \<longleftrightarrow> r < 55296 \<or> 57344 \<le> r \<and> r < 1114112"

definition utf8_encode :: "nat \<Rightarrow> nat list" where
  "utf8_encode r =
     (if r < 128 then [r]
      else if r < 2048 then [192 + r div 64, 128 + r mod 64]
      else if r < 65536 then [224 + r div 4096, 128 + r div 64 mod 64, 128 + r mod 64]
      else [240 + r div 262144, 128 + r div 4096 mod 64, 128 + r div 64 mod 64, 128 + r mod 64])"

lemma split64:
  fixes p q :: nat
  assumes "q < 64"
  shows "(p * 64 + q) div 64 = p" and "(p * 64 + q) mod 64 = q"
  using assms by simp_all

lemma decode_rune_cases:
  assumes "decode_rune a bs = Some (r, cs)"
  shows "scalar r \<and> a # bs = utf8_encode r @ cs"
proof -
  consider "a < 128" | "194 \<le> a" "a < 224" | "224 \<le> a" "a < 240" | "240 \<le> a" "a < 245"
    using assms by (auto simp: decode_rune_def split: if_splits)
  then show ?thesis
  proof cases
    case 1
    with assms show ?thesis by (auto simp: decode_rune_def scalar_def utf8_encode_def)
  next
    case 2
    with assms obtain b where b: "cont b" "bs = b # cs" "r = (a - 192) * 64 + (b - 128)"
      by (auto simp: decode_rune_def split: list.splits if_splits)
    define x y where "x = a - 192" and "y = b - 128"
    have "a = 192 + x" "b = 128 + y" "2 \<le> x" "x < 32" "y < 64" using 2 b(1) by (auto simp: x_def y_def cont_def)
    with b show ?thesis by (auto simp: scalar_def utf8_encode_def)
  next
    case 3
    with assms obtain b c where b: "cont b" "cont c" "a = 224 \<longrightarrow> 160 \<le> b" "a = 237 \<longrightarrow> b < 160" "bs = b # c # cs"
        "r = (a - 224) * 4096 + (b - 128) * 64 + (c - 128)"
      by (auto simp: decode_rune_def split: list.splits if_splits)
    define x y z where "x = a - 224" and "y = b - 128" and "z = c - 128"
    have e: "a = 224 + x" "b = 128 + y" "c = 128 + z" "x < 16" "y < 64" "z < 64" "x = 0 \<longrightarrow> 32 \<le> y" "x = 13 \<longrightarrow> y < 32"
      using 3 b(1-4) by (auto simp: x_def y_def z_def cont_def)
    have r: "r = (x * 64 + y) * 64 + z" using b(6) by (simp add: x_def y_def z_def)
    have q: "r div 64 = x * 64 + y" "r mod 64 = z" unfolding r by (rule split64[OF e(6)])+
    have "r div 4096 = r div 64 div 64" by (simp flip: div_mult2_eq)
    then have "r div 4096 = x" "r div 64 mod 64 = y" unfolding q(1) using split64[OF e(5), of x] by simp_all
    moreover have "2048 \<le> r" unfolding r using e by (cases "x = 0") auto
    moreover have "r < 65536" unfolding r using e(4,5,6) by simp
    moreover have "scalar r" unfolding scalar_def r using e by (cases "x \<le> 12"; cases "x = 13") auto
    ultimately show ?thesis using b(5) e q by (simp add: utf8_encode_def)
  next
    case 4
    with assms obtain b c d where b: "cont b" "cont c" "cont d" "a = 240 \<longrightarrow> 144 \<le> b" "a = 244 \<longrightarrow> b < 144" "bs = b # c # d # cs"
        "r = (a - 240) * 262144 + (b - 128) * 4096 + (c - 128) * 64 + (d - 128)"
      by (auto simp: decode_rune_def split: list.splits if_splits)
    define x y z w where "x = a - 240" and "y = b - 128" and "z = c - 128" and "w = d - 128"
    have e: "a = 240 + x" "b = 128 + y" "c = 128 + z" "d = 128 + w" "x \<le> 4" "y < 64" "z < 64" "w < 64"
        "x = 0 \<longrightarrow> 16 \<le> y" "x = 4 \<longrightarrow> y < 16"
      using 4 b(1-5) by (auto simp: x_def y_def z_def w_def cont_def)
    have r: "r = ((x * 64 + y) * 64 + z) * 64 + w" using b(7) by (simp add: x_def y_def z_def w_def)
    have q: "r div 64 = (x * 64 + y) * 64 + z" "r mod 64 = w" unfolding r by (rule split64[OF e(8)])+
    have "r div 4096 = r div 64 div 64" "r div 262144 = r div 64 div 64 div 64" by (simp_all flip: div_mult2_eq)
    then have "r div 4096 mod 64 = y" "r div 262144 = x" "r div 64 mod 64 = z"
      unfolding q(1) split64[OF e(7)] split64[OF e(6)] by simp_all
    moreover have "65536 \<le> r" unfolding r using e by (cases "x = 0") auto
    moreover have "r < 1114112" unfolding r using e by (cases "x = 4") auto
    ultimately show ?thesis using b(6) e q by (simp add: scalar_def utf8_encode_def)
  qed
qed

lemma utf8_decode_encode:
  "utf8_decode bs = Some rs \<Longrightarrow> (\<forall>r\<in>set rs. scalar r) \<and> concat (map utf8_encode rs) = bs"
proof (induction bs arbitrary: rs rule: utf8_decode.induct)
  case (2 a bs)
  then obtain r cs rs' where *: "decode_rune a bs = Some (r, cs)" "utf8_decode cs = Some rs'" "rs = r # rs'"
    by (auto split: option.splits)
  with 2(1)[OF *(1) refl *(2)] decode_rune_cases[OF *(1)] show ?case by simp
qed simp

lemma hex_digit_inj: "m < 16 \<Longrightarrow> n < 16 \<Longrightarrow> hex_digit m = hex_digit n \<Longrightarrow> m = n"
proof -
  have "distinct ''0123456789abcdef''" "length ''0123456789abcdef'' = 16" by simp_all
  then show "m < 16 \<Longrightarrow> n < 16 \<Longrightarrow> hex_digit m = hex_digit n \<Longrightarrow> m = n"
    unfolding hex_digit_def using nth_eq_iff_index_eq[of "''0123456789abcdef''" m n] by metis
qed

lemma appendHex_inj:
  assumes "appendHex a @ x = appendHex b @ y" and "a < 65536" and "b < 65536"
  shows "a = b \<and> x = y"
proof -
  have digits: "a div 4096 mod 16 = b div 4096 mod 16" "a div 256 mod 16 = b div 256 mod 16"
      "a div 16 mod 16 = b div 16 mod 16" "a mod 16 = b mod 16" "x = y"
    using assms(1) by (auto simp: appendHex_def intro!: hex_digit_inj)
  have split: "n = n div 4096 mod 16 * 4096 + n div 256 mod 16 * 256 + n div 16 mod 16 * 16 + n mod 16" if "n < 65536" for n :: nat
  proof -
    define p q s where "p = n div 16" and "q = n div 256" and "s = n div 4096"
    have "q = p div 16" "s = q div 16" by (simp_all add: p_def q_def s_def flip: div_mult2_eq)
    then have "n = p * 16 + n mod 16" "p = q * 16 + p mod 16" "q = s * 16 + q mod 16"
      by (metis p_def div_mult_mod_eq, metis div_mult_mod_eq, metis div_mult_mod_eq)
    moreover have "s mod 16 = s" using that by (simp add: s_def)
    ultimately show ?thesis unfolding p_def[symmetric] q_def[symmetric] s_def[symmetric] by simp
  qed
  show ?thesis using split[OF assms(2)] split[OF assms(3)] digits by simp
qed

text \<open>The shapes of a quoted rune: itself, a short escape, one or two hexadecimal escapes.\<close>

lemma quote_rune_cases:
  assumes "scalar r"
  obtains (plain) "quote_rune r = [char_of r]" "32 \<le> r" "r < 127" "r \<noteq> 34" "r \<noteq> 92"
  | (short) c where "quote_rune r = [CHR 0x5C, c]"
      "(r, c) \<in> {(34, CHR 0x22), (92, CHR 0x5C), (8, CHR ''b''), (12, CHR ''f''), (10, CHR ''n''), (13, CHR ''r''), (9, CHR ''t'')}"
  | (one) "quote_rune r = appendHex r" "r < 65536" "\<not> (55296 \<le> r \<and> r < 57344)"
  | (two) "quote_rune r = appendHex (55296 + (r - 65536) div 1024) @ appendHex (56320 + (r - 65536) mod 1024)"
      "65536 \<le> r" "r < 1114112"
proof (cases "r \<in> {34, 92, 8, 12, 10, 13, 9}")
  case True
  have "char_of (34 :: nat) = CHR 0x22" "char_of (92 :: nat) = CHR 0x5C" by code_simp+
  with True show ?thesis by (intro short[of "if r = 34 then CHR 0x22 else if r = 92 then CHR 0x5C else if r = 8 then CHR ''b''
    else if r = 12 then CHR ''f'' else if r = 10 then CHR ''n'' else if r = 13 then CHR ''r'' else CHR ''t''"])
    (auto simp: quote_rune_def)
next
  case False
  then show ?thesis
  proof (cases "32 \<le> r \<and> r < 127")
    case True
    with False show ?thesis by (intro plain) (auto simp: quote_rune_def)
  next
    case rare: False
    show ?thesis
    proof (cases "65535 < r")
      case True
      with assms show ?thesis by (intro two) (auto simp: quote_rune_def Let_def scalar_def)
    next
      case False
      with rare \<open>r \<notin> _\<close> assms show ?thesis by (intro one) (auto simp: quote_rune_def scalar_def)
    qed
  qed
qed


lemma quote_rune_inj:
  assumes "scalar a" and "scalar b" and "quote_rune a @ x = quote_rune b @ y"
  shows "a = b \<and> x = y"
proof -
  have bs: "char_of r \<noteq> CHR 0x5C" if "r < 127" "r \<noteq> 92" for r :: nat
  proof
    assume "char_of r = CHR 0x5C"
    then have "of_char (char_of r) = (92 :: nat)" by simp
    with that show False by simp
  qed
  have inj: "m = n" if "char_of m = (char_of n :: char)" "m < 127" "n < 127" for m n :: nat
    using arg_cong[OF that(1), of "of_char :: char \<Rightarrow> nat"] that(2,3) by simp
  show ?thesis
    using assms(1)
  proof (cases rule: quote_rune_cases)
    case plain
    have a: "char_of a \<noteq> CHR 0x5C" by (rule bs[OF plain(3,5)])
    show ?thesis using assms(2)
    proof (cases rule: quote_rune_cases)
      case plain': plain
      from assms(3) have "char_of a = (char_of b :: char)" "x = y" by (simp_all add: plain(1) plain'(1))
      then show ?thesis using inj[OF _ plain(3) plain'(3)] by simp
    qed (use plain(1) a assms(3) in \<open>simp_all add: appendHex_def\<close>)
  next
    case (short c)
    have u: "c \<noteq> CHR ''u''" using short(2) by auto
    show ?thesis using assms(2)
    proof (cases rule: quote_rune_cases)
      case plain
      then show ?thesis using bs[of b] short(1) assms(3) by auto
    next
      case short': (short d)
      have "c = d" "x = y" using assms(3) by (simp_all add: short(1) short'(1))
      with short(2) short'(2) show ?thesis by auto
    qed (use short(1) u assms(3) in \<open>simp_all add: appendHex_def\<close>)
  next
    case one
    show ?thesis using assms(2)
    proof (cases rule: quote_rune_cases)
      case one': one
      show ?thesis using appendHex_inj[of a x b y] assms(3) one one' by simp
    next
      case two
      then show ?thesis
        using appendHex_inj[of a x "55296 + (b - 65536) div 1024" "appendHex (56320 + (b - 65536) mod 1024) @ y"] assms(3) one
        by auto
    qed (use one bs assms(3) in \<open>auto simp: appendHex_def\<close>)
  next
    case two
    show ?thesis using assms(2)
    proof (cases rule: quote_rune_cases)
      case one
      then show ?thesis
        using appendHex_inj[of b y "55296 + (a - 65536) div 1024" "appendHex (56320 + (a - 65536) mod 1024) @ x"] assms(3) two
        by auto
    next
      case two': two
      have "(a - 65536) div 1024 = (b - 65536) div 1024 \<and> (a - 65536) mod 1024 = (b - 65536) mod 1024 \<and> x = y"
        using appendHex_inj[of "55296 + (a - 65536) div 1024" "appendHex (56320 + (a - 65536) mod 1024) @ x"
            "55296 + (b - 65536) div 1024" "appendHex (56320 + (b - 65536) mod 1024) @ y"]
          appendHex_inj[of "56320 + (a - 65536) mod 1024" x "56320 + (b - 65536) mod 1024" y] assms(3) two two'
        by auto
      then have "a - 65536 = b - 65536 \<and> x = y" by (metis div_mult_mod_eq)
      then show ?thesis using two(2) two'(2) by linarith
    qed (use two bs assms(3) in \<open>auto simp: appendHex_def\<close>)
  qed
qed


lemma quote_rune_open:
  assumes "scalar r"
  shows "quote_rune r @ x \<noteq> CHR 0x22 # y"
  using assms
proof (cases rule: quote_rune_cases)
  case plain
  have "char_of r \<noteq> CHR 0x22"
  proof
    assume "char_of r = CHR 0x22"
    then have "of_char (char_of r) = (34 :: nat)" by simp
    with plain show False by simp
  qed
  with plain show ?thesis by simp
qed (simp_all add: appendHex_def)

lemma quote_body_inj:
  assumes "\<forall>r\<in>set rs. scalar r" and "\<forall>r\<in>set rs'. scalar r"
    and "concat (map quote_rune rs) @ CHR 0x22 # x = concat (map quote_rune rs') @ CHR 0x22 # y"
  shows "rs = rs' \<and> x = y"
  using assms
proof (induction rs arbitrary: rs')
  case Nil
  show ?case
  proof (cases rs')
    case (Cons r rs'')
    with Nil quote_rune_open[of r "concat (map quote_rune rs'') @ CHR 0x22 # y" x] show ?thesis by auto
  qed (use Nil in simp)
next
  case (Cons r rs)
  show ?case
  proof (cases rs')
    case Nil
    with Cons.prems quote_rune_open[of r "concat (map quote_rune rs) @ CHR 0x22 # x" y] show ?thesis by auto
  next
    case (Cons r' rs'')
    from Cons.prems(3) have "quote_rune r @ concat (map quote_rune rs) @ CHR 0x22 # x =
      quote_rune r' @ concat (map quote_rune rs'') @ CHR 0x22 # y" by (simp add: Cons)
    from quote_rune_inj[OF _ _ this] Cons.prems(1,2) Cons
    have "r = r'" "concat (map quote_rune rs) @ CHR 0x22 # x = concat (map quote_rune rs'') @ CHR 0x22 # y" by auto
    with Cons.IH[of rs''] Cons.prems(1,2) Cons show ?thesis by auto
  qed
qed

lemma byte_inj: "map byte a = map byte b \<Longrightarrow> a = b"
  by (auto simp: byte_def inj_map_eq_map inj_def)

text \<open>A quoted string ends at its closing quote, wherever it stands.\<close>

lemma QuoteASCII_prefix:
  assumes "QuoteASCII a = Inr qa" and "QuoteASCII b = Inr qb" and "qa @ x = qb @ y"
  shows "a = b \<and> x = y"
proof -
  obtain rs rs' where a: "utf8_decode (map byte a) = Some rs" "qa = CHR 0x22 # concat (map quote_rune rs) @ [CHR 0x22]"
    and b: "utf8_decode (map byte b) = Some rs'" "qb = CHR 0x22 # concat (map quote_rune rs') @ [CHR 0x22]"
    using assms(1,2) by (auto simp: QuoteASCII_def split: option.splits)
  note da = utf8_decode_encode[OF a(1)] and db = utf8_decode_encode[OF b(1)]
  have "rs = rs' \<and> x = y" using quote_body_inj[of rs rs' x y] da db assms(3) by (simp add: a(2) b(2))
  moreover from this da db have "map byte a = map byte b" by auto
  ultimately show ?thesis using byte_inj by blast
qed

text \<open>Quoting leaves printable ASCII.\<close>

definition printable :: "char \<Rightarrow> bool" where
  "printable c \<longleftrightarrow> 32 \<le> byte c \<and> byte c < 127"

lemma hex_digit_printable: "n < 16 \<Longrightarrow> printable (hex_digit n)"
proof -
  have "list_all printable ''0123456789abcdef''" by code_simp
  then show "n < 16 \<Longrightarrow> printable (hex_digit n)" by (simp add: list_all_length hex_digit_def)
qed

lemma appendHex_printable: "list_all printable (appendHex r)"
proof -
  have "printable (CHR 0x5C)" "printable (CHR ''u'')" by code_simp+
  then show ?thesis by (simp add: appendHex_def hex_digit_printable)
qed

lemma quote_rune_printable:
  assumes "scalar r"
  shows "list_all printable (quote_rune r)"
  using assms
proof (cases rule: quote_rune_cases)
  case plain
  then show ?thesis by (simp add: printable_def byte_def)
next
  case (short c)
  have "list_all printable [CHR 0x5C, CHR 0x22, CHR ''b'', CHR ''f'', CHR ''n'', CHR ''r'', CHR ''t'']" by code_simp
  with short show ?thesis by auto
qed (simp_all add: appendHex_printable)

lemma QuoteASCII_printable:
  assumes "QuoteASCII a = Inr q"
  shows "list_all printable q"
proof -
  obtain rs where rs: "utf8_decode (map byte a) = Some rs" "q = CHR 0x22 # concat (map quote_rune rs) @ [CHR 0x22]"
    using assms by (auto simp: QuoteASCII_def split: option.splits)
  have "printable (CHR 0x22)" by code_simp
  then show ?thesis using utf8_decode_encode[OF rs(1)] quote_rune_printable by (auto simp: rs(2) list_all_iff)
qed

text \<open>
  C22. \<open>QuoteASCII\<close> is a faithful quoting: it fails only on invalid UTF-8, its output is printable
  ASCII only, and the output determines the input, even inside a longer text; no two strings
  share a quoting and none is a prefix of another.
\<close>

theorem QuoteASCII_faithful:
  "(QuoteASCII a = Inl CredInvalid \<longleftrightarrow> utf8_decode (map byte a) = None) \<and>
   (QuoteASCII a = Inr qa \<longrightarrow> list_all printable qa) \<and>
   (QuoteASCII a = Inr qa \<and> QuoteASCII b = Inr qb \<and> qa @ x = qb @ y \<longrightarrow> a = b \<and> x = y)"
proof (intro conjI impI)
  show "QuoteASCII a = Inl CredInvalid \<longleftrightarrow> utf8_decode (map byte a) = None"
    by (simp add: QuoteASCII_def split: option.splits)
  show "list_all printable qa" if "QuoteASCII a = Inr qa" using that by (rule QuoteASCII_printable)
  show "a = b" if "QuoteASCII a = Inr qa \<and> QuoteASCII b = Inr qb \<and> qa @ x = qb @ y"
    using that QuoteASCII_prefix[of a qa b qb x y] by blast
  show "x = y" if "QuoteASCII a = Inr qa \<and> QuoteASCII b = Inr qb \<and> qa @ x = qb @ y"
    using that QuoteASCII_prefix[of a qa b qb x y] by blast
qed

lemma byte_char_of [simp]: "n < 256 \<Longrightarrow> (of_char (char_of n) :: int) = int n" for n :: nat
proof -
  assume "n < 256"
  then have "(of_char (char_of n) :: nat) = n" by simp
  then show ?thesis by (metis of_nat_of_char)
qed

lemma format_nat_value: "digits_value (format_nat n) = int n"
proof (induction n rule: format_nat.induct)
  case (1 n)
  show ?case
  proof (cases "n < 10")
    case True
    then show ?thesis by (simp add: format_nat.simps[of n] digits_value_def)
  next
    case False
    with 1 show ?thesis
      by (simp add: format_nat.simps[of n] digits_value_def zmod_int zdiv_int)
  qed
qed

lemma format_nat_digits: "c \<in> set (format_nat n) \<Longrightarrow> 48 \<le> byte c \<and> byte c < 58"
proof (induction n rule: format_nat.induct)
  case (1 n)
  then show ?case
    by (cases "n < 10") (auto simp: format_nat.simps[of n] byte_def)
qed

lemma split_at_first: "c \<notin> set u \<Longrightarrow> c \<notin> set v \<Longrightarrow> u @ c # x = v @ c # y \<Longrightarrow> u = v \<and> x = y"
  by (induction u arbitrary: v) (case_tac v; auto)+

lemma FormatInt_prefix:
  assumes "0 \<le> a" and "0 \<le> b" and "FormatInt a @ CHR '','' # x = FormatInt b @ CHR '','' # y"
  shows "a = b \<and> x = y"
proof -
  have comma: "CHR '','' \<notin> set (format_nat n)" for n
  proof
    assume "CHR '','' \<in> set (format_nat n)"
    then have "48 \<le> byte (CHR '','')" by (simp add: format_nat_digits)
    then show False by (simp add: byte_def)
  qed
  have "format_nat (nat a) @ CHR '','' # x = format_nat (nat b) @ CHR '','' # y"
    using assms(3) unfolding FormatInt_def if_not_P[OF leD[OF assms(1)]] if_not_P[OF leD[OF assms(2)]] .
  then have "format_nat (nat a) = format_nat (nat b) \<and> x = y"
    by (rule split_at_first[OF comma comma])
  moreover from this have "int (nat a) = int (nat b)" by (metis format_nat_value)
  ultimately show ?thesis using assms(1,2) by simp
qed

lemma QuoteASCII_not_null: "QuoteASCII a = Inr q \<Longrightarrow> q @ x \<noteq> ''null'' @ y"
  by (auto simp: QuoteASCII_def split: option.splits)

text \<open>
  C21. The checkout preimage identifies the request: two requests with the same preimage agree in
  the email, the amount, the frequency and the visitor, an absent visitor and an empty one
  being different; amounts below the minimum and other frequencies have none.
\<close>

theorem CheckoutPreimage_injective:
  assumes "CheckoutPreimage email amount frequency visitor = Inr p"
    and "CheckoutPreimage email' amount' frequency' visitor' = Inr p"
  shows "email = email' \<and> amount = amount' \<and> frequency = frequency' \<and> visitor = visitor' \<and> 100 \<le> amount \<and> frequency = ''MONTHLY''"
proof -
  obtain q c where p: "QuoteASCII email = Inr q" "(case visitor of None \<Rightarrow> Inr ''null'' | Some v \<Rightarrow> QuoteASCII v) = Inr c"
      "frequency = ''MONTHLY''" "100 \<le> amount"
      "p = ''['' @ q @ '','' @ FormatInt amount @ '','' @ [CHR 0x22] @ frequency @ [CHR 0x22] @ '','' @ c @ '']''"
    using assms(1) unfolding CheckoutPreimage_def rbind_eq_Inr if_split_eq1 by force
  obtain q' c' where p': "QuoteASCII email' = Inr q'" "(case visitor' of None \<Rightarrow> Inr ''null'' | Some v \<Rightarrow> QuoteASCII v) = Inr c'"
      "frequency' = ''MONTHLY''" "100 \<le> amount'"
      "p = ''['' @ q' @ '','' @ FormatInt amount' @ '','' @ [CHR 0x22] @ frequency' @ [CHR 0x22] @ '','' @ c' @ '']''"
    using assms(2) unfolding CheckoutPreimage_def rbind_eq_Inr if_split_eq1 by force
  have 1: "email = email' \<and> CHR '','' # FormatInt amount @ CHR '','' # CHR 0x22 # frequency @ CHR 0x22 # CHR '','' # c @ '']'' =
    CHR '','' # FormatInt amount' @ CHR '','' # CHR 0x22 # frequency' @ CHR 0x22 # CHR '','' # c' @ '']''"
    using p(5) p'(5) by (intro QuoteASCII_prefix[OF p(1) p'(1)]) simp
  then have 2: "amount = amount' \<and> CHR 0x22 # frequency @ CHR 0x22 # CHR '','' # c @ '']'' =
    CHR 0x22 # frequency' @ CHR 0x22 # CHR '','' # c' @ '']''"
    using p(4) p'(4) by (intro FormatInt_prefix) simp_all
  then have c: "c @ '']'' = c' @ '']''" by (simp add: p(3) p'(3))
  have "visitor = visitor'"
  proof (cases visitor)
    case None
    with p(2) c have "visitor' = None"
      using p'(2) QuoteASCII_not_null[of _ c' "[]" "[]"] by (cases visitor') auto
    with None show ?thesis by simp
  next
    case (Some v)
    with p(2) c obtain v' where "visitor' = Some v'"
      using p'(2) QuoteASCII_not_null[of v c "[]" "[]"] by (cases visitor') auto
    with Some p(2) p'(2) c QuoteASCII_prefix[of v c v' c' "'']''" "'']''"] show ?thesis by simp
  qed
  with 1 2 p p' show ?thesis by simp
qed

theorem CheckoutPreimage_injective_witness:
  "\<exists>p. CheckoutPreimage ''a@b.co'' 100 ''MONTHLY'' (Some []) = Inr p \<and> CheckoutPreimage ''a@b.co'' 100 ''MONTHLY'' None \<noteq> Inr p"
proof -
  have "CheckoutPreimage ''a@b.co'' 100 ''MONTHLY'' (Some []) =
    Inr (''['' @ [CHR 0x22] @ ''a@b.co'' @ [CHR 0x22] @ '',100,'' @ [CHR 0x22] @ ''MONTHLY'' @ [CHR 0x22] @ '','' @ [CHR 0x22, CHR 0x22] @ '']'')"
    by code_simp
  with CheckoutPreimage_injective[OF this] show ?thesis by blast
qed

theorem QuoteASCII_faithful_witness:
  "QuoteASCII [CHR 0xC3, CHR 0xA9] = Inr ([CHR 0x22, CHR 0x5C] @ ''u00e9'' @ [CHR 0x22]) \<and>
   list_all printable ([CHR 0x22, CHR 0x5C] @ ''u00e9'' @ [CHR 0x22])"
proof -
  have q: "QuoteASCII [CHR 0xC3, CHR 0xA9] = Inr ([CHR 0x22, CHR 0x5C] @ ''u00e9'' @ [CHR 0x22])"
    by (simp add: QuoteASCII_def byte_def decode_rune_def cont_def quote_rune_def appendHex_def hex_digit_def)
  note QuoteASCII_faithful[THEN conjunct2, THEN conjunct1, THEN mp, OF q]
  with q show ?thesis by (intro conjI)
qed

end
