(* ===== verification/Notices.thy ===== *)
theory Notices
  imports Projection Credentials
begin

text \<open>
  The notices that follow a saved projection (internal/store/outbox.go, push.go, badges.go):
  the emails and push notifications the facts call for, queued under a key that makes each of
  them go out once, and the badges the donor now qualifies for.
\<close>

section \<open>Queued messages\<close>

text \<open>
  A row of an \<open>INSERT ... SELECT gen_random_uuid(), ... ON CONFLICT (dedup_key) DO NOTHING\<close>: a
  known key skips it, and only a row that goes in must refer to a donor.
\<close>

definition insert_notice :: "bool \<Rightarrow> ('r \<Rightarrow> bool) \<Rightarrow> ('r \<Rightarrow> bool) \<Rightarrow> 'r \<Rightarrow> 'r list \<Rightarrow> store_error + 'r list" where
  "insert_notice known conflict clash r rows =
     (if list_ex conflict rows then Inr rows
      else if \<not> known \<or> list_ex clash rows then Inl ErrConstraint
      else Inr (rows @ [r]))"

definition put_message :: "message_row \<Rightarrow> db \<Rightarrow> store_error + db" where
  "put_message r d =
     (let R = db_rec d
      in rbind (insert_notice (has_donor (ms_donor r) d) (\<lambda>x. ms_key x = ms_key r) (\<lambda>x. ms_id x = ms_id r) r (rt_messages R))
           (\<lambda>rows. Inr (d\<lparr>db_rec := R\<lparr>rt_messages := rows\<rparr>\<rparr>)))"

definition put_push :: "push_row \<Rightarrow> db \<Rightarrow> store_error + db" where
  "put_push r d =
     (let R = db_rec d
      in rbind (insert_notice (has_donor (pn_donor r) d) (\<lambda>x. pn_key x = pn_key r) (\<lambda>x. pn_id x = pn_id r) r (rt_pushes R))
           (\<lambda>rows. Inr (d\<lparr>db_rec := R\<lparr>rt_pushes := rows\<rparr>\<rparr>)))"

definition q_InsertFinancialMessage :: "message_row \<Rightarrow> db \<Rightarrow> store_error + db" where
  "q_InsertFinancialMessage r d = put_message r d"

definition q_QueueEventPush :: "push_row \<Rightarrow> db \<Rightarrow> store_error + db" where
  "q_QueueEventPush r d = put_push r d"

text \<open>The rows of one statement, each with a fresh identifier.\<close>

fun put_all :: "('r \<Rightarrow> string \<Rightarrow> 'r) \<Rightarrow> ('r \<Rightarrow> db \<Rightarrow> store_error + db) \<Rightarrow> 'r list \<Rightarrow> db \<Rightarrow> store_error + db" where
  "put_all named put [] d = Inr d"
| "put_all named put (r # rs) d =
     (case db_ids d of
        [] \<Rightarrow> Inl ErrRandom
      | i # ids \<Rightarrow> rbind (put (named r i) (d\<lparr>db_ids := ids\<rparr>)) (put_all named put rs))"

definition message_named :: "message_row \<Rightarrow> string \<Rightarrow> message_row" where "message_named r i = r\<lparr>ms_id := i\<rparr>"
definition push_named :: "push_row \<Rightarrow> string \<Rightarrow> push_row" where "push_named r i = r\<lparr>pn_id := i\<rparr>"

text \<open>A nullable column in a list comprehension.\<close>

definition list_of :: "'a option \<Rightarrow> 'a list" where
  "list_of x = (case x of None \<Rightarrow> [] | Some a \<Rightarrow> [a])"

text \<open>\<open>context->>'member'\<close>; the members compared below are texts.\<close>

definition json_text :: "json \<Rightarrow> string \<Rightarrow> string option" where
  "json_text j k = (case j of JObj ms \<Rightarrow> (case map_of ms k of Some (JStr v) \<Rightarrow> Some v | _ \<Rightarrow> None) | _ \<Rightarrow> None)"

definition same_referral :: "json \<Rightarrow> json \<Rightarrow> bool" where
  "same_referral a b \<longleftrightarrow> json_text a ''referred_id'' \<noteq> None \<and> json_text a ''kind'' \<noteq> None \<and>
     json_text a ''referred_id'' = json_text b ''referred_id'' \<and> json_text a ''kind'' = json_text b ''kind''"

definition message_intent :: "string \<Rightarrow> string \<Rightarrow> string \<Rightarrow> json \<Rightarrow> time \<Rightarrow> message_row" where
  "message_intent donor kind key context available =
     \<lparr>ms_id = [], ms_donor = donor, ms_kind = kind, ms_key = key, ms_context = context, ms_available = available\<rparr>"

definition year_in :: "location \<Rightarrow> time \<Rightarrow> int" where
  "year_in zone t = year_of (civil_date zone t)"

text \<open>
  The candidates: a receipt per gift, a summary per past year, the referral told to the
  referrer, and for a failed renewal two reminders and the end of the streak.
\<close>

definition financial_candidates :: "location \<Rightarrow> string \<Rightarrow> time \<Rightarrow> db \<Rightarrow> message_row list" where
  "financial_candidates newYork donor asOf d =
     (let gifts = filter (\<lambda>g. gr_donor g = donor \<and> gr_paid_at g \<le> asOf) (db_gifts d);
          years = remdups (map (\<lambda>g. year_in newYork (gr_paid_at g)) gifts);
          failed = filter (\<lambda>p. pr_donor p = donor \<and> pr_status p = ''FAILED'') (db_periods d)
      in map (\<lambda>g. message_intent donor ''RECEIPT'' (''receipt:'' @ gr_id g) (JObj [(''gift_id'', JStr (gr_id g))]) asOf) gifts
       @ map (\<lambda>y. message_intent donor ''ANNUAL'' (''annual:'' @ donor @ '':'' @ FormatInt y)
             (JObj [(''year'', JNum (FormatInt y))]) asOf)
           (filter (\<lambda>y. y \<ge> 2026 \<and> y < year_in newYork asOf) years)
       @ [message_intent ref ''REFERRAL'' (''referral:'' @ donor @ '':'' @ ref @ '':'' @ kind)
            (JObj [(''referred_id'', JStr donor), (''kind'', JStr kind)]) asOf.
            p \<leftarrow> db_projections d, mp_donor p = donor, net_or_0 p > 0, ref \<leftarrow> list_of (mp_referrer p), kind \<leftarrow> list_of (mp_kind p)]
       @ [message_intent donor ''RECOVERY'' (''recovery:'' @ pr_id p @ '':'' @ FormatInt day)
            (JObj [(''period_id'', JStr (pr_id p)), (''day'', JNum (FormatInt day))]) (pr_due p + day * (24 * Hour)).
            p \<leftarrow> failed, day \<leftarrow> [0, 5]]
       @ map (\<lambda>p. message_intent donor ''LAPSED'' (''lapsed:'' @ pr_id p) (JObj [(''period_id'', JStr (pr_id p))])
             (pr_due p + 7 * 24 * Hour)) failed)"

definition q_QueueFinancialIntents :: "location \<Rightarrow> string \<Rightarrow> time \<Rightarrow> db \<Rightarrow> store_error + db" where
  "q_QueueFinancialIntents newYork donor asOf d =
     (let sent = rt_messages (db_rec d);
          wanted = filter (\<lambda>c. \<not> list_ex (\<lambda>m. ms_key m = ms_key c) sent \<and>
            (ms_kind c \<noteq> ''REFERRAL'' \<or> \<not> list_ex (\<lambda>m. ms_kind m = ''REFERRAL'' \<and> ms_donor m = ms_donor c \<and>
               same_referral (ms_context m) (ms_context c)) sent)) (financial_candidates newYork donor asOf d)
      in put_all message_named put_message wanted d)"

section \<open>Queued push notifications\<close>

definition push_intent :: "time \<Rightarrow> string \<Rightarrow> string \<Rightarrow> string \<Rightarrow> json \<Rightarrow> time \<Rightarrow> push_row" where
  "push_intent lifetime donor category key context available =
     \<lparr>pn_id = [], pn_donor = donor, pn_category = category, pn_key = key, pn_context = context, pn_available = available,
      pn_expires = available + lifetime\<rparr>"

record push_params =
  pp_donor :: string
  pp_asOf :: time
  pp_expires :: time
  pp_recent :: time
  pp_milestone :: "int option"
  pp_run :: "time option"

definition latest_period :: "string \<Rightarrow> time \<Rightarrow> db \<Rightarrow> period_row list" where
  "latest_period donor asOf d =
     (case first_by (\<lambda>p. - pr_due p) (\<lambda>p. pr_donor p = donor \<and> pr_due p \<le> asOf) (db_periods d) of
        Inl _ \<Rightarrow> [] | Inr p \<Rightarrow> [p])"

definition push_candidates :: "(string \<Rightarrow> time) \<Rightarrow> push_params \<Rightarrow> db \<Rightarrow> push_row list" where
  "push_candidates created a d =
     (let donor = pp_donor a; asOf = pp_asOf a; intent = push_intent (pp_expires a - asOf);
          rows = filter (\<lambda>p. mp_donor p = donor) (db_projections d);
          latest = filter (\<lambda>b. pr_status b = ''FAILED'') (latest_period donor asOf d)
      in [intent ref ''REFERRAL_CONVERTED'' (''push:referral:'' @ donor @ '':'' @ ref @ '':'' @ kind)
            (JObj [(''referred_id'', JStr donor), (''kind'', JStr kind)]) asOf.
            p \<leftarrow> rows, net_or_0 p > 0, ref \<leftarrow> list_of (mp_referrer p), kind \<leftarrow> list_of (mp_kind p),
            list_ex (\<lambda>g. mp_first p = Some (gr_object g) \<and> max (gr_paid_at g) (created (gr_id g)) > pp_recent a) (db_gifts d)]
       @ [intent donor ''STREAK_AT_RISK'' (''push:streak-at-risk:'' @ pr_id b @ (if day = 0 then [] else '':5''))
            (JObj [(''period_id'', JStr (pr_id b)), (''day'', JNum (FormatInt day))]) (max (pr_due b + day * (24 * Hour)) asOf).
            p \<leftarrow> rows, mp_at_risk p, b \<leftarrow> latest, day \<leftarrow> [0, 5]]
       @ [intent donor ''STREAK_LAPSED'' (''push:streak-lapsed:'' @ pr_id b) (JObj [(''period_id'', JStr (pr_id b))]) asOf.
            p \<leftarrow> rows, b \<leftarrow> latest, pr_due b + 7 * 24 * Hour \<le> asOf]
       @ [intent donor ''STREAK_MILESTONE'' (''push:streak-milestone:'' @ donor @ '':'' @ FormatInt (Unix run) @ '':'' @ FormatInt days)
            (JObj [(''days'', JNum (FormatInt days))]) asOf.
            days \<leftarrow> list_of (pp_milestone a), run \<leftarrow> list_of (pp_run a)]
       @ [intent donor ''GIFT_PROCESSED'' (''push:gift:'' @ gr_id g) (JObj [(''gift_id'', JStr (gr_id g))]) asOf.
            g \<leftarrow> db_gifts d, gr_donor g = donor, gr_paid_at g \<le> asOf, max (gr_paid_at g) (created (gr_id g)) > pp_recent a])"

definition q_QueuePushIntents :: "(string \<Rightarrow> time) \<Rightarrow> push_params \<Rightarrow> db \<Rightarrow> store_error + db" where
  "q_QueuePushIntents created a d =
     (let R = db_rec d;
          wanted = filter (\<lambda>c. live_device (pn_donor c) (pp_asOf a) R \<and>
            (pn_category c \<noteq> ''REFERRAL_CONVERTED'' \<or> \<not> list_ex (\<lambda>n. pn_category n = ''REFERRAL_CONVERTED'' \<and>
               pn_donor n = pn_donor c \<and> same_referral (pn_context n) (pn_context c)) (rt_pushes R))) (push_candidates created a d)
      in put_all push_named put_push wanted d)"

definition no_streak :: streak where
  "no_streak = \<lparr>s_Current = 0, s_Best = 0, s_AtRisk = False, s_GraceEndsAt = None, s_Since = None\<rparr>"

text \<open>\<open>None\<close> of the ladder or of \<open>Reaches\<close> is the index or nil panic of the code.\<close>

definition queuePushIntents :: "runtime \<Rightarrow> projection \<Rightarrow> time \<Rightarrow> ('g, unit) tx" where
  "queuePushIntents rt p now =
     (let donor = mp_donor (pj_row p);
          params = \<lparr>pp_donor = donor, pp_asOf = now, pp_expires = now + pushLifetime, pp_recent = now - pushLifetime,
                    pp_milestone = None, pp_run = None\<rparr>
      in sbind (case (mp_current (pj_row p), pj_since p) of
             (Some _, Some since) \<Rightarrow>
               let run = no_streak\<lparr>s_Since := Some since\<rparr>
               in sbind (sread (\<lambda>d. Inr (configuredLadder (rt_rules (db_rec d)) run now (pj_zone p)))) (\<lambda>ladder.
                  case ladder of
                    None \<Rightarrow> sfail ErrPanic
                  | Some l \<Rightarrow>
                      let reached = l_LastMilestone l
                      in if reached > 0
                         then case Reaches run reached (pj_zone p) of
                                None \<Rightarrow> sfail ErrPanic
                              | Some reaches \<Rightarrow>
                                  if time_Sub now reaches < pushLifetime
                                  then sbind (recordServerEvent donor ''milestone_reached''
                                         (''milestone:'' @ donor @ '':'' @ rn_String rt since @ '':'' @ FormatInt reached) reaches) (\<lambda>_.
                                       sreturn (params\<lparr>pp_milestone := Some reached, pp_run := Some since\<rparr>))
                                  else sreturn params
                         else sreturn params)
           | _ \<Rightarrow> sreturn params) (\<lambda>params.
         swrite (q_QueuePushIntents (rn_Created rt) params)))"

section \<open>Awarding badges\<close>

definition q_Projection :: "string \<Rightarrow> db \<Rightarrow> store_error + projection_row" where
  "q_Projection donor d = one_row (\<lambda>r. mp_donor r = donor) (db_projections d)"

definition q_DonorFirstGiftAt :: "string \<Rightarrow> db \<Rightarrow> store_error + time option" where
  "q_DonorFirstGiftAt donor d =
     (let paid = map gr_paid_at (filter (\<lambda>g. gr_donor g = donor) (db_gifts d))
      in Inr (if paid = [] then None else Some (foldr min paid (hd paid))))"

definition q_DistinctInitiativeExposures :: "string \<Rightarrow> db \<Rightarrow> store_error + int" where
  "q_DistinctInitiativeExposures donor d = Inr (int (length (filter (\<lambda>x. fst x = donor) (cm_exposures (db_community d)))))"

definition q_DonorRaisedAmount :: "string \<Rightarrow> db \<Rightarrow> store_error + bool" where
  "q_DonorRaisedAmount donor d =
     Inr (list_ex (\<lambda>c. ac_donor c = donor \<and> ac_confirmed c \<noteq> None \<and> ac_amount c > ac_previous c) (db_changes d))"

definition q_DonorPreference :: "string \<Rightarrow> db \<Rightarrow> store_error + preference_row" where
  "q_DonorPreference donor d = one_row (\<lambda>r. pf_donor r = donor) (cm_preferences (db_community d))"

text \<open>A ranking is served while it is current: the donor enabled, not opted out and on a fresh, live streak.\<close>

definition q_DonorRanking :: "time \<Rightarrow> string \<Rightarrow> db \<Rightarrow> store_error + ranking_row" where
  "q_DonorRanking clock donor d =
     one_row (\<lambda>r. rk_donor r = donor \<and> list_ex (\<lambda>x. don_id x = donor \<and> \<not> don_disabled x) (db_donors d) \<and>
        list_ex (\<lambda>p. mp_donor p = donor \<and> (case mp_current p of None \<Rightarrow> False | Some n \<Rightarrow> n > 0) \<and> mp_since p \<noteq> None \<and>
          mp_next p > clock) (db_projections d) \<and>
        \<not> list_ex (\<lambda>f. pf_donor f = donor \<and> pr_RankingsOptedOut (pf_choices f)) (cm_preferences (db_community d)))
       (cm_rankings (db_community d))"

definition q_DonorVolunteerStats :: "string \<Rightarrow> db \<Rightarrow> store_error + (int \<times> int)" where
  "q_DonorVolunteerStats donor d =
     (let attended = [e. r \<leftarrow> cm_places (db_community d), e \<leftarrow> cm_events (db_community d), en_id e = pl_event r, pl_donor r = donor,
            pl_checked r \<noteq> None]
      in Inr (int (length attended), (2 * sum_list (map (\<lambda>e. en_ends e - en_starts e) attended) + Minute) div (2 * Minute)))"

definition q_EmployeeLink :: "string \<Rightarrow> db \<Rightarrow> store_error + employee_row" where
  "q_EmployeeLink donor d = one_row (\<lambda>r. em_donor r = donor) (cm_employees (db_community d))"

record Ranking =
  rg_NationalPercentile :: int
  rg_City :: "string option"
  rg_CityRank :: "int option"
  rg_ComputedAt :: time
  rg_nationalPopulation :: int
  rg_cityPopulation :: int

definition ForDonor :: "time \<Rightarrow> string \<Rightarrow> ('g, Ranking option) tx" where
  "ForDonor clock donor =
     sbind (sread (\<lambda>d. no_rows_ok (q_DonorRanking clock donor d))) (\<lambda>row.
     sreturn (map_option (\<lambda>r. \<lparr>rg_NationalPercentile = rk_percentile r, rg_City = rk_city r, rg_CityRank = rk_city_rank r,
       rg_ComputedAt = rk_computed r, rg_nationalPopulation = rk_population r, rg_cityPopulation = rk_city_population r\<rparr>) row))"

definition defaultPreferences :: Preferences where
  "defaultPreferences = \<lparr>pr_Version = 0, pr_ReferralEmails = False, pr_MarketingEmails = False, pr_PushReferralConverted = True,
     pr_PushStreakAtRisk = True, pr_PushStreakMilestone = True, pr_PushStreakLapsed = True, pr_PushBadgeEarned = True,
     pr_PushGiftProcessed = True, pr_PushEventNearby = True, pr_PushEventReminder = True, pr_PushEventPromoted = True,
     pr_RankingsOptedOut = False, pr_NetworkVisible = True, pr_Volunteer = False, pr_VolunteerInterests = []\<rparr>"

definition readPreferences :: "string \<Rightarrow> ('g, Preferences) tx" where
  "readPreferences donor =
     sbind (sread (\<lambda>d. no_rows_ok (q_DonorPreference donor d))) (\<lambda>row.
     sreturn (case row of None \<Rightarrow> defaultPreferences | Some r \<Rightarrow> pf_choices r))"

definition streak_signals :: "runtime \<Rightarrow> donor_row \<Rightarrow> projection_row \<Rightarrow> time \<Rightarrow> Signals \<Rightarrow> ('g, Signals) tx" where
  "streak_signals rt donor proj now s =
     (case (mp_since proj, mp_current proj) of
        (Some since, Some current) \<Rightarrow>
          if current > 0 \<and> mp_next proj > now
          then case Ladder (no_streak\<lparr>s_Since := Some since\<rparr>) now (rn_Zone rt (nullstr (don_timezone donor))) of
                 None \<Rightarrow> sfail ErrPanic
               | Some l \<Rightarrow> sbind (sread (q_DonorFirstGiftAt (don_id donor))) (\<lambda>first.
                   sreturn (s\<lparr>StreakDays := l_Days l,
                     ComebackReached30 := (case first of None \<Rightarrow> False | Some t \<Rightarrow> t < since \<and> l_Days l \<ge> 30)\<rparr>))
          else sreturn s
      | _ \<Rightarrow> sreturn s)"

definition projection_signals :: "projection_row \<Rightarrow> Signals" where
  "projection_signals proj = no_signals\<lparr>FirstGiftMade := mp_first proj \<noteq> None, FoundingQualified := mp_founding proj \<noteq> None,
     ConvertedReferrals := mp_link_count proj + mp_irl_count proj, HasIRLReferral := mp_irl_count proj > 0\<rparr>"

definition ranking_signals :: "Ranking option \<Rightarrow> Signals \<Rightarrow> Signals" where
  "ranking_signals rank s =
     (case rank of
        None \<Rightarrow> s
      | Some r \<Rightarrow> s\<lparr>NationalTopPercent := Some (rg_NationalPercentile r), NationalPopulation := rg_nationalPopulation r,
          CityRank := rg_CityRank r, CityPopulation := rg_cityPopulation r,
          City := (case rg_City r of None \<Rightarrow> City s | Some c \<Rightarrow> c)\<rparr>)"

definition signalsFor :: "runtime \<Rightarrow> donor_row \<Rightarrow> time \<Rightarrow> ('g, Signals) tx" where
  "signalsFor rt donor now =
     (let ident = don_id donor
      in sbind (sread (\<lambda>d. no_rows_ok (q_Projection ident d))) (\<lambda>proj.
         sbind (case proj of None \<Rightarrow> sreturn no_signals | Some p \<Rightarrow> streak_signals rt donor p now (projection_signals p)) (\<lambda>s.
         sbind (sread (q_DistinctInitiativeExposures ident)) (\<lambda>shown.
         sbind (sread (q_DonorRaisedAmount ident)) (\<lambda>raised.
         sbind (ForDonor (rn_Clock rt) ident) (\<lambda>rank.
         sbind (readPreferences ident) (\<lambda>pref.
         sbind (sread (q_DonorVolunteerStats ident)) (\<lambda>(checkins, minutes).
         sbind (sread (\<lambda>d. no_rows_ok (q_EmployeeLink ident d))) (\<lambda>link.
         sreturn ((ranking_signals rank s)\<lparr>DistinctInitiatives := shown, RaisedAmount := raised, VolunteerOptIn := pr_Volunteer pref,
           EventCheckins := checkins, JoinedTeam := (case link of None \<Rightarrow> False | Some l \<Rightarrow> em_team l \<noteq> None)\<rparr>))))))))))"

definition badgeCity :: "string \<Rightarrow> string \<Rightarrow> string option" where
  "badgeCity code city = (if code = ''CITY50'' \<and> city \<noteq> [] then Some city else None)"

definition awardBadges :: "runtime \<Rightarrow> donor_row \<Rightarrow> time \<Rightarrow> ('g, unit) tx" where
  "awardBadges rt donor now =
     sbind (signalsFor rt donor now) (\<lambda>signals.
     sbind (sread (\<lambda>d. Inr (recognitionRules (rt_rules (db_rec d))))) (\<lambda>rules.
     sfor (rr_Badges rules) (\<lambda>rule.
       if ruleEarned rule signals then earnBadge (don_id donor) (br_Code rule) (badgeCity (br_Code rule) (City signals)) now
       else sreturn ())))"

section \<open>Refreshing\<close>

definition refreshProjection :: "runtime \<Rightarrow> string \<Rightarrow> time \<Rightarrow> ('g, projection) tx" where
  "refreshProjection rt donor now =
     sbind (projectFacts rt donor now) (\<lambda>result.
     sbind (swrite (q_QueueFinancialIntents (rn_NewYork rt) donor now)) (\<lambda>_.
     sbind (queuePushIntents rt result now) (\<lambda>_.
     sbind (awardBadges rt (pj_donor result) now) (\<lambda>_.
     sreturn result))))"

definition projectionFailure :: "store_error \<Rightarrow> string option" where
  "projectionFailure e =
     (case e of
        StoreInvalid \<Rightarrow> Some ''InvalidFacts''
      | StoreFacts \<Rightarrow> Some ''InvalidFacts''
      | ErrData \<Rightarrow> Some ''DataException''
      | ErrConstraint \<Rightarrow> Some ''ConstraintViolation''
      | _ \<Rightarrow> None)"

definition refresh_one :: "runtime \<Rightarrow> time \<Rightarrow> string \<Rightarrow> ('g, unit) tx" where
  "refresh_one rt now donor =
     sbind (stry (BeginFunc (refreshProjection rt donor now))) (\<lambda>refreshed.
       case refreshed of
         Inr _ \<Rightarrow> sreturn ()
       | Inl err \<Rightarrow>
           (case projectionFailure err of
              None \<Rightarrow> sfail err
            | Some category \<Rightarrow> swrite (q_DeferProjection donor category now projectionRules)))"

definition ProjectionBatch :: nat where "ProjectionBatch = 64"

definition RefreshDueProjections :: "runtime \<Rightarrow> string list \<Rightarrow> time \<Rightarrow> nat \<Rightarrow> ('g, nat) tx" where
  "RefreshDueProjections rt locked now batch =
     BeginFunc (sbind (sread (q_DueProjectionDonors now batch locked)) (\<lambda>due.
       sbind (if due = [] then sread (q_OutdatedProjectionDonors projectionRules now batch locked) else sreturn due) (\<lambda>donors.
       sbind (sfor donors (refresh_one rt now)) (\<lambda>_.
       sreturn (length donors)))))"

definition RefreshNextProjection :: "runtime \<Rightarrow> string list \<Rightarrow> time \<Rightarrow> ('g, bool) tx" where
  "RefreshNextProjection rt locked now = sbind (RefreshDueProjections rt locked now 1) (\<lambda>n. sreturn (n > 0))"

text \<open>The payment worker recomputes a donor's projection within its own transaction.\<close>

definition recompute :: "runtime \<Rightarrow> string \<Rightarrow> time \<Rightarrow> ('g, unit) tx" where
  "recompute rt donor now = sbind (refreshProjection rt donor now) (\<lambda>_. sreturn ())"

section \<open>What a refresh leaves alone\<close>

text \<open>Queueing adds rows under new keys to one table and takes identifiers from the supply.\<close>

lemma put_all_keeps:
  assumes put: "\<And>r d d'. P d \<Longrightarrow> put r d = Inr d' \<Longrightarrow> P d'" and ids: "\<And>d ids. P (d\<lparr>db_ids := ids\<rparr>) = P d"
  shows "P d \<Longrightarrow> put_all named put rs d = Inr d' \<Longrightarrow> P d'"
proof (induction rs arbitrary: d)
  case (Cons r rs)
  then obtain i ids e where "put (named r i) (d\<lparr>db_ids := ids\<rparr>) = Inr e" "put_all named put rs e = Inr d'"
    by (auto simp: rbind_eq_Inr split: list.splits)
  then show ?case using Cons.IH[of e] Cons.prems(1) put[of "d\<lparr>db_ids := ids\<rparr>" "named r i" e] ids by simp
qed simp

locale notice_writes = beside_writes P world for P :: "db \<Rightarrow> bool" and world :: "'g itself" +
  assumes any_ids: "P (d\<lparr>db_ids := ids\<rparr>) = P d"
    and messaged: "P d \<Longrightarrow> put_message msr d = Inr d' \<Longrightarrow> P d'"
    and notified: "P d \<Longrightarrow> put_push pnr d = Inr d' \<Longrightarrow> P d'"
begin

lemma keeps_queueFinancial: "keeps P (swrite (q_QueueFinancialIntents zone donor at) :: ('g, unit) tx)"
  by (rule keeps_write) (auto simp: q_QueueFinancialIntents_def Let_def intro: put_all_keeps[where P = P, OF messaged any_ids])

lemma keeps_queuePush: "keeps P (swrite (q_QueuePushIntents created a) :: ('g, unit) tx)"
  by (rule keeps_write) (auto simp: q_QueuePushIntents_def Let_def intro: put_all_keeps[where P = P, OF notified any_ids])

lemma keeps_queuePushIntents: "keeps P (queuePushIntents rt p at :: ('g, unit) tx)"
  unfolding queuePushIntents_def Let_def by (intro keeps_rules keeps_queuePush keeps_recordServerEvent)

lemma keeps_signalsFor: "keeps P (signalsFor rt donor at :: ('g, Signals) tx)"
  unfolding signalsFor_def streak_signals_def ForDonor_def readPreferences_def Let_def by (intro keeps_rules)

lemma keeps_awardBadges: "keeps P (awardBadges rt donor at :: ('g, unit) tx)"
  unfolding awardBadges_def by (intro keeps_rules keeps_signalsFor keeps_earnBadge)

end

text \<open>
  A whole refresh: the projection, and the notices that follow it. \<open>refreshing\<close> is what the
  rest of the system relies on: a refresh keeps the property, in a batch and on its own.
\<close>

locale refreshing =
  fixes P :: "db \<Rightarrow> bool" and world :: "'g itself"
  assumes keeps_refreshProjection: "keeps P (refreshProjection rt donor at :: ('g, projection) tx)"
    and keeps_deferred: "keeps P (swrite (q_DeferProjection i v a n) :: ('g, unit) tx)"
begin

lemma keeps_refresh_one: "keeps P (refresh_one rt at donor :: ('g, unit) tx)"
  unfolding refresh_one_def by (intro keeps_rules keeps_refreshProjection keeps_deferred)

lemma keeps_RefreshDueProjections: "keeps P (RefreshDueProjections rt locked at batch :: ('g, nat) tx)"
  unfolding RefreshDueProjections_def by (intro keeps_rules keeps_refresh_one)

lemma keeps_refresh_call: "keeps P (sbind (refreshProjection rt donor at) (\<lambda>_. sreturn ()) :: ('g, unit) tx)"
  by (intro keeps_rules keeps_refreshProjection)

end

locale refresh_writes = projection_writes P world + notice_writes P world for P :: "db \<Rightarrow> bool" and world :: "'g itself"

sublocale refresh_writes \<subseteq> refreshing P world
  unfolding refreshing_def refreshProjection_def
  by (intro conjI allI keeps_rules keeps_projectFacts keeps_queueFinancial keeps_queuePushIntents keeps_awardBadges deferred)

interpretation facts_refresh: refresh_writes "\<lambda>d. facts_of d = X" "TYPE('g)" for X
  by unfold_locales (auto simp: put_message_def put_push_def rbind_eq_Inr Let_def)

interpretation badges_refresh: refresh_writes "\<lambda>d. B \<subseteq> set (rt_badges (db_rec d))" "TYPE('g)" for B
  by unfold_locales (auto simp: put_message_def put_push_def rbind_eq_Inr Let_def)

interpretation rows_notice: notice_writes "\<lambda>d. db_projections d = R \<and> db_donors d = D" "TYPE('g)" for R D
  by unfold_locales (auto simp: put_message_def put_push_def rbind_eq_Inr Let_def)

lemma keeps_of_rows:
  assumes "\<And>R D. keeps (\<lambda>d. db_projections d = R \<and> db_donors d = D) m" and "\<And>d d'. db_projections d' = db_projections d \<Longrightarrow> P d \<Longrightarrow> P d'"
  shows "keeps P m"
proof (rule keepsI)
  fix s a t assume "P (st_db s)" and run: "m s = (Inr a, t)"
  have "db_projections (st_db t) = db_projections (st_db s) \<and> db_donors (st_db t) = db_donors (st_db s)"
    by (rule keepsD[OF assms(1) _ run]) simp
  then show "P (st_db t)" using \<open>P (st_db s)\<close> assms(2) by blast
qed

lemma totals_ok_update_rows:
  assumes "\<And>r. key_of (f r) = key_of r" and "\<And>k r. k < 4 \<Longrightarrow> held k (f r) = held k r"
  shows "totals_ok (update_rows P f rows) = totals_ok rows"
proof -
  let ?rows = "update_rows P f rows"
  have keep: "mp_donor (f r) = mp_donor r" "mp_referrer (f r) = mp_referrer r" "credit k R (f r) = credit k R r" for k R r
    using assms(1)[of r] by (auto simp: key_of_def credit_def share_def)
  have "map mp_donor ?rows = map mp_donor rows" by (rule map_update_rows) (rule keep)
  moreover have "credited k R ?rows = credited k R rows" for k R
    unfolding credited_def by (subst map_update_rows) (simp_all add: keep)
  moreover have "held_by k R ?rows = held_by k R rows" if "k < 4" for k R
    unfolding held_by_def by (subst find_update_rows) (auto simp: keep assms(2)[OF that] split: option.splits)
  moreover have "(\<forall>r\<in>set ?rows. mp_referrer r \<noteq> Some (mp_donor r)) = (\<forall>r\<in>set rows. mp_referrer r \<noteq> Some (mp_donor r))"
  proof -
    have "(mp_referrer (if P r then f r else r) \<noteq> Some (mp_donor (if P r then f r else r))) = (mp_referrer r \<noteq> Some (mp_donor r))" for r
      by (simp add: keep)
    then show ?thesis by (simp only: update_rows_def set_map ball_simps)
  qed
  ultimately show ?thesis by (simp add: totals_ok_def)
qed

interpretation totals_refresh: refreshing "\<lambda>d. totals_ok (db_projections d)" "TYPE('g)"
proof (unfold_locales, goal_cases)
  case (1 rt donor at)
  note rows = keeps_of_rows[where P = "\<lambda>d. totals_ok (db_projections d)"]
  have "keeps (\<lambda>d. totals_ok (db_projections d)) (projectFacts rt donor at :: ('g, projection) tx)"
    by (rule keepsI) (rule projectFacts_totals)
  then show ?case unfolding refreshProjection_def
    by (intro keeps_rules rows[OF rows_notice.keeps_queueFinancial] rows[OF rows_notice.keeps_queuePushIntents]
        rows[OF rows_notice.keeps_awardBadges]) simp_all
next
  case (2 i v a n)
  then show ?case
    by (intro keeps_write) (auto simp: q_DeferProjection_def totals_ok_update_rows key_of_def held_def)
qed

section \<open>One donor's failure is its own\<close>

definition postponed :: "string \<Rightarrow> string \<Rightarrow> time \<Rightarrow> db \<Rightarrow> db" where
  "postponed donor category now d = d\<lparr>db_projections := update_rows (\<lambda>r. mp_donor r = donor)
     (\<lambda>r. r\<lparr>mp_failures := mp_failures r + 1, mp_error := Some category, mp_rules := projectionRules,
            mp_next := now + min (2 ^ nat (mp_failures r) * (5 * Minute)) (24 * Hour)\<rparr>) (db_projections d)\<rparr>"

text \<open>A donor's turn: refreshed, or put back as it was and postponed, by at least five minutes and at most a day.\<close>

inductive turns :: "runtime \<Rightarrow> time \<Rightarrow> string list \<Rightarrow> 'g st \<Rightarrow> 'g st \<Rightarrow> bool" for rt now where
  none: "turns rt now [] s s"
| refreshed: "refreshProjection rt donor now s = (Inr p, u) \<Longrightarrow> turns rt now donors u t \<Longrightarrow> turns rt now (donor # donors) s t"
| failed: "refreshProjection rt donor now s = (Inl e, u) \<Longrightarrow> projectionFailure e = Some category \<Longrightarrow>
    turns rt now donors (u\<lparr>st_db := postponed donor category now (st_db s)\<rparr>) t \<Longrightarrow> turns rt now (donor # donors) s t"

lemma refresh_one_turn:
  assumes "refresh_one rt now donor s = (Inr x, t)"
  shows "(\<exists>p. refreshProjection rt donor now s = (Inr p, t)) \<or>
    (\<exists>e u category. refreshProjection rt donor now s = (Inl e, u) \<and> projectionFailure e = Some category \<and>
       t = u\<lparr>st_db := postponed donor category now (st_db s)\<rparr>)"
proof (cases "refreshProjection rt donor now s")
  case (Pair r u)
  show ?thesis
  proof (cases r)
    case (Inl e)
    then show ?thesis using assms Pair
      by (cases "projectionFailure e")
        (simp_all add: refresh_one_def sbind_def stry_def BeginFunc_def sfail_def swrite_def q_DeferProjection_def postponed_def)
  next
    case (Inr p)
    then show ?thesis using assms Pair by (simp add: refresh_one_def sbind_def stry_def BeginFunc_def sreturn_def)
  qed
qed

lemma refresh_all_turns: "sfor donors (refresh_one rt now) s = (Inr x, t) \<Longrightarrow> turns rt now donors s t"
proof (induction donors arbitrary: s)
  case (Cons donor donors)
  then obtain u where "refresh_one rt now donor s = (Inr (), u)" "turns rt now donors u t" by (auto simp: sbind_Inr)
  then show ?case using refresh_one_turn[of rt now donor s "()" u] by (auto intro: turns.intros)
qed (auto intro: turns.none)

lemma postponed_next:
  assumes "r \<in> set (db_projections (postponed donor category now d))" and "mp_donor r = donor"
  shows "now + 5 * Minute \<le> mp_next r \<and> mp_next r \<le> now + 24 * Hour \<and> mp_error r = Some category"
proof -
  have "1 * (5 * Minute) \<le> 2 ^ n * (5 * Minute)" for n
    by (rule mult_right_mono) (simp_all add: Minute_def Second_def)
  moreover have "5 * Minute \<le> 24 * Hour" by (simp add: Hour_def Minute_def Second_def)
  ultimately have "5 * Minute \<le> min (2 ^ n * (5 * Minute)) (24 * Hour)" for n by simp
  moreover obtain x where "r = x\<lparr>mp_failures := mp_failures x + 1, mp_error := Some category, mp_rules := projectionRules,
      mp_next := now + min (2 ^ nat (mp_failures x) * (5 * Minute)) (24 * Hour)\<rparr>"
    using assms by (auto simp: postponed_def set_update_rows)
  ultimately show ?thesis by simp
qed

text \<open>
  C33. A batch isolates its donors: of the donors it claims, none of them locked by another
  worker and at most as many as the batch allows, each in turn is either refreshed or, when its
  facts cannot be projected, left exactly as it was but for the failure recorded and a next
  attempt between five minutes and a day later; the others are refreshed all the same.
\<close>

theorem RefreshDueProjections_isolated:
  assumes "RefreshDueProjections rt locked now batch s = (Inr n, t)"
  shows "\<exists>donors. n = length donors \<and> n \<le> batch \<and> set donors \<inter> set locked = {} \<and> turns rt now donors s t \<and>
    (\<forall>donor category d r. r \<in> set (db_projections (postponed donor category now d)) \<longrightarrow> mp_donor r = donor \<longrightarrow>
       now + 5 * Minute \<le> mp_next r \<and> mp_next r \<le> now + 24 * Hour)"
proof -
  obtain due donors where due: "q_DueProjectionDonors now batch locked (st_db s) = Inr due"
    and donors: "donors = due \<or> q_OutdatedProjectionDonors projectionRules now batch locked (st_db s) = Inr donors"
    and run: "sfor donors (refresh_one rt now) s = (Inr (), t)" and n: "n = length donors"
    using assms unfolding RefreshDueProjections_def
    by (auto simp: BeginFunc_cases sbind_Inr split: if_splits)
  have "length donors \<le> batch \<and> set donors \<inter> set locked = {}"
    using due donors by (auto simp: q_DueProjectionDonors_def q_OutdatedProjectionDonors_def dest!: in_set_takeD)
  with refresh_all_turns[OF run] n postponed_next show ?thesis by blast
qed

definition sample_broken_st :: "unit st" where
  "sample_broken_st = sample_referral_st\<lparr>st_db := (st_db sample_referral_st)\<lparr>
     db_gifts := [sample_gift_row\<lparr>gr_amount := - 5, gr_frequency := ''ONE_TIME'', gr_period := None\<rparr>]\<rparr>\<rparr>"

theorem RefreshDueProjections_isolated_witness:
  "\<exists>donors. turns sample_runtime (of_unix 1500) donors sample_broken_st
     (snd (RefreshDueProjections sample_runtime [] (of_unix 1500) 64 sample_broken_st)) \<and> length donors = 1"
proof -
  have a: "fst (RefreshDueProjections sample_runtime [] (of_unix 1500) 64 sample_broken_st) = Inr 1" by code_simp
  from RefreshDueProjections_isolated[OF run_fst[OF a]] show ?thesis by (elim exE conjE) (rule exI, rule conjI, assumption, simp)
qed

end
