(* ===== verification/Access.thy ===== *)
theory Access
  imports Ledger
begin

text \<open>
  Who may act (internal/store/tx.go, store.go, staff.go): donors and staff are authenticated by
  the hash of their session token against the tables, in the transaction that does their work.
  A token stands for the hash \<open>HashToken\<close> gives it, and every reading of the clock is an argument.
\<close>

section \<open>Statements\<close>

record signedIn =
  si_donor :: donor_row
  si_session :: string
  si_used :: time

definition live_sessions :: "string \<Rightarrow> time \<Rightarrow> db \<Rightarrow> (donor_row \<times> session_row) list" where
  "live_sessions hash now d =
     [(x, s). s \<leftarrow> rt_sessions (db_rec d), se_hash s = hash, se_revoked s = None, se_expires s > now,
        x \<leftarrow> db_donors d, don_id x = se_donor s, \<not> don_disabled x, don_claimed_at x \<noteq> None]"

definition q_AuthenticatedDonor :: "string \<Rightarrow> time \<Rightarrow> db \<Rightarrow> store_error + signedIn" where
  "q_AuthenticatedDonor hash now d =
     (case live_sessions hash now d of
        [] \<Rightarrow> Inl ErrNoRows
      | (x, s) # _ \<Rightarrow> Inr \<lparr>si_donor = x, si_session = se_id s, si_used = se_used s\<rparr>)"

definition q_TouchSession :: "string \<Rightarrow> time \<Rightarrow> db \<Rightarrow> store_error + db" where
  "q_TouchSession ident used d =
     Inr (d\<lparr>db_rec := (db_rec d)\<lparr>rt_sessions := update_rows (\<lambda>s. se_id s = ident \<and> se_used s < used)
       (\<lambda>s. s\<lparr>se_used := used\<rparr>) (rt_sessions (db_rec d))\<rparr>\<rparr>)"

definition live_staff_sessions :: "string \<Rightarrow> time \<Rightarrow> db \<Rightarrow> staff_row list" where
  "live_staff_sessions hash now d =
     [f. x \<leftarrow> sd_sessions (db_staff d), ss_hash x = hash, ss_revoked x = None, ss_expires x > now,
        f \<leftarrow> sd_staff (db_staff d), sf_id f = ss_staff x, \<not> sf_disabled f]"

definition q_AuthenticatedStaff :: "string \<Rightarrow> time \<Rightarrow> db \<Rightarrow> store_error + staff_row" where
  "q_AuthenticatedStaff hash now d =
     (case live_staff_sessions hash now d of
        [] \<Rightarrow> Inl ErrNoRows
      | f # _ \<Rightarrow> Inr f)"

definition q_StaffByID :: "string \<Rightarrow> db \<Rightarrow> store_error + staff_row" where
  "q_StaffByID ident d = one_row (\<lambda>f. sf_id f = ident) (sd_staff (db_staff d))"

definition q_InsertStaffAudit :: "audit_row \<Rightarrow> db \<Rightarrow> store_error + db" where
  "q_InsertStaffAudit r d =
     (let S = db_staff d
      in if list_ex (\<lambda>x. au_id x = au_id r) (sd_audit S) \<or> \<not> list_ex (\<lambda>f. sf_id f = au_actor r) (sd_staff S) then Inl ErrConstraint
         else Inr (d\<lparr>db_staff := S\<lparr>sd_audit := sd_audit S @ [r]\<rparr>\<rparr>))"

text \<open>Who calls: the hash of the token, and the readings of the clock before and under the lock of the account.\<close>

record caller =
  cl_hash :: string
  cl_before :: time
  cl_held :: time

section \<open>Donors\<close>

definition authenticate :: "string \<Rightarrow> time \<Rightarrow> ('g, signedIn) tx" where
  "authenticate hash now =
     sbind (sread (\<lambda>d. no_rows_ok (q_AuthenticatedDonor hash now d))) (\<lambda>row.
     case row of None \<Rightarrow> sfail ErrDenied | Some user \<Rightarrow> sreturn user)"

definition touchInterval :: duration where "touchInterval = 5 * Minute"

definition touch :: "signedIn \<Rightarrow> time \<Rightarrow> ('g, unit) tx" where
  "touch user now =
     (if time_Sub now (si_used user) < touchInterval then sreturn () else swrite (q_TouchSession (si_session user) now))"

definition donorRead :: "string \<Rightarrow> (donor_row \<Rightarrow> time \<Rightarrow> ('g, 'a) tx) \<Rightarrow> time \<Rightarrow> ('g, 'a) tx" where
  "donorRead hash fn now =
     sbind (BeginFunc (sbind (authenticate hash now) (\<lambda>user.
       sbind (fn (si_donor user) now) (\<lambda>result. sreturn (user, result))))) (\<lambda>(user, result).
     sbind (stry (touch user now)) (\<lambda>_. sreturn result))"

definition lockSignedIn :: "caller \<Rightarrow> ('g, signedIn) tx" where
  "lockSignedIn c =
     sbind (authenticate (cl_hash c) (cl_before c)) (\<lambda>user.
     sbind (sread (q_LockDonor (don_id (si_donor user)))) (\<lambda>_.
     sbind (authenticate (cl_hash c) (cl_held c)) (\<lambda>user.
     sbind (touch user (cl_held c)) (\<lambda>_. sreturn user))))"

definition donorOwner :: "caller \<Rightarrow> ('g, donor_row) tx" where
  "donorOwner c =
     sbind (lockSignedIn c) (\<lambda>user. sreturn (si_donor user))"

definition donorWrite :: "('g, donor_row) tx \<Rightarrow> (donor_row \<Rightarrow> time \<Rightarrow> ('g, 'a) tx) \<Rightarrow> time \<Rightarrow> ('g, 'a) tx" where
  "donorWrite owner fn now = BeginFunc (sbind owner (\<lambda>d. fn d now))"

section \<open>Staff\<close>

definition rolePermissions :: "(string \<times> string list) list" where
  "rolePermissions =
     [(''SUPER_ADMIN'', [''audit.read'', ''badge.manage'', ''content.publish'', ''data.export'', ''donor.read'', ''donor.recompute'',
        ''event.manage'', ''gift.cancel'', ''gift.refund'', ''initiative.manage'', ''message.resend'', ''partner.manage'',
        ''report.read'', ''staff.manage'']),
      (''OP_PARTNERSHIPS'', [''partner.manage'', ''report.read'']),
      (''OP_GROWTH'', [''event.manage'', ''report.read'']),
      (''OP_IMPACT'', [''initiative.manage'', ''report.read''])]"

definition staffPermissions :: "string \<Rightarrow> string list" where
  "staffPermissions role = (case map_of rolePermissions role of None \<Rightarrow> [] | Some ps \<Rightarrow> ps)"

definition requireStaff :: "string \<Rightarrow> string \<Rightarrow> time \<Rightarrow> ('g, staff_row) tx" where
  "requireStaff hash permission now =
     sbind (sread (\<lambda>d. no_rows_ok (q_AuthenticatedStaff hash now d))) (\<lambda>row.
     case row of
       None \<Rightarrow> sfail ErrStaffDenied
     | Some staff \<Rightarrow>
         if permission \<noteq> [] \<and> permission \<notin> set (staffPermissions (sf_role staff)) then sfail ErrStaffForbidden
         else sreturn staff)"

definition lockStaff :: "caller \<Rightarrow> string \<Rightarrow> ('g, staff_row) tx" where
  "lockStaff c permission =
     sbind (requireStaff (cl_hash c) permission (cl_before c)) (\<lambda>actor.
     sbind (sread (q_StaffByID (sf_id actor))) (\<lambda>_.
     requireStaff (cl_hash c) permission (cl_held c)))"

definition staffRead :: "string \<Rightarrow> string \<Rightarrow> (staff_row \<Rightarrow> time \<Rightarrow> ('g, 'a) tx) \<Rightarrow> time \<Rightarrow> ('g, 'a) tx" where
  "staffRead hash permission fn now =
     BeginFunc (sbind (requireStaff hash permission now) (\<lambda>actor. fn actor now))"

definition staffWrite :: "caller \<Rightarrow> string \<Rightarrow> (staff_row \<Rightarrow> time \<Rightarrow> ('g, 'a) tx) \<Rightarrow> time \<Rightarrow> ('g, 'a) tx" where
  "staffWrite c permission fn now =
     BeginFunc (sbind (lockStaff c permission) (\<lambda>actor. fn actor now))"

text \<open>\<open>after\<close> is the clock once the donor lock is held too.\<close>

definition lockStaffDonor :: "caller \<Rightarrow> time \<Rightarrow> string \<Rightarrow> string \<Rightarrow> ('g, staff_row \<times> donor_row) tx" where
  "lockStaffDonor c after permission donor =
     sbind (lockStaff c permission) (\<lambda>_.
     sbind (sread (q_LockDonor donor)) (\<lambda>row.
     sbind (requireStaff (cl_hash c) permission after) (\<lambda>actor. sreturn (actor, row))))"

definition staffDonorWrite ::
  "caller \<Rightarrow> time \<Rightarrow> string \<Rightarrow> string \<Rightarrow> (staff_row \<Rightarrow> time \<Rightarrow> ('g, 'a) tx) \<Rightarrow> time \<Rightarrow> ('g, 'a) tx" where
  "staffDonorWrite c after permission donor fn now =
     BeginFunc (sbind (lockStaffDonor c after permission donor) (\<lambda>(actor, row). fn actor now))"

definition audited :: "string \<Rightarrow> string \<Rightarrow> string \<Rightarrow> json \<Rightarrow> time \<Rightarrow> ('g, unit) tx" where
  "audited actor action target details now = sbind NewID (\<lambda>ident.
     swrite (q_InsertStaffAudit \<lparr>au_id = ident, au_actor = actor, au_action = action, au_target = target, au_details = details,
       au_created = now\<rparr>))"

section \<open>Nobody acts without a live session\<close>

definition live_donor :: "string \<Rightarrow> time \<Rightarrow> donor_row \<Rightarrow> db \<Rightarrow> bool" where
  "live_donor hash now x d \<longleftrightarrow> x \<in> set (db_donors d) \<and> \<not> don_disabled x \<and> don_claimed_at x \<noteq> None \<and>
     (\<exists>s\<in>set (rt_sessions (db_rec d)). se_hash s = hash \<and> se_donor s = don_id x \<and> se_revoked s = None \<and> se_expires s > now)"

definition live_staff :: "string \<Rightarrow> string \<Rightarrow> time \<Rightarrow> staff_row \<Rightarrow> db \<Rightarrow> bool" where
  "live_staff hash permission now f d \<longleftrightarrow> f \<in> set (sd_staff (db_staff d)) \<and> \<not> sf_disabled f \<and>
     permission \<in> set (staffPermissions (sf_role f)) \<and>
     (\<exists>x\<in>set (sd_sessions (db_staff d)). ss_hash x = hash \<and> ss_staff x = sf_id f \<and> ss_revoked x = None \<and> ss_expires x > now)"

lemma AuthenticatedDonor_live:
  assumes "q_AuthenticatedDonor hash now d = Inr user"
  shows "live_donor hash now (si_donor user) d"
proof -
  obtain x s rest where "live_sessions hash now d = (x, s) # rest" "si_donor user = x"
    using assms by (auto simp: q_AuthenticatedDonor_def split: list.splits)
  then have "(si_donor user, s) \<in> set (live_sessions hash now d)" by simp
  then show ?thesis by (auto simp: live_sessions_def live_donor_def split: if_splits)
qed

lemma AuthenticatedStaff_in: "q_AuthenticatedStaff hash now d = Inr f \<Longrightarrow> f \<in> set (live_staff_sessions hash now d)"
  by (auto simp: q_AuthenticatedStaff_def split: list.splits)

lemma AuthenticatedStaff_live:
  assumes "q_AuthenticatedStaff hash now d = Inr f" and "permission \<in> set (staffPermissions (sf_role f))"
  shows "live_staff hash permission now f d"
proof -
  show ?thesis using AuthenticatedStaff_in[OF assms(1)] assms(2) by (auto simp: live_staff_sessions_def live_staff_def split: if_splits)
qed

lemma no_rows_ok_cases:
  "no_rows_ok r = Inr x \<longleftrightarrow> (case x of None \<Rightarrow> r = Inl ErrNoRows | Some a \<Rightarrow> r = Inr a)"
  by (auto simp: no_rows_ok_def split: sum.splits store_error.splits option.splits)

lemma authenticate_run:
  assumes "authenticate hash now s = (r, t)"
  shows "t = s" and "r = Inr user \<Longrightarrow> live_donor hash now (si_donor user) (st_db s)" and "r = Inl e \<Longrightarrow> e = ErrDenied"
proof -
  have "q_AuthenticatedDonor hash now d = Inl e \<Longrightarrow> e = ErrNoRows" for d e
    by (auto simp: q_AuthenticatedDonor_def split: list.splits)
  with assms show "t = s" "r = Inr user \<Longrightarrow> live_donor hash now (si_donor user) (st_db s)" "r = Inl e \<Longrightarrow> e = ErrDenied"
    using AuthenticatedDonor_live[of hash now "st_db s"]
    by (auto simp: authenticate_def sbind_def sread_def sreturn_def sfail_def no_rows_ok_def split: sum.splits option.splits if_splits)
qed

lemma requireStaff_run:
  assumes "requireStaff hash permission now s = (r, t)"
  shows "t = s" and "permission \<noteq> [] \<Longrightarrow> r = Inr f \<Longrightarrow> live_staff hash permission now f (st_db s)"
    and "r = Inl e \<Longrightarrow> e \<in> {ErrStaffDenied, ErrStaffForbidden}"
    and "r = Inr f \<Longrightarrow> f \<in> set (sd_staff (db_staff (st_db s)))"
proof -
  have err: "q_AuthenticatedStaff hash now d = Inl e \<Longrightarrow> e = ErrNoRows" for d e
    by (auto simp: q_AuthenticatedStaff_def split: list.splits)
  have mem: "q_AuthenticatedStaff hash now d = Inr f \<Longrightarrow> f \<in> set (sd_staff (db_staff d))" for d f
    by (drule AuthenticatedStaff_in) (auto simp: live_staff_sessions_def split: if_splits)
  note def = requireStaff_def sbind_def sread_def sreturn_def sfail_def no_rows_ok_def
  show "t = s" "permission \<noteq> [] \<Longrightarrow> r = Inr f \<Longrightarrow> live_staff hash permission now f (st_db s)"
    "r = Inl e \<Longrightarrow> e \<in> {ErrStaffDenied, ErrStaffForbidden}" "r = Inr f \<Longrightarrow> f \<in> set (sd_staff (db_staff (st_db s)))"
    using assms err[of "st_db s"] mem[of "st_db s"] AuthenticatedStaff_live[of hash now "st_db s"]
    by (auto simp: def split: sum.splits option.splits if_splits)
qed

lemma lockStaff_run:
  assumes "lockStaff c permission s = (r, t)" and "permission \<noteq> []"
  shows "t = s \<and> (case r of Inr f \<Rightarrow> live_staff (cl_hash c) permission (cl_held c) f (st_db s)
    | Inl e \<Rightarrow> e \<in> {ErrStaffDenied, ErrStaffForbidden})"
proof (cases "requireStaff (cl_hash c) permission (cl_before c) s")
  case (Pair r1 u)
  note first = requireStaff_run[OF Pair]
  show ?thesis
  proof (cases r1)
    case (Inl e)
    then show ?thesis using assms(1) Pair first(1,3) by (auto simp: lockStaff_def sbind_def)
  next
    case (Inr f)
    then have "\<exists>x. find (\<lambda>x. sf_id x = sf_id f) (sd_staff (db_staff (st_db s))) = Some x"
      using first(4) by (cases "find (\<lambda>x. sf_id x = sf_id f) (sd_staff (db_staff (st_db s)))") (auto simp: find_None_iff)
    then have "requireStaff (cl_hash c) permission (cl_held c) s = (r, t)"
      using assms(1) Inr Pair first(1) by (auto simp: lockStaff_def sbind_def sread_def q_StaffByID_def one_row_def)
    then show ?thesis using requireStaff_run[of "cl_hash c" permission "cl_held c" s r t] assms(2) by (auto split: sum.splits)
  qed
qed

lemma lockSignedIn_run:
  assumes "lockSignedIn c s = (Inr user, t)"
  shows "live_donor (cl_hash c) (cl_held c) (si_donor user) (st_db s)"
    and "t = s \<or> t = s\<lparr>st_db := (st_db s)\<lparr>db_rec := (db_rec (st_db s))\<lparr>rt_sessions := update_rows
        (\<lambda>x. se_id x = si_session user \<and> se_used x < cl_held c) (\<lambda>x. x\<lparr>se_used := cl_held c\<rparr>) (rt_sessions (db_rec (st_db s)))\<rparr>\<rparr>\<rparr>"
proof -
  obtain u1 u2 u where "authenticate (cl_hash c) (cl_before c) s = (Inr u, u1)"
    and second: "authenticate (cl_hash c) (cl_held c) u1 = (Inr user, u2)" and touched: "touch user (cl_held c) u2 = (Inr (), t)"
    using assms by (auto simp: lockSignedIn_def sbind_Inr)
  then have "u1 = s" "u2 = s" using authenticate_run(1) by blast+
  with second show "live_donor (cl_hash c) (cl_held c) (si_donor user) (st_db s)" using authenticate_run(2) by blast
  from touched \<open>u2 = s\<close> show "t = s \<or> t = s\<lparr>st_db := (st_db s)\<lparr>db_rec := (db_rec (st_db s))\<lparr>rt_sessions := update_rows
        (\<lambda>x. se_id x = si_session user \<and> se_used x < cl_held c) (\<lambda>x. x\<lparr>se_used := cl_held c\<rparr>) (rt_sessions (db_rec (st_db s)))\<rparr>\<rparr>\<rparr>"
    by (auto simp: touch_def q_TouchSession_def split: if_splits)
qed

text \<open>
  C34. Staff work runs only for staff: whatever the work is, a write under a permission either
  acts for an enabled staff account whose role holds the permission, with a session that is
  neither revoked nor expired once the account is locked, or it is refused and changes nothing.
\<close>

theorem staffWrite_authorised:
  assumes "permission \<noteq> []" and "staffWrite c permission work now s = (r, t)"
  shows "(\<exists>actor. live_staff (cl_hash c) permission (cl_held c) actor (st_db s) \<and>
      BeginFunc (work actor now) s = (r, t)) \<or> (t = s \<and> r \<in> {Inl ErrStaffDenied, Inl ErrStaffForbidden})"
proof (cases "lockStaff c permission s")
  case (Pair q u)
  note lock = lockStaff_run[OF Pair assms(1)]
  show ?thesis
  proof (cases q)
    case (Inl e)
    then show ?thesis using assms(2) Pair lock by (auto simp: staffWrite_def BeginFunc_def sbind_def)
  next
    case (Inr f)
    then show ?thesis using assms(2) Pair lock by (auto simp: staffWrite_def BeginFunc_def sbind_def)
  qed
qed

definition sample_staff_st :: "unit st" where
  "sample_staff_st = \<lparr>st_db = empty_db\<lparr>db_ids := [''i1'', ''i2'', ''i3'', ''i4'', ''i5'', ''i6'', ''i7'', ''i8''],
     db_staff := \<lparr>sd_staff = [\<lparr>sf_id = ''s1'', sf_email = ''ops@dad.org'', sf_role = ''OP_GROWTH'', sf_disabled = False\<rparr>],
       sd_sessions = [\<lparr>ss_hash = ''h1'', ss_staff = ''s1'', ss_expires = 100, ss_revoked = None\<rparr>], sd_audit = []\<rparr>\<rparr>,
     st_gw = (), st_seen = []\<rparr>"

definition sample_staff :: caller where "sample_staff = \<lparr>cl_hash = ''h1'', cl_before = 10, cl_held = 11\<rparr>"

theorem staffWrite_authorised_witness:
  "\<exists>actor. live_staff ''h1'' ''event.manage'' 11 actor (st_db sample_staff_st)"
proof -
  have run: "fst (staffWrite sample_staff ''event.manage'' (\<lambda>_ _. sreturn ()) 12 sample_staff_st) = Inr ()" by code_simp
  show ?thesis
    using staffWrite_authorised[OF _ run_fst[OF run]] by (auto simp: sample_staff_def)
qed

end
