(* ===== verification/Event_Queries.thy ===== *)
theory Event_Queries
  imports Notices Access
begin

text \<open>
  The statements of events and the places donors hold at them
  (internal/store/queries/events.sql.go, badges.sql.go): what they select and how they change the
  tables, with the constraints of the schema that can refuse a write. The columns' lengths are
  left to the validation that precedes every write.
\<close>

abbreviation events :: "db \<Rightarrow> donor_event_row list" where "events d \<equiv> cm_events (db_community d)"
abbreviation places :: "db \<Rightarrow> place_row list" where "places d \<equiv> cm_places (db_community d)"

definition with_events :: "(donor_event_row list \<Rightarrow> donor_event_row list) \<Rightarrow> db \<Rightarrow> db" where
  "with_events f d = d\<lparr>db_community := (db_community d)\<lparr>cm_events := f (events d)\<rparr>\<rparr>"

definition with_places :: "(place_row list \<Rightarrow> place_row list) \<Rightarrow> db \<Rightarrow> db" where
  "with_places f d = d\<lparr>db_community := (db_community d)\<lparr>cm_places := f (places d)\<rparr>\<rparr>"

section \<open>Events\<close>

definition event_checks :: "donor_event_row \<Rightarrow> bool" where
  "event_checks e \<longleftrightarrow> en_type e \<in> {''VOLUNTEER'', ''COMMUNITY'', ''INVITE_ONLY''} \<and> en_state e \<in> {''DRAFT'', ''PUBLISHED''} \<and>
     en_capacity e \<ge> 0 \<and> en_ends e > en_starts e \<and> ((en_state e = ''PUBLISHED'') = (en_published e \<noteq> None)) \<and>
     (case en_opens e of None \<Rightarrow> True | Some t \<Rightarrow> t < en_starts e)"

definition q_EventByID :: "string \<Rightarrow> db \<Rightarrow> store_error + donor_event_row" where
  "q_EventByID ident d = one_row (\<lambda>e. en_id e = ident) (events d)"

definition q_LockEvent :: "string \<Rightarrow> db \<Rightarrow> store_error + donor_event_row" where
  "q_LockEvent ident d = one_row (\<lambda>e. en_id e = ident) (events d)"

definition q_InsertEvent :: "donor_event_row \<Rightarrow> db \<Rightarrow> store_error + db" where
  "q_InsertEvent e d =
     (if \<not> event_checks e \<or> list_ex (\<lambda>x. en_id x = en_id e \<or> en_slug x = en_slug e) (events d) then Inl ErrConstraint
      else Inr (with_events (\<lambda>es. es @ [e]) d))"

definition updated_event :: "donor_event_row \<Rightarrow> time \<Rightarrow> donor_event_row \<Rightarrow> donor_event_row" where
  "updated_event p now e = e\<lparr>en_title := en_title p, en_type := en_type p, en_description := en_description p, en_venue := en_venue p,
     en_address := en_address p, en_city := en_city p, en_zip := en_zip p, en_starts := en_starts p, en_ends := en_ends p,
     en_capacity := en_capacity p, en_perk := en_perk p, en_updated := now, en_opens := en_opens p, en_zone := en_zone p\<rparr>"

definition q_UpdateEvent :: "string \<Rightarrow> donor_event_row \<Rightarrow> time \<Rightarrow> db \<Rightarrow> store_error + db" where
  "q_UpdateEvent ident p now d =
     (let d' = with_events (update_rows (\<lambda>e. en_id e = ident) (updated_event p now)) d
      in if list_all event_checks (filter (\<lambda>e. en_id e = ident) (events d')) then Inr d' else Inl ErrConstraint)"

definition q_PublishEvent :: "string \<Rightarrow> time \<Rightarrow> db \<Rightarrow> store_error + db" where
  "q_PublishEvent ident now d = Inr (with_events (update_rows (\<lambda>e. en_id e = ident)
     (\<lambda>e. e\<lparr>en_state := ''PUBLISHED'', en_published := Some now, en_updated := now\<rparr>)) d)"

definition q_CancelEvent :: "string \<Rightarrow> time \<Rightarrow> db \<Rightarrow> store_error + db" where
  "q_CancelEvent ident now d = Inr (with_events (update_rows (\<lambda>e. en_id e = ident \<and> en_cancelled e = None)
     (\<lambda>e. e\<lparr>en_cancelled := Some now, en_updated := now\<rparr>)) d)"

section \<open>Places\<close>

definition q_ReservationFor :: "string \<Rightarrow> string \<Rightarrow> db \<Rightarrow> store_error + place_row" where
  "q_ReservationFor event donor d = one_row (\<lambda>r. pl_event r = event \<and> pl_donor r = donor) (places d)"

definition q_ReservedCount :: "string \<Rightarrow> db \<Rightarrow> store_error + int" where
  "q_ReservedCount event d = Inr (int (length (filter (\<lambda>r. pl_event r = event \<and> pl_status r = ''RESERVED'') (places d))))"

definition q_WaitlistHead :: "string \<Rightarrow> db \<Rightarrow> store_error + place_row" where
  "q_WaitlistHead event d =
     first_by (\<lambda>r. (pl_reserved r, pl_id r)) (\<lambda>r. pl_event r = event \<and> pl_status r = ''WAITLISTED'') (places d)"

definition q_UpsertReservation :: "place_row \<Rightarrow> db \<Rightarrow> store_error + db" where
  "q_UpsertReservation r d =
     (let same = (\<lambda>x. pl_event x = pl_event r \<and> pl_donor x = pl_donor r)
      in if list_ex same (places d)
         then Inr (with_places (update_rows same
           (\<lambda>x. x\<lparr>pl_status := pl_status r, pl_reserved := pl_reserved r, pl_updated := pl_updated r\<rparr>)) d)
         else if list_ex (\<lambda>x. pl_id x = pl_id r) (places d) \<or> \<not> list_ex (\<lambda>e. en_id e = pl_event r) (events d) \<or>
           \<not> has_donor (pl_donor r) d then Inl ErrConstraint
         else Inr (with_places (\<lambda>ps. ps @ [r]) d))"

definition q_SetReservationStatus :: "string \<Rightarrow> string \<Rightarrow> string \<Rightarrow> time \<Rightarrow> db \<Rightarrow> store_error + db" where
  "q_SetReservationStatus event donor status now d = Inr (with_places (update_rows (\<lambda>r. pl_event r = event \<and> pl_donor r = donor)
     (\<lambda>r. r\<lparr>pl_status := status, pl_updated := now\<rparr>)) d)"

definition q_PromoteReservation :: "string \<Rightarrow> time \<Rightarrow> db \<Rightarrow> store_error + db" where
  "q_PromoteReservation ident now d = Inr (with_places (update_rows (\<lambda>r. pl_id r = ident)
     (\<lambda>r. r\<lparr>pl_status := ''RESERVED'', pl_updated := now\<rparr>)) d)"

definition q_CheckInReservation :: "string \<Rightarrow> string \<Rightarrow> time \<Rightarrow> db \<Rightarrow> store_error + db" where
  "q_CheckInReservation event donor now d = Inr (with_places (update_rows
     (\<lambda>r. pl_event r = event \<and> pl_donor r = donor \<and> pl_status r \<noteq> ''CANCELLED'' \<and> pl_checked r = None)
     (\<lambda>r. r\<lparr>pl_checked := Some now, pl_updated := now\<rparr>)) d)"

definition live_place :: "string \<Rightarrow> place_row \<Rightarrow> bool" where
  "live_place event r \<longleftrightarrow> pl_event r = event \<and> pl_status r \<in> {''RESERVED'', ''WAITLISTED''}"

definition q_ReleaseEventReservations :: "string \<Rightarrow> time \<Rightarrow> db \<Rightarrow> store_error + (string list \<times> db)" where
  "q_ReleaseEventReservations event now d = Inr (map pl_donor (filter (live_place event) (places d)),
     with_places (update_rows (live_place event) (\<lambda>r. r\<lparr>pl_status := ''CANCELLED'', pl_updated := now\<rparr>)) d)"

definition q_DonorUpcomingReservations :: "string \<Rightarrow> time \<Rightarrow> db \<Rightarrow> store_error + (string \<times> string) list" where
  "q_DonorUpcomingReservations donor asOf d =
     Inr (sort_key fst (map (\<lambda>r. (pl_event r, pl_status r))
       (filter (\<lambda>r. pl_donor r = donor \<and> pl_status r \<in> {''RESERVED'', ''WAITLISTED''} \<and>
          list_ex (\<lambda>e. en_id e = pl_event r \<and> en_starts e > asOf) (events d)) (places d))))"

section \<open>Guests and badges\<close>

definition q_IsEventGuest :: "string \<Rightarrow> string \<Rightarrow> db \<Rightarrow> store_error + bool" where
  "q_IsEventGuest event donor d = Inr (list_ex (\<lambda>g. gu_event g = event \<and> gu_donor g = donor) (cm_guests (db_community d)))"

definition q_AddEventGuest :: "guest_row \<Rightarrow> db \<Rightarrow> store_error + db" where
  "q_AddEventGuest g d =
     (let C = db_community d
      in rbind (insert_notice (list_ex (\<lambda>e. en_id e = gu_event g) (events d) \<and> has_donor (gu_donor g) d)
                 (\<lambda>x. gu_event x = gu_event g \<and> gu_donor x = gu_donor g) (\<lambda>x. gu_id x = gu_id g) g (cm_guests C))
           (\<lambda>rows. Inr (d\<lparr>db_community := C\<lparr>cm_guests := rows\<rparr>\<rparr>)))"

definition q_RemoveEventGuest :: "string \<Rightarrow> string \<Rightarrow> db \<Rightarrow> store_error + db" where
  "q_RemoveEventGuest event donor d = Inr (d\<lparr>db_community := (db_community d)\<lparr>cm_guests :=
     filter (\<lambda>g. \<not> (gu_event g = event \<and> gu_donor g = donor)) (cm_guests (db_community d))\<rparr>\<rparr>)"

definition q_DonorGuestEvents :: "string \<Rightarrow> string list \<Rightarrow> db \<Rightarrow> store_error + string list" where
  "q_DonorGuestEvents donor idents d =
     Inr (map gu_event (filter (\<lambda>g. gu_donor g = donor \<and> gu_event g \<in> set idents) (cm_guests (db_community d))))"

definition q_DonorEarnedBadgeCodes :: "string \<Rightarrow> db \<Rightarrow> store_error + string list" where
  "q_DonorEarnedBadgeCodes donor d =
     Inr (map eb_code (filter (\<lambda>b. eb_donor b = donor \<and> eb_revoked b = None) (rt_badges (db_rec d))))"

section \<open>Reading lists\<close>

definition upcoming :: "time \<Rightarrow> donor_event_row \<Rightarrow> bool" where
  "upcoming now e \<longleftrightarrow> en_state e = ''PUBLISHED'' \<and> en_cancelled e = None \<and> en_starts e > now"

definition q_UpcomingEventsNearDonor ::
  "(string \<Rightarrow> string) \<Rightarrow> time \<Rightarrow> string \<Rightarrow> string \<Rightarrow> db \<Rightarrow> store_error + donor_event_row list" where
  "q_UpcomingEventsNearDonor sqlLower now city zip3 d =
     Inr (take 100 (sort_key (\<lambda>e. (en_starts e, en_id e)) (filter (\<lambda>e. upcoming now e \<and> en_type e \<noteq> ''INVITE_ONLY'' \<and>
       ((city \<noteq> [] \<and> sqlLower (en_city e) = sqlLower city) \<or> (zip3 \<noteq> [] \<and> take 3 (en_zip e) = zip3))) (events d))))"

definition q_UpcomingInviteOnlyEvents :: "time \<Rightarrow> db \<Rightarrow> store_error + donor_event_row list" where
  "q_UpcomingInviteOnlyEvents now d =
     Inr (take 100 (sort_key (\<lambda>e. (en_starts e, en_id e)) (filter (\<lambda>e. upcoming now e \<and> en_type e = ''INVITE_ONLY'') (events d))))"

definition q_ReservedCountsForEvents :: "string list \<Rightarrow> db \<Rightarrow> store_error + (string \<times> int) list" where
  "q_ReservedCountsForEvents idents d =
     (let seats = filter (\<lambda>r. pl_event r \<in> set idents \<and> pl_status r = ''RESERVED'') (places d)
      in Inr (map (\<lambda>e. (e, int (length (filter (\<lambda>r. pl_event r = e) seats)))) (remdups (map pl_event seats))))"

definition q_DonorReservationsForEvents :: "string \<Rightarrow> string list \<Rightarrow> db \<Rightarrow> store_error + place_row list" where
  "q_DonorReservationsForEvents donor idents d =
     Inr (filter (\<lambda>r. pl_donor r = donor \<and> pl_event r \<in> set idents \<and> pl_status r \<in> {''RESERVED'', ''WAITLISTED''}) (places d))"

section \<open>Reminders and alerts\<close>

definition reminder_candidates :: "string \<Rightarrow> time \<Rightarrow> time \<Rightarrow> db \<Rightarrow> push_row list" where
  "reminder_candidates label asOf until d =
     [\<lparr>pn_id = [], pn_donor = pl_donor r, pn_category = ''EVENT_REMINDER'',
       pn_key = ''push:event-reminder:'' @ en_id e @ '':'' @ pl_donor r @ '':'' @ label,
       pn_context = JObj [(''event_id'', JStr (en_id e)), (''window'', JStr label)], pn_available = asOf, pn_expires = en_starts e\<rparr>.
        e \<leftarrow> events d, r \<leftarrow> places d, pl_event r = en_id e, en_state e = ''PUBLISHED'', pl_status r = ''RESERVED'',
        en_starts e > asOf, en_starts e \<le> until]"

definition q_QueueEventReminders :: "string \<Rightarrow> time \<Rightarrow> time \<Rightarrow> db \<Rightarrow> store_error + (int \<times> db)" where
  "q_QueueEventReminders label asOf until d =
     rbind (put_all push_named put_push (reminder_candidates label asOf until d) d) (\<lambda>d'.
       Inr (int (length (rt_pushes (db_rec d'))) - int (length (rt_pushes (db_rec d))), d'))"

definition q_QueueEventAlertJob :: "string \<Rightarrow> time \<Rightarrow> db \<Rightarrow> store_error + (int \<times> db)" where
  "q_QueueEventAlertJob event asOf d =
     (let C = db_community d
      in if list_ex (\<lambda>e. en_id e = event \<and> upcoming asOf e \<and> en_type e \<noteq> ''INVITE_ONLY'') (events d) \<and>
           \<not> list_ex (\<lambda>j. al_event j = event) (cm_alerts C)
         then Inr (1, d\<lparr>db_community := C\<lparr>cm_alerts := cm_alerts C @
           [\<lparr>al_event = event, al_last = None, al_completed = None, al_updated = asOf\<rparr>]\<rparr>\<rparr>)
         else Inr (0, d))"

definition q_NextEventAlertJob :: "string list \<Rightarrow> db \<Rightarrow> store_error + alert_row" where
  "q_NextEventAlertJob locked d =
     first_by (\<lambda>j. (al_updated j, al_event j)) (\<lambda>j. al_completed j = None \<and> al_event j \<notin> set locked) (cm_alerts (db_community d))"

definition alert_recipient :: "(string \<Rightarrow> string) \<Rightarrow> donor_event_row \<Rightarrow> db \<Rightarrow> donor_row \<Rightarrow> bool" where
  "alert_recipient sqlLower e d x \<longleftrightarrow> \<not> don_disabled x \<and>
     ((en_city e \<noteq> [] \<and> map_option sqlLower (don_city x) = Some (sqlLower (en_city e))) \<or>
      (en_zip e \<noteq> [] \<and> map_option (take 3) (don_zip x) = Some (take 3 (en_zip e)))) \<and>
     list_ex (\<lambda>f. pf_donor f = don_id x \<and> pr_Volunteer (pf_choices f) \<and> pr_PushEventNearby (pf_choices f))
       (cm_preferences (db_community d))"

definition alert_recipients ::
  "(string \<Rightarrow> string) \<Rightarrow> string \<Rightarrow> string option \<Rightarrow> time \<Rightarrow> nat \<Rightarrow> db \<Rightarrow> (donor_row \<times> donor_event_row) list" where
  "alert_recipients sqlLower event after asOf limit d =
     take limit (sort_key (\<lambda>x. don_id (fst x))
       [(x, e). e \<leftarrow> events d, en_id e = event, upcoming asOf e, en_type e \<noteq> ''INVITE_ONLY'', x \<leftarrow> db_donors d,
          alert_recipient sqlLower e d x, (case after of None \<Rightarrow> True | Some a \<Rightarrow> don_id x > a)])"

definition q_QueueEventAlertBatch ::
  "(string \<Rightarrow> string) \<Rightarrow> string \<Rightarrow> string option \<Rightarrow> time \<Rightarrow> nat \<Rightarrow> db \<Rightarrow> store_error + ((string option \<times> nat) \<times> db)" where
  "q_QueueEventAlertBatch sqlLower event after asOf limit d =
     (let recipients = alert_recipients sqlLower event after asOf limit d
      in rbind (put_all push_named put_push (map (\<lambda>(x, e). \<lparr>pn_id = [], pn_donor = don_id x, pn_category = ''EVENT_NEARBY'',
             pn_key = ''push:event-nearby:'' @ event @ '':'' @ don_id x, pn_context = JObj [(''event_id'', JStr event)],
             pn_available = asOf, pn_expires = en_starts e\<rparr>) recipients) d)
           (\<lambda>d'. Inr ((if recipients = [] then None else Some (don_id (fst (last recipients))), length recipients), d')))"

definition q_SaveEventAlertProgress :: "string \<Rightarrow> string option \<Rightarrow> time option \<Rightarrow> time \<Rightarrow> db \<Rightarrow> store_error + db" where
  "q_SaveEventAlertProgress event final completed now d = Inr (d\<lparr>db_community := (db_community d)\<lparr>cm_alerts :=
     update_rows (\<lambda>j. al_event j = event)
       (\<lambda>j. j\<lparr>al_last := (case final of None \<Rightarrow> al_last j | Some x \<Rightarrow> Some x), al_completed := completed, al_updated := now\<rparr>)
       (cm_alerts (db_community d))\<rparr>\<rparr>)"

end
