(* ===== verification/Identity.thy ===== *)
theory Identity
  imports Credentials
begin

text \<open>
  Package \<open>identity\<close> (internal/identity/email.go and punycode.go): the canonical form of a donor's
  email address. Addresses are handled as runes (the code ranges over valid UTF-8); the
  frozen Unicode tables of tables.json are a parameter, a record of the maps and range
  lists the file holds. The Punycode encoder keeps its 32-bit arithmetic.
\<close>

section \<open>Tables\<close>

record unicodeTables =
  t_Mapping :: "nat \<Rightarrow> nat list option"
  t_Classes :: "nat \<Rightarrow> int"
  t_Compositions :: "nat \<times> nat \<Rightarrow> nat option"
  t_Prohibited :: "(nat \<times> nat) list"
  t_Right :: "(nat \<times> nat) list"
  t_Left :: "(nat \<times> nat) list"
  t_Whitespace :: "(nat \<times> nat) list"

datatype email_error = ErrEmail

text \<open>
  \<open>sort.Search\<close> is the binary search of the standard library for the first index whose range
  ends at or after the rune.
\<close>

function search_loop :: "(nat \<times> nat) list \<Rightarrow> nat \<Rightarrow> nat \<Rightarrow> nat \<Rightarrow> nat" where
  "search_loop ranges r i j =
     (if i < j then
        let h = (i + j) div 2
        in if \<not> snd (ranges ! h) \<ge> r then search_loop ranges r (h + 1) j else search_loop ranges r i h
      else i)"
  by pat_completeness auto
termination
  by (relation "measure (\<lambda>(_, _, i, j). j - i)") auto

declare search_loop.simps [simp del]

definition contains :: "(nat \<times> nat) list \<Rightarrow> nat \<Rightarrow> bool" where
  "contains ranges r =
     (let i = search_loop ranges r 0 (length ranges) in i < length ranges \<and> fst (ranges ! i) \<le> r)"

definition ascii :: "nat list \<Rightarrow> bool" where
  "ascii value = list_all (\<lambda>r. r \<le> 127) value"

section \<open>Punycode\<close>

definition base :: int where "base = 36"
definition damp :: int where "damp = 700"
definition initialBias :: int where "initialBias = 72"
definition initialN :: int where "initialN = 128"
definition skew :: int where "skew = 38"
definition tmax :: int where "tmax = 26"
definition tmin :: int where "tmin = 1"

lemmas punycode_parameters = base_def damp_def initialBias_def initialN_def skew_def tmax_def tmin_def

text \<open>\<open>None\<close> is the panic.\<close>

definition encodeDigit :: "int \<Rightarrow> nat option" where
  "encodeDigit d = (if 0 \<le> d \<and> d < 26 then Some (nat (d + 97)) else if 26 \<le> d \<and> d < 36 then Some (nat (d + 22)) else None)"

text \<open>The bias loop: delta falls by a factor of 35 while it exceeds 455.\<close>

function adapt_loop :: "int \<Rightarrow> int \<Rightarrow> int" where
  "adapt_loop delta k =
     (if delta > go_div ((base - tmin) * tmax) 2 then adapt_loop (go_div delta (base - tmin)) (k + base)
      else k + go_div ((base - tmin + 1) * delta) (delta + skew))"
  by pat_completeness auto
termination
proof (relation "measure (\<lambda>(delta, _). nat delta)", goal_cases)
  case (2 delta k)
  then have d: "455 < delta" by (simp add: punycode_parameters go_div_nonneg)
  then have "delta div 35 < delta" by (intro int_div_less_self) auto
  with d show ?case by (simp add: punycode_parameters go_div_nonneg)
qed simp

declare adapt_loop.simps [simp del]

definition adapt :: "int \<Rightarrow> int \<Rightarrow> bool \<Rightarrow> int" where
  "adapt delta numPoints firstTime =
     (let delta = (if firstTime then go_div delta damp else go_div delta 2);
          delta = delta + go_div delta numPoints
      in adapt_loop delta 0)"

text \<open>The digits of one delta.\<close>

definition threshold :: "int \<Rightarrow> int \<Rightarrow> int" where
  "threshold k bias = (let t = k - bias in if t < tmin then tmin else if t > tmax then tmax else t)"

lemma threshold_range: "1 \<le> threshold k bias \<and> threshold k bias \<le> 26"
  by (simp add: threshold_def Let_def punycode_parameters)

function encode_delta :: "int \<Rightarrow> int \<Rightarrow> int \<Rightarrow> nat list \<Rightarrow> nat list option" where
  "encode_delta q k bias out =
     (let t = threshold k bias
      in if q < t then map_option (\<lambda>d. out @ [d]) (encodeDigit q)
         else case encodeDigit (t + go_mod (q - t) (base - t)) of
                None \<Rightarrow> None
              | Some d \<Rightarrow> encode_delta (go_div (q - t) (base - t)) (k + base) bias (out @ [d]))"
  by pat_completeness auto
termination
proof (relation "measure (\<lambda>(q, _, _, _). nat q)", goal_cases)
  case (2 q k bias out t x2)
  have t: "1 \<le> t" "t \<le> 26" using threshold_range[of k bias] 2(1) by auto
  have q: "t \<le> q" using 2(2) by simp
  have "(q - t) div (36 - t) < q"
  proof (cases "q = t")
    case False
    with t q have "(q - t) div (36 - t) < q - t" by (intro int_div_less_self) auto
    with t show ?thesis by simp
  qed (use t in simp)
  then show ?case using t q by (simp add: go_div_nonneg base_def)
qed simp

declare encode_delta.simps [simp del]

text \<open>
  The encoder. Its counters of runes stay far below the 32-bit bound; delta is the one
  number that can overflow, and wraps. \<open>PanicDigit\<close> is the panic of \<open>encodeDigit\<close>.
\<close>

datatype puny_error = InvalidLabel | PanicDigit

record pstate =
  ps_output :: "nat list"
  ps_delta :: int
  ps_bias :: int
  ps_h :: int
  ps_remaining :: int

fun encode_pass :: "int \<Rightarrow> int \<Rightarrow> pstate \<Rightarrow> nat list \<Rightarrow> puny_error + pstate" where
  "encode_pass b n st [] = Inr st"
| "encode_pass b n st (r # rs) =
     (if int r < n then
        let delta = wrap32 (ps_delta st + 1)
        in if delta < 0 then Inl InvalidLabel else encode_pass b n (st\<lparr>ps_delta := delta\<rparr>) rs
      else if int r > n then encode_pass b n st rs
      else case encode_delta (ps_delta st) base (ps_bias st) (ps_output st) of
             None \<Rightarrow> Inl PanicDigit
           | Some out \<Rightarrow>
               encode_pass b n \<lparr>ps_output = out, ps_delta = 0, ps_bias = adapt (ps_delta st) (ps_h st + 1) (ps_h st = b),
                 ps_h = ps_h st + 1, ps_remaining = ps_remaining st - 1\<rparr> rs)"

definition next_rune :: "int \<Rightarrow> nat list \<Rightarrow> int" where
  "next_rune n s = foldl (\<lambda>m r. if m > int r \<and> int r \<ge> n then int r else m) MaxInt32 s"

text \<open>The outer loop, with the number of passes it may take; \<open>None\<close> is running out of them.\<close>

fun encode_loop :: "nat \<Rightarrow> int \<Rightarrow> nat list \<Rightarrow> int \<Rightarrow> pstate \<Rightarrow> (puny_error + nat list) option" where
  "encode_loop fuel b s n st =
     (if ps_remaining st = 0 then Some (Inr (ps_output st))
      else case fuel of
        0 \<Rightarrow> None
      | Suc fuel' \<Rightarrow>
          (let m = next_rune n s;
               delta = wrap32 (ps_delta st + wrap32 ((m - n) * (ps_h st + 1)))
           in if delta < 0 then Some (Inl InvalidLabel)
              else case encode_pass b m (st\<lparr>ps_delta := delta\<rparr>) s of
                     Inl e \<Rightarrow> Some (Inl e)
                   | Inr st \<Rightarrow> encode_loop fuel' b s (m + 1) (st\<lparr>ps_delta := wrap32 (ps_delta st + 1)\<rparr>)))"

declare encode_loop.simps [simp del]

definition encode :: "nat list \<Rightarrow> nat list \<Rightarrow> (puny_error + nat list) option" where
  "encode prefix s =
     (let basic = filter (\<lambda>r. r < 128) s; b = int (length basic)
      in encode_loop (length s) b s initialN
           \<lparr>ps_output = prefix @ basic @ (if b > 0 then [45] else []), ps_delta = 0, ps_bias = initialBias, ps_h = b,
             ps_remaining = int (length (filter (\<lambda>r. \<not> r < 128) s))\<rparr>)"

section \<open>Name preparation\<close>

definition decompose :: "unicodeTables \<Rightarrow> nat \<Rightarrow> nat list" where
  "decompose t r =
     (if 44032 \<le> r \<and> r < 55204 then
        let index = r - 44032; tail = index mod 28
        in [4352 + index div 588, 4449 + index mod 588 div 28] @ (if tail \<noteq> 0 then [4519 + tail] else [])
      else case t_Mapping t r of Some mapped \<Rightarrow> mapped | None \<Rightarrow> [r])"

text \<open>Canonical ordering: each rune of a non-zero class moves left past runes of higher class.\<close>

fun move_left :: "unicodeTables \<Rightarrow> nat \<Rightarrow> nat list \<Rightarrow> nat list" where
  "move_left t r [] = [r]"
| "move_left t r (p # before) = (if t_Classes t p > t_Classes t r then p # move_left t r before else r # p # before)"

text \<open>The prefix is kept reversed, its last rune first.\<close>

definition order_step :: "unicodeTables \<Rightarrow> nat list \<Rightarrow> nat \<Rightarrow> nat list" where
  "order_step t before r = (if before \<noteq> [] \<and> t_Classes t r \<noteq> 0 then move_left t r before else r # before)"

definition canonical_order :: "unicodeTables \<Rightarrow> nat list \<Rightarrow> nat list" where
  "canonical_order t rs = rev (foldl (order_step t) [] rs)"

definition compose :: "unicodeTables \<Rightarrow> nat \<Rightarrow> nat \<Rightarrow> nat option" where
  "compose t a b =
     (if 4352 \<le> a \<and> a < 4371 \<and> 4449 \<le> b \<and> b < 4470 then Some (44032 + (a - 4352) * 588 + (b - 4449) * 28)
      else if 44032 \<le> a \<and> a < 55204 \<and> (a - 44032) mod 28 = 0 \<and> b > 4519 \<and> b < 4547 then Some (a + b - 4519)
      else t_Compositions t (a, b))"

definition compose_step :: "unicodeTables \<Rightarrow> nat list \<times> nat option \<times> int \<Rightarrow> nat \<Rightarrow> nat list \<times> nat option \<times> int" where
  "compose_step t st r =
     (let (result, starter, lastClass) = st; class_r = t_Classes t r;
          combined = (case starter of
                        None \<Rightarrow> None
                      | Some i \<Rightarrow> if lastClass = 0 \<or> lastClass < class_r then compose t (result ! i) r else None)
      in case combined of
           Some c \<Rightarrow> (result[the starter := c], starter, lastClass)
         | None \<Rightarrow> (result @ [r], if class_r = 0 then Some (length result) else starter, class_r))"

definition nameprep :: "unicodeTables \<Rightarrow> nat list \<Rightarrow> email_error + nat list" where
  "nameprep t label =
     (let decomposed = canonical_order t (concat (map (decompose t) label));
          (result, _, _) = foldl (compose_step t) ([], None, 0) decomposed;
          hasRight = list_ex (contains (t_Right t)) result;
          hasLeft = list_ex (contains (t_Left t)) result
      in if list_ex (contains (t_Prohibited t)) result then Inl ErrEmail
         else if hasRight \<and> (hasLeft \<or> \<not> contains (t_Right t) (hd result) \<or> \<not> contains (t_Right t) (last result))
         then Inl ErrEmail
         else Inr result)"

section \<open>Addresses\<close>

definition lower :: "nat \<Rightarrow> nat" where
  "lower r = (if 65 \<le> r \<and> r \<le> 90 then r + 32 else r)"

definition labelASCII :: "unicodeTables \<Rightarrow> nat list \<Rightarrow> email_error + nat list" where
  "labelASCII t label =
     rbind (if ascii label then Inr label
            else rbind (nameprep t label) (\<lambda>prepared.
              if ascii prepared then Inr prepared
              else if take 4 (map lower prepared) = [120, 110, 45, 45] then Inl ErrEmail
              else case encode [120, 110, 45, 45] prepared of Some (Inr out) \<Rightarrow> Inr out | _ \<Rightarrow> Inl ErrEmail))
       (\<lambda>label. if length label = 0 \<or> length label > 63 then Inl ErrEmail else Inr label)"

definition letter_or_digit :: "nat \<Rightarrow> bool" where
  "letter_or_digit r \<longleftrightarrow> 97 \<le> r \<and> r \<le> 122 \<or> 48 \<le> r \<and> r \<le> 57"

text \<open>\<open>localPattern\<close> and \<open>labelPattern\<close>.\<close>

definition local_char :: "nat \<Rightarrow> bool" where
  "local_char r \<longleftrightarrow> 65 \<le> r \<and> r \<le> 90 \<or> letter_or_digit r
     \<or> r \<in> set [46, 33, 35, 36, 37, 38, 39, 42, 43, 47, 61, 63, 94, 95, 96, 123, 124, 125, 126, 45]"

definition localPattern :: "nat list \<Rightarrow> bool" where
  "localPattern s \<longleftrightarrow> 1 \<le> length s \<and> length s \<le> 64 \<and> list_all local_char s"

definition labelPattern :: "nat list \<Rightarrow> bool" where
  "labelPattern s \<longleftrightarrow> 1 \<le> length s \<and> length s \<le> 63 \<and> letter_or_digit (hd s) \<and> letter_or_digit (last s)
     \<and> list_all (\<lambda>r. letter_or_digit r \<or> r = 45) s"

definition identity_TrimSpace :: "unicodeTables \<Rightarrow> nat list \<Rightarrow> nat list" where
  "identity_TrimSpace t value =
     rev (dropWhile (contains (t_Whitespace t)) (rev (dropWhile (contains (t_Whitespace t)) value)))"

text \<open>\<open>strings.Split\<close> and \<open>strings.Join\<close> on a one-rune separator.\<close>

fun split_on :: "nat \<Rightarrow> nat list \<Rightarrow> nat list list" where
  "split_on sep [] = [[]]"
| "split_on sep (r # rs) =
     (if r = sep then [] # split_on sep rs
      else case split_on sep rs of [] \<Rightarrow> [[r]] | part # parts \<Rightarrow> (r # part) # parts)"

fun join_on :: "nat \<Rightarrow> nat list list \<Rightarrow> nat list" where
  "join_on sep [] = []"
| "join_on sep [part] = part"
| "join_on sep (part # parts) = part @ sep # join_on sep parts"

fun has_double_dot :: "nat list \<Rightarrow> bool" where
  "has_double_dot (a # b # rs) = ((a = 46 \<and> b = 46) \<or> has_double_dot (b # rs))"
| "has_double_dot rs = False"

fun all_labels :: "(nat list \<Rightarrow> email_error + nat list) \<Rightarrow> nat list list \<Rightarrow> email_error + nat list list" where
  "all_labels f [] = Inr []"
| "all_labels f (l # ls) = rbind (f l) (\<lambda>x. rbind (all_labels f ls) (\<lambda>xs. Inr (x # xs)))"

definition normalize_runes :: "unicodeTables \<Rightarrow> nat list \<Rightarrow> email_error + nat list" where
  "normalize_runes t value =
     (let value = identity_TrimSpace t value
      in if length (filter (\<lambda>r. r = 64) value) \<noteq> 1 then Inl ErrEmail
         else let local = takeWhile (\<lambda>r. r \<noteq> 64) value; domain = tl (dropWhile (\<lambda>r. r \<noteq> 64) value)
         in if \<not> localPattern local \<or> hd local = 46 \<or> last local = 46 \<or> has_double_dot local then Inl ErrEmail
            else let domain = map (\<lambda>r. if r = 12290 \<or> r = 65294 \<or> r = 65377 then 46 else r) domain
            in rbind (all_labels (labelASCII t) (split_on 46 domain)) (\<lambda>labels.
                 let domain = map lower (join_on 46 labels); labels = split_on 46 domain
                 in if length domain > 253 \<or> length labels < 2 then Inl ErrEmail
                    else if \<not> list_all labelPattern labels then Inl ErrEmail
                    else Inr (map lower local @ [64] @ domain)))"

definition NormalizeEmail :: "unicodeTables \<Rightarrow> string \<Rightarrow> email_error + string" where
  "NormalizeEmail t value =
     (case utf8_decode (map byte value) of
        None \<Rightarrow> Inl ErrEmail
      | Some runes \<Rightarrow> map_sum id (map char_of) (normalize_runes t runes))"

section \<open>The encoder ends and never panics\<close>

lemma encode_delta_total: "0 \<le> q \<Longrightarrow> \<exists>out'. encode_delta q k bias out = Some out'"
proof (induction q k bias out rule: encode_delta.induct)
  case (1 q k bias out)
  define t where "t = threshold k bias"
  have t: "1 \<le> t" "t \<le> 26" using threshold_range[of k bias] by (auto simp: t_def)
  show ?case
  proof (cases "q < t")
    case True
    with t 1(2) show ?thesis by (subst encode_delta.simps) (simp add: encodeDigit_def flip: t_def)
  next
    case False
    define m where "m = (q - t) mod (36 - t)"
    have m: "0 \<le> m" "m < 36 - t" unfolding m_def using t by simp_all
    have "go_mod (q - t) (base - t) = m" using t False by (simp add: go_mod_nonneg base_def m_def)
    with m t have "encodeDigit (t + go_mod (q - t) (base - t)) \<noteq> None" by (auto simp: encodeDigit_def)
    then obtain d where d: "encodeDigit (t + go_mod (q - t) (base - t)) = Some d" by blast
    have "0 \<le> go_div (q - t) (base - t)" using t False by (simp add: go_div_nonneg base_def pos_imp_zdiv_nonneg_iff)
    from 1(1)[OF t_def False d this] show ?thesis
      using False d by (subst encode_delta.simps) (simp flip: t_def)
  qed
qed

lemma encode_pass_progress:
  assumes "0 \<le> ps_delta st"
  shows "encode_pass b n st rs = Inl InvalidLabel \<or> (\<exists>st'. encode_pass b n st rs = Inr st' \<and> 0 \<le> ps_delta st' \<and>
    ps_remaining st' = ps_remaining st - int (length (filter (\<lambda>r. int r = n) rs)))"
  using assms
proof (induction rs arbitrary: st)
  case (Cons r rs)
  consider "int r < n" | "int r > n" | "int r = n" by linarith
  then show ?case
  proof cases
    case 1
    then show ?thesis using Cons.IH[of "st\<lparr>ps_delta := wrap32 (ps_delta st + 1)\<rparr>"] by (auto simp: Let_def)
  next
    case 2
    then show ?thesis using Cons.IH[OF Cons.prems] by simp
  next
    case 3
    obtain out where out: "encode_delta (ps_delta st) base (ps_bias st) (ps_output st) = Some out"
      using encode_delta_total[OF Cons.prems] by blast
    let ?st = "\<lparr>ps_output = out, ps_delta = 0, ps_bias = adapt (ps_delta st) (ps_h st + 1) (ps_h st = b),
                 ps_h = ps_h st + 1, ps_remaining = ps_remaining st - 1\<rparr>"
    from Cons.IH[of ?st] 3 out show ?thesis by auto
  qed
qed simp

text \<open>The next rune is the least one not below \<open>n\<close>.\<close>

lemma next_rune_least:
  assumes "\<forall>r\<in>set s. int r < MaxInt32" and "\<exists>r\<in>set s. n \<le> int r"
  shows "\<exists>r\<in>set s. next_rune n s = int r \<and> n \<le> int r \<and> (\<forall>x\<in>set s. n \<le> int x \<longrightarrow> int r \<le> int x)"
proof -
  have *: "let m = foldl (\<lambda>m r. if m > int r \<and> int r \<ge> n then int r else m) m0 s
    in (m = m0 \<or> (\<exists>r\<in>set s. m = int r \<and> n \<le> int r)) \<and> m \<le> m0 \<and> (\<forall>x\<in>set s. n \<le> int x \<longrightarrow> m \<le> int x)" for m0
  proof (induction s arbitrary: m0)
    case (Cons a s)
    show ?case using Cons.IH[of "if m0 > int a \<and> int a \<ge> n then int a else m0"] by (auto simp: Let_def split: if_splits)
  qed simp
  from *[of MaxInt32] assms show ?thesis unfolding next_rune_def[symmetric] Let_def by (metis linorder_not_less)
qed

lemma encode_loop_total:
  assumes "\<forall>r\<in>set s. int r < MaxInt32" and "ps_remaining st = int (length (filter (\<lambda>r. n \<le> int r) s))"
    and "length (filter (\<lambda>r. n \<le> int r) s) \<le> fuel"
  shows "\<exists>res. encode_loop fuel b s n st = Some res \<and> res \<noteq> Inl PanicDigit"
  using assms(2,3)
proof (induction fuel arbitrary: n st)
  case 0
  then show ?case by (subst encode_loop.simps) simp
next
  case (Suc fuel)
  show ?case
  proof (cases "ps_remaining st = 0")
    case True
    then show ?thesis by (subst encode_loop.simps) simp
  next
    case False
    let ?m = "next_rune n s"
    define delta where "delta = wrap32 (ps_delta st + wrap32 ((?m - n) * (ps_h st + 1)))"
    from False Suc.prems(1) have "\<exists>r\<in>set s. n \<le> int r" by (metis filter_False list.size(3) of_nat_0)
    from next_rune_least[OF assms(1) this] obtain r where r: "r \<in> set s" "?m = int r" "n \<le> int r"
      and least: "\<forall>x\<in>set s. n \<le> int x \<longrightarrow> int r \<le> int x" by blast
    show ?thesis
    proof (cases "delta < 0")
      case True
      with False show ?thesis by (subst encode_loop.simps) (simp add: Let_def flip: delta_def)
    next
      case pos: False
      let ?st = "st\<lparr>ps_delta := delta\<rparr>"
      have split: "length (filter (\<lambda>x. n \<le> int x) s) =
        length (filter (\<lambda>x. int x = ?m) s) + length (filter (\<lambda>x. ?m + 1 \<le> int x) s)"
      proof -
        have "filter (\<lambda>x. int x = ?m) s = filter (\<lambda>x. int x = ?m) (filter (\<lambda>x. n \<le> int x) s)"
          "filter (\<lambda>x. ?m + 1 \<le> int x) s = filter (\<lambda>x. \<not> int x = ?m) (filter (\<lambda>x. n \<le> int x) s)"
          using r(2,3) least by (auto intro!: filter_cong)
        then show ?thesis using sum_length_filter_compl[of "\<lambda>x. int x = ?m" "filter (\<lambda>x. n \<le> int x) s"] by simp
      qed
      have "0 < length (filter (\<lambda>x. int x = ?m) s)" using r(1,2) by (auto simp: filter_empty_conv)
      with split Suc.prems(2) have fuel: "length (filter (\<lambda>x. ?m + 1 \<le> int x) s) \<le> fuel" by linarith
      have rem: "ps_remaining st - int (length (filter (\<lambda>x. int x = ?m) s)) = int (length (filter (\<lambda>x. ?m + 1 \<le> int x) s))"
        using split Suc.prems(1) by simp
      have "0 \<le> ps_delta ?st" using pos by simp
      from encode_pass_progress[OF this, of b ?m s]
      consider "encode_pass b ?m ?st s = Inl InvalidLabel"
        | st' where "encode_pass b ?m ?st s = Inr st'" "ps_remaining st' = int (length (filter (\<lambda>x. ?m + 1 \<le> int x) s))"
        using rem by auto
      then show ?thesis
      proof cases
        case 1
        with False pos show ?thesis by (subst encode_loop.simps) (simp add: Let_def flip: delta_def)
      next
        case 2
        with fuel Suc.IH[of "st'\<lparr>ps_delta := wrap32 (ps_delta st' + 1)\<rparr>" "?m + 1"] False pos
        show ?thesis by (subst encode_loop.simps) (simp add: Let_def flip: delta_def)
      qed
    qed
  qed
qed

text \<open>
  C23. The Punycode encoder always returns: on the runes of any string it makes at most one pass
  per rune, and ends with an encoding or with the error for an overflow, never with the panic
  of an impossible digit, whatever its 32-bit arithmetic wraps to.
\<close>

theorem encode_returns:
  assumes "\<forall>r\<in>set s. scalar r"
  shows "\<exists>res. encode prefix s = Some res \<and> res \<noteq> Inl PanicDigit"
proof -
  have "\<forall>r\<in>set s. int r < MaxInt32" using assms by (auto simp: scalar_def MaxInt32_def)
  moreover have "filter (\<lambda>r. \<not> r < 128) s = filter (\<lambda>r. initialN \<le> int r) s"
    by (auto simp: initialN_def intro: filter_cong)
  ultimately show ?thesis
    unfolding encode_def Let_def by (intro encode_loop_total) auto
qed

theorem encode_returns_witness: "\<exists>res. encode [120, 110, 45, 45] [98, 252, 99] = Some res \<and> res \<noteq> Inl PanicDigit"
  by (rule encode_returns) (simp add: scalar_def)


section \<open>The canonical form\<close>

definition domain_char :: "nat \<Rightarrow> bool" where
  "domain_char r \<longleftrightarrow> letter_or_digit r \<or> r = 45 \<or> r = 46"

text \<open>A canonical address: a lower-case local part, and a domain of at least two lower-case labels.\<close>

definition canonical_parts :: "nat list \<Rightarrow> nat list \<Rightarrow> bool" where
  "canonical_parts local domain \<longleftrightarrow>
     localPattern local \<and> map lower local = local \<and> hd local \<noteq> 46 \<and> last local \<noteq> 46 \<and> \<not> has_double_dot local
     \<and> length domain \<le> 253 \<and> 2 \<le> length (split_on 46 domain) \<and> list_all labelPattern (split_on 46 domain)"

lemma lower_46 [simp]: "lower r = 46 \<longleftrightarrow> r = 46" and lower_idem [simp]: "lower (lower r) = lower r"
  by (auto simp: lower_def)

lemma local_char_lower: "local_char r \<Longrightarrow> local_char (lower r)"
  by (auto simp: local_char_def lower_def letter_or_digit_def)

lemma has_double_dot_lower: "has_double_dot (map lower rs) = has_double_dot rs"
  by (induction rs rule: has_double_dot.induct) auto

lemma join_split: "join_on sep (split_on sep rs) = rs"
proof (induction rs)
  case (Cons r rs)
  have ne: "split_on sep xs \<noteq> []" for xs by (cases xs) (auto split: list.splits)
  obtain p ps where "split_on sep rs = p # ps" using ne[of rs] by (cases "split_on sep rs") auto
  with Cons show ?case by (cases ps) auto
qed simp

lemma split_on_chars: "list_all (list_all P) (split_on sep rs) \<Longrightarrow> list_all (\<lambda>r. P r \<or> r = sep) rs"
proof (induction rs)
  case (Cons r rs)
  then show ?case by (auto split: if_splits list.splits)
qed simp

lemma labelPattern_chars: "labelPattern l \<Longrightarrow> list_all (\<lambda>r. letter_or_digit r \<or> r = 45) l"
  by (simp add: labelPattern_def)

lemma domain_chars:
  assumes "list_all labelPattern (split_on 46 domain)"
  shows "list_all domain_char domain"
proof -
  have "list_all (list_all (\<lambda>r. letter_or_digit r \<or> r = 45)) (split_on 46 domain)"
    using assms labelPattern_chars by (auto simp: list_all_iff)
  from split_on_chars[OF this] show ?thesis by (simp add: domain_char_def list_all_iff disj_assoc)
qed

lemma domain_char_lower: "domain_char r \<Longrightarrow> lower r = r \<and> r \<le> 127 \<and> r \<noteq> 64"
  by (auto simp: domain_char_def letter_or_digit_def lower_def)

lemma local_char_ascii: "local_char r \<Longrightarrow> r \<le> 127 \<and> r \<noteq> 64"
  by (auto simp: local_char_def letter_or_digit_def)

lemma labelPattern_ASCII: "labelPattern l \<Longrightarrow> labelASCII t l = Inr l"
proof -
  assume l: "labelPattern l"
  then have "ascii l" using labelPattern_chars[OF l] by (auto simp: ascii_def list_all_iff letter_or_digit_def)
  with l show ?thesis by (auto simp: labelASCII_def labelPattern_def)
qed

lemma all_labels_fixed: "list_all labelPattern ls \<Longrightarrow> all_labels (labelASCII t) ls = Inr ls"
  by (induction ls) (simp_all add: labelPattern_ASCII)

lemma split_on_nonempty: "split_on sep rs \<noteq> []"
  by (induction rs) (auto split: list.splits)

lemma last_join: "ls \<noteq> [] \<Longrightarrow> last ls \<noteq> [] \<Longrightarrow> join_on sep ls \<noteq> [] \<and> last (join_on sep ls) = last (last ls)"
  by (induction sep ls rule: join_on.induct) auto

lemma last_domain:
  assumes "list_all labelPattern (split_on 46 domain)"
  shows "domain \<noteq> [] \<and> letter_or_digit (last domain)"
proof -
  have "labelPattern (last (split_on 46 domain))"
    using assms split_on_nonempty[of 46 domain] by (simp add: list_all_iff)
  then have "last (split_on 46 domain) \<noteq> []" "letter_or_digit (last (last (split_on 46 domain)))"
    by (auto simp: labelPattern_def)
  with last_join[OF split_on_nonempty, of 46 domain 46] show ?thesis by (simp add: join_split)
qed

lemma dropWhile_hd: "xs \<noteq> [] \<Longrightarrow> \<not> P (hd xs) \<Longrightarrow> dropWhile P xs = xs"
  by (cases xs) auto

lemma normalize_runes_form:
  assumes "normalize_runes t value = Inr out"
  shows "\<exists>local domain. out = local @ [64] @ domain \<and> canonical_parts local domain"
proof -
  obtain local labels where *: "localPattern local" "hd local \<noteq> 46" "last local \<noteq> 46" "\<not> has_double_dot local"
      "length (map lower (join_on 46 labels)) \<le> 253" "2 \<le> length (split_on 46 (map lower (join_on 46 labels)))"
      "list_all labelPattern (split_on 46 (map lower (join_on 46 labels)))"
      "out = map lower local @ [64] @ map lower (join_on 46 labels)"
    using assms unfolding normalize_runes_def Let_def rbind_eq_Inr
    by (auto simp: rbind_eq_Inr not_less split: if_splits)
  have ne: "local \<noteq> []" using *(1) by (auto simp: localPattern_def)
  have "localPattern (map lower local)" using *(1) local_char_lower by (auto simp: localPattern_def list_all_iff)
  then show ?thesis
    using * ne by (intro exI[of _ "map lower local"] exI[of _ "map lower (join_on 46 labels)"])
      (simp add: canonical_parts_def has_double_dot_lower hd_map last_map)
qed

lemma canonical_fixed:
  assumes "canonical_parts local domain" and ws: "\<And>r. local_char r \<Longrightarrow> \<not> contains (t_Whitespace t) r"
  shows "normalize_runes t (local @ [64] @ domain) = Inr (local @ [64] @ domain)"
proof -
  note c = assms(1)[unfolded canonical_parts_def]
  have dom: "list_all domain_char domain" using c domain_chars by blast
  have loc: "list_all local_char local" "local \<noteq> []" using c by (auto simp: localPattern_def)
  have domain: "domain \<noteq> []" "letter_or_digit (last domain)" using last_domain c by blast+
  have trim: "identity_TrimSpace t (local @ [64] @ domain) = local @ [64] @ domain"
  proof -
    have "\<not> contains (t_Whitespace t) (hd local)" using loc by (intro ws) (cases local; simp)
    moreover have "\<not> contains (t_Whitespace t) (last domain)" using domain(2) by (intro ws) (simp add: local_char_def)
    ultimately show ?thesis
      using loc(2) domain(1) by (simp add: identity_TrimSpace_def dropWhile_hd hd_append hd_rev)
  qed
  have at: "\<forall>r\<in>set local. r \<noteq> 64" "\<forall>r\<in>set domain. r \<noteq> 64"
    using loc dom local_char_ascii domain_char_lower by (auto simp: list_all_iff)
  then have parts: "takeWhile (\<lambda>r. r \<noteq> 64) (local @ [64] @ domain) = local"
      "tl (dropWhile (\<lambda>r. r \<noteq> 64) (local @ [64] @ domain)) = domain"
      "length (filter (\<lambda>r. r = 64) (local @ [64] @ domain)) = 1"
    by (simp_all add: takeWhile_append2 dropWhile_append2 filter_False)
  have dots: "map (\<lambda>r. if r = 12290 \<or> r = 65294 \<or> r = 65377 then 46 else r) domain = domain"
    using dom domain_char_lower by (force simp: list_all_iff intro: map_idI)
  have low: "map lower domain = domain" using dom domain_char_lower by (auto simp: list_all_iff intro: map_idI)
  have labels: "all_labels (labelASCII t) (split_on 46 domain) = Inr (split_on 46 domain)"
    using c by (intro all_labels_fixed) blast
  show ?thesis
    unfolding normalize_runes_def Let_def trim parts dots labels using c by (simp add: join_split low)
qed

lemma utf8_decode_ascii: "list_all (\<lambda>r. r \<le> 127) rs \<Longrightarrow> utf8_decode (map byte (map char_of rs)) = Some rs"
  by (induction rs) (simp_all add: byte_def decode_rune_def)

text \<open>
  C20. \<open>NormalizeEmail\<close> yields canonical addresses: its result is a lower-case ASCII address with a
  local part of 1 to 64 allowed characters, neither bounded by nor doubling dots, and a domain
  of at most 253 bytes with at least two well-formed labels; and normalising it again changes
  nothing, so one donor has one address however often it is processed.
\<close>

theorem NormalizeEmail_canonical:
  assumes "NormalizeEmail t value = Inr email" and "\<And>r. local_char r \<Longrightarrow> \<not> contains (t_Whitespace t) r"
  shows "NormalizeEmail t email = Inr email \<and>
    (\<exists>local domain. email = map char_of (local @ [64] @ domain) \<and> canonical_parts local domain)"
proof -
  obtain runes out where "normalize_runes t runes = Inr out" and email: "email = map char_of out"
  proof -
    obtain runes where runes: "utf8_decode (map byte value) = Some runes"
      using assms(1) by (auto simp: NormalizeEmail_def split: option.splits)
    show ?thesis
      using assms(1) that by (cases "normalize_runes t runes") (auto simp: NormalizeEmail_def runes)
  qed
  then obtain local domain where out: "out = local @ [64] @ domain" "canonical_parts local domain"
    using normalize_runes_form by blast
  have "list_all (\<lambda>r. r \<le> 127) out"
    using out domain_chars[of domain] local_char_ascii domain_char_lower
    by (auto simp: canonical_parts_def localPattern_def list_all_iff)
  then have "utf8_decode (map byte email) = Some out" unfolding email by (rule utf8_decode_ascii)
  moreover have "normalize_runes t out = Inr out" unfolding out(1) by (rule canonical_fixed[OF out(2) assms(2)])
  ultimately have "NormalizeEmail t email = Inr email" by (simp add: NormalizeEmail_def email)
  with email out show ?thesis by blast
qed

definition ascii_tables :: unicodeTables where
  "ascii_tables = \<lparr>t_Mapping = (\<lambda>_. None), t_Classes = (\<lambda>_. 0), t_Compositions = (\<lambda>_. None), t_Prohibited = [], t_Right = [],
     t_Left = [], t_Whitespace = [(9, 13), (32, 32)]\<rparr>"

theorem NormalizeEmail_canonical_witness: "NormalizeEmail ascii_tables ''ann@dad.org'' = Inr ''ann@dad.org''"
proof -
  have "contains [(9, 13), (32, 32)] 32" by (simp add: contains_def search_loop.simps Let_def)
  then have "NormalizeEmail ascii_tables '' Ann@DAD.org'' = Inr ''ann@dad.org''"
    by (simp add: NormalizeEmail_def byte_def decode_rune_def normalize_runes_def identity_TrimSpace_def ascii_tables_def
      contains_def search_loop.simps Let_def localPattern_def local_char_def letter_or_digit_def labelASCII_def ascii_def
      lower_def labelPattern_def) code_simp
  moreover have "\<not> contains (t_Whitespace ascii_tables) r" if "local_char r" for r
  proof -
    have "33 \<le> r" using that by (auto simp: local_char_def letter_or_digit_def)
    then show ?thesis
      by (simp add: contains_def ascii_tables_def search_loop.simps Let_def)
  qed
  ultimately show ?thesis using NormalizeEmail_canonical[of ascii_tables] by blast
qed

end
