(* ===== verification/Events.thy ===== *)
theory Events
  imports Event_Queries Identity
begin

text \<open>
  Events and the places donors hold at them (internal/store/events.go, event_staff.go,
  event_alert_fanout.go, donor.go; internal/geo): staff author and publish events, donors
  reserve, wait, are promoted, cancel and check in, all under the event's row lock.
\<close>

text \<open>
  What the code takes from elsewhere: the embedded Unicode and ZIP tables, the tz database,
  \<open>time.Parse\<close> and \<open>Time.Format\<close>, base64, HMAC-SHA256, and the bytes behind an identifier's text.
\<close>

record zoneTable =
  zt_Prefix :: "(string \<times> string) list"
  zt_Override :: "(string \<times> string) list"

record event_env =
  ee_tables :: unicodeTables
  ee_zones :: zoneTable
  ee_LoadLocation :: "string \<Rightarrow> bool"
  ee_Parse :: "string \<Rightarrow> time option"
  ee_Format :: "time \<Rightarrow> string"
  ee_encode :: "string \<Rightarrow> string"
  ee_decode :: "string \<Rightarrow> string option"
  ee_hmac :: "string \<Rightarrow> string \<Rightarrow> string"
  ee_Bytes :: "string \<Rightarrow> string"
  ee_UUID :: "string \<Rightarrow> string"

section \<open>Validating an event\<close>

definition is_digit :: "char \<Rightarrow> bool" where "is_digit c \<longleftrightarrow> 48 \<le> byte c \<and> byte c \<le> 57"
definition is_lower :: "char \<Rightarrow> bool" where "is_lower c \<longleftrightarrow> 97 \<le> byte c \<and> byte c \<le> 122"
definition is_upper :: "char \<Rightarrow> bool" where "is_upper c \<longleftrightarrow> 65 \<le> byte c \<and> byte c \<le> 90"

definition zipPattern :: "string \<Rightarrow> bool" where
  "zipPattern z \<longleftrightarrow> (length z = 5 \<or> length z = 10 \<and> z ! 5 = CHR ''-'' \<and> list_all is_digit (drop 6 z)) \<and> list_all is_digit (take 5 z)"

definition NormalizeZip :: "string \<Rightarrow> string option" where
  "NormalizeZip z = (if zipPattern z then Some z else None)"

definition geo_Timezone :: "zoneTable \<Rightarrow> string \<Rightarrow> string option" where
  "geo_Timezone t z =
     (if \<not> zipPattern z then None
      else let five = take 5 z
           in case map_of (zt_Override t) five of Some name \<Rightarrow> Some name | None \<Rightarrow> map_of (zt_Prefix t) (take 3 five))"

definition initiativeSlug :: "string \<Rightarrow> bool" where
  "initiativeSlug s \<longleftrightarrow> list_all (\<lambda>part. part \<noteq> [] \<and> list_all (\<lambda>b. (48 \<le> b \<and> b \<le> 57) \<or> (97 \<le> b \<and> b \<le> 122)) part)
     (split_on 45 (map byte s))"

definition plainText :: "string \<Rightarrow> bool \<Rightarrow> bool" where
  "plainText s multiline =
     (case utf8_decode (map byte s) of
        None \<Rightarrow> False
      | Some rs \<Rightarrow> list_all (\<lambda>r. (multiline \<and> (r = 9 \<or> r = 10 \<or> r = 13)) \<or> \<not> (r < 32 \<or> r = 127)) rs)"

text \<open>A plain text of at most \<open>maximum\<close> runes; counting runes matters for valid UTF-8 only.\<close>

definition bounded_text :: "string \<Rightarrow> nat \<Rightarrow> bool \<Rightarrow> bool" where
  "bounded_text s maximum multiline \<longleftrightarrow> plainText s multiline \<and> length (the (utf8_decode (map byte s))) \<le> maximum"

definition ianaZone :: "string \<Rightarrow> bool" where
  "ianaZone z \<longleftrightarrow> 1 \<le> length z \<and> length z \<le> 64 \<and>
     list_all (\<lambda>c. is_upper c \<or> is_lower c \<or> is_digit c \<or> c \<in> set ''+_/-'') z"

definition defaultEventTimeZone :: string where "defaultEventTimeZone = ''America/New_York''"

definition eventTimeZone :: "event_env \<Rightarrow> string \<Rightarrow> string \<Rightarrow> string option" where
  "eventTimeZone env zone z =
     (if zone = [] then (case geo_Timezone (ee_zones env) z of Some name \<Rightarrow> Some name | None \<Rightarrow> Some defaultEventTimeZone)
      else if \<not> ianaZone zone \<or> zone = ''Local'' then None
      else if \<not> ee_LoadLocation env zone then None
      else Some zone)"

definition eventTypes :: "string list" where "eventTypes = [''VOLUNTEER'', ''COMMUNITY'', ''INVITE_ONLY'']"

definition knownPerks :: "string list" where "knownPerks = [PerkFoundingEvents, PerkMilestoneEvents, PerkTeamCaptain]"

record EventInput =
  ei_Slug :: string
  ei_Title :: string
  ei_Type :: string
  ei_Description :: string
  ei_Venue :: string
  ei_Address :: string
  ei_City :: string
  ei_Zip :: string
  ei_StartsAt :: string
  ei_EndsAt :: string
  ei_Capacity :: int
  ei_QualifyingPerk :: string
  ei_BookingOpensAt :: string
  ei_TimeZone :: string

definition input_ok :: "event_env \<Rightarrow> EventInput \<Rightarrow> bool" where
  "input_ok env i \<longleftrightarrow> length (ei_Slug i) \<le> 100 \<and> initiativeSlug (ei_Slug i) \<and>
     bounded_text (ei_Title i) 150 False \<and> identity_TrimSpace (ee_tables env) (the (utf8_decode (map byte (ei_Title i)))) \<noteq> [] \<and>
     ei_Type i \<in> set eventTypes \<and>
     bounded_text (ei_Description i) 4000 True \<and> bounded_text (ei_Venue i) 200 False \<and> bounded_text (ei_Address i) 300 False \<and>
     bounded_text (ei_City i) 80 False \<and> (ei_Zip i \<noteq> [] \<longrightarrow> NormalizeZip (ei_Zip i) \<noteq> None) \<and> ei_Capacity i \<ge> 0"

definition validate :: "event_env \<Rightarrow> EventInput \<Rightarrow> time \<Rightarrow> store_error + donor_event_row" where
  "validate env i now =
     (if \<not> input_ok env i then Inl StoreStaffInput
      else case (eventTimeZone env (ei_TimeZone i) (ei_Zip i), ee_Parse env (ei_StartsAt i), ee_Parse env (ei_EndsAt i)) of
        (Some zone, Some starts, Some ends) \<Rightarrow>
          if \<not> ends > starts then Inl StoreStaffInput
          else rbind (if ei_BookingOpensAt i = [] then Inr None
                      else case ee_Parse env (ei_BookingOpensAt i) of
                             None \<Rightarrow> Inl StoreStaffInput
                           | Some at \<Rightarrow> if at < starts then Inr (Some at) else Inl StoreStaffInput) (\<lambda>opens.
               if ei_QualifyingPerk i \<noteq> [] \<and> (ei_QualifyingPerk i \<notin> set knownPerks \<or> ei_Type i \<noteq> ''INVITE_ONLY'')
               then Inl StoreStaffInput
               else Inr \<lparr>en_id = [], en_slug = ei_Slug i, en_title = ei_Title i, en_type = ei_Type i, en_description = ei_Description i,
                 en_venue = ei_Venue i, en_address = ei_Address i, en_city = ei_City i, en_zip = ei_Zip i, en_starts = starts,
                 en_ends = ends, en_capacity = ei_Capacity i, en_state = ''DRAFT'', en_published = None, en_perk = ei_QualifyingPerk i,
                 en_cancelled = None, en_opens = opens, en_zone = zone, en_created = now, en_updated = now\<rparr>)
      | _ \<Rightarrow> Inl StoreStaffInput)"

section \<open>Who may reserve\<close>

definition earlyBookingLead :: duration where "earlyBookingLead = 48 * Hour"

definition bookingOpen :: "string \<Rightarrow> donor_event_row \<Rightarrow> time \<Rightarrow> ('g, bool \<times> bool) tx" where
  "bookingOpen donor e now =
     (case en_opens e of
        None \<Rightarrow> sreturn (True, False)
      | Some opens \<Rightarrow>
          if \<not> now < opens then sreturn (True, False)
          else if now < opens - earlyBookingLead then sreturn (False, False)
          else sbind (sread (q_DonorEarnedBadgeCodes donor)) (\<lambda>codes.
            let captain = HoldsPerk (set codes) PerkTeamCaptain in sreturn (captain, captain)))"

definition canSeeInviteOnly :: "string \<Rightarrow> donor_event_row \<Rightarrow> ('g, bool \<times> bool) tx" where
  "canSeeInviteOnly donor e =
     sbind (if en_perk e \<noteq> [] then sbind (sread (q_DonorEarnedBadgeCodes donor)) (\<lambda>codes. sreturn (HoldsPerk (set codes) (en_perk e)))
            else sreturn False) (\<lambda>byPerk.
     if byPerk then sreturn (True, True)
     else sbind (sread (q_IsEventGuest (en_id e) donor)) (\<lambda>guest. sreturn (guest, False)))"

section \<open>The waiting list\<close>

definition notify_place ::
  "string \<Rightarrow> string \<Rightarrow> string \<Rightarrow> string \<Rightarrow> time \<Rightarrow> time \<Rightarrow> ('g, unit) tx" where
  "notify_place event donor category key expires now =
     (let payload = JObj [(''event_id'', JStr event)]
      in sbind NewID (\<lambda>pushID.
         sbind (swrite (q_QueueEventPush \<lparr>pn_id = pushID, pn_donor = donor, pn_category = category, pn_key = ''push:'' @ key,
           pn_context = payload, pn_available = now, pn_expires = expires\<rparr>)) (\<lambda>_.
         sbind NewID (\<lambda>messageID.
         swrite (q_InsertFinancialMessage \<lparr>ms_id = messageID, ms_donor = donor, ms_kind = category, ms_key = ''message:'' @ key,
           ms_context = payload, ms_available = now\<rparr>)))))"

definition promoteWaitlistHead :: "event_env \<Rightarrow> donor_event_row \<Rightarrow> time \<Rightarrow> ('g, bool) tx" where
  "promoteWaitlistHead env e now =
     sbind (sread (\<lambda>d. no_rows_ok (q_WaitlistHead (en_id e) d))) (\<lambda>found.
     case found of
       None \<Rightarrow> sreturn False
     | Some head \<Rightarrow>
         sbind (swrite (q_PromoteReservation (pl_id head) now)) (\<lambda>_.
         sbind (notify_place (en_id e) (pl_donor head) ''EVENT_PROMOTED''
           (''event-promoted:'' @ en_id e @ '':'' @ pl_donor head @ '':'' @ ee_Format env (pl_reserved head)) (en_starts e) now) (\<lambda>_.
         sreturn True)))"

definition waiting :: "string \<Rightarrow> db \<Rightarrow> place_row list" where
  "waiting event d = filter (\<lambda>r. pl_event r = event \<and> pl_status r = ''WAITLISTED'') (places d)"

definition seated :: "string \<Rightarrow> db \<Rightarrow> place_row list" where
  "seated event d = filter (\<lambda>r. pl_event r = event \<and> pl_status r = ''RESERVED'') (places d)"

definition full :: "donor_event_row \<Rightarrow> db \<Rightarrow> bool" where
  "full e d \<longleftrightarrow> en_capacity e > 0 \<and> int (length (seated (en_id e) d)) \<ge> en_capacity e"

lemma filter_update_rows_drop:
  assumes "\<And>r. \<not> P (f r)"
  shows "filter P (update_rows Q f rows) = filter (\<lambda>r. \<not> Q r) (filter P rows)"
  using assms by (induction rows) (auto simp: update_rows_def)

lemma put_push_community: "put_push r d = Inr d' \<Longrightarrow> db_community d' = db_community d"
  by (auto simp: put_push_def rbind_eq_Inr Let_def)

lemma put_message_community: "put_message r d = Inr d' \<Longrightarrow> db_community d' = db_community d"
  by (auto simp: put_message_def rbind_eq_Inr Let_def)

lemma notify_place_community:
  "notify_place event donor category key expires now s = (Inr x, t) \<Longrightarrow> db_community (st_db t) = db_community (st_db s)"
  by (auto simp: notify_place_def sbind_Inr q_QueueEventPush_def q_InsertFinancialMessage_def Let_def
      dest!: put_push_community put_message_community)

lemma promote_run:
  assumes "promoteWaitlistHead env e now s = (Inr True, t)"
  obtains head where "q_WaitlistHead (en_id e) (st_db s) = Inr head"
    and "db_community (st_db t) = (db_community (st_db s))\<lparr>cm_places := update_rows (\<lambda>r. pl_id r = pl_id head)
      (\<lambda>r. r\<lparr>pl_status := ''RESERVED'', pl_updated := now\<rparr>) (places (st_db s))\<rparr>"
  using assms unfolding promoteWaitlistHead_def
  by (auto simp: sbind_Inr no_rows_ok_cases q_PromoteReservation_def with_places_def split: option.splits
      dest!: notify_place_community)

lemma promote_waiting_less:
  assumes "promoteWaitlistHead env e now s = (Inr True, t)"
  shows "length (waiting (en_id e) (st_db t)) < length (waiting (en_id e) (st_db s))"
proof -
  obtain head where head: "q_WaitlistHead (en_id e) (st_db s) = Inr head"
    and t: "db_community (st_db t) = (db_community (st_db s))\<lparr>cm_places := update_rows (\<lambda>r. pl_id r = pl_id head)
      (\<lambda>r. r\<lparr>pl_status := ''RESERVED'', pl_updated := now\<rparr>) (places (st_db s))\<rparr>"
    using assms by (rule promote_run)
  have "head \<in> set (waiting (en_id e) (st_db s))"
    using first_by_in[OF head[unfolded q_WaitlistHead_def]] by (auto simp: waiting_def)
  moreover have "waiting (en_id e) (st_db t) = filter (\<lambda>r. pl_id r \<noteq> pl_id head) (waiting (en_id e) (st_db s))"
    by (simp add: waiting_def t filter_update_rows_drop)
  ultimately show ?thesis by (simp add: length_filter_less)
qed

text \<open>
  \<open>fillSeats\<close>: the loop ends because every promotion takes a donor off the waiting list.
\<close>

function fillSeats :: "event_env \<Rightarrow> donor_event_row \<Rightarrow> time \<Rightarrow> ('g, unit) tx" where
  "fillSeats env e now s =
     (if full e (st_db s) then (Inr (), s)
      else case promoteWaitlistHead env e now s of
        (Inl err, t) \<Rightarrow> (Inl err, t)
      | (Inr promoted, t) \<Rightarrow> if promoted then fillSeats env e now t else (Inr (), t))"
  by pat_completeness auto
termination
  by (relation "measure (\<lambda>(env, e, now, s). length (waiting (en_id e) (st_db s)))") (auto dest!: promote_waiting_less[OF sym])

declare fillSeats.simps [simp del]

section \<open>Reserving and cancelling\<close>

definition seat_status :: "donor_event_row \<Rightarrow> ('g, string) tx" where
  "seat_status e =
     (if en_capacity e > 0
      then sbind (sread (q_ReservedCount (en_id e))) (\<lambda>reserved.
        sreturn (if reserved \<ge> en_capacity e then ''WAITLISTED'' else ''RESERVED''))
      else sreturn ''RESERVED'')"

definition find_event :: "string \<Rightarrow> store_error \<Rightarrow> ('g, donor_event_row) tx" where
  "find_event event missing =
     sbind (sread (\<lambda>d. no_rows_ok (q_LockEvent event d))) (\<lambda>found.
     case found of None \<Rightarrow> sfail missing | Some e \<Rightarrow> sreturn e)"

definition book_place :: "string \<Rightarrow> donor_event_row \<Rightarrow> time \<Rightarrow> ('g, string) tx" where
  "book_place donor e now =
     sbind (seat_status e) (\<lambda>status.
     sbind NewID (\<lambda>ident.
     sbind (swrite (q_UpsertReservation \<lparr>pl_id = ident, pl_event = en_id e, pl_donor = donor, pl_status = status, pl_reserved = now,
       pl_created = now, pl_updated = now, pl_checked = None\<rparr>)) (\<lambda>_.
     sreturn status)))"

definition may_reserve :: "string \<Rightarrow> donor_event_row \<Rightarrow> time \<Rightarrow> ('g, unit) tx" where
  "may_reserve donor e now =
     sbind (sguard (en_state e = ''PUBLISHED'') ErrEventNotFound) (\<lambda>_.
     sbind (sguard (en_cancelled e = None) ErrEventCancelled) (\<lambda>_.
     sbind (sguard (now < en_starts e) ErrReservationClosed) (\<lambda>_.
     sbind (if en_type e = ''INVITE_ONLY''
            then sbind (canSeeInviteOnly donor e) (\<lambda>(ok, _). sguard ok ErrEventNotFound) else sreturn ()) (\<lambda>_.
     sbind (bookingOpen donor e now) (\<lambda>(open', _).
     sguard open' ErrBookingNotOpen)))))"

definition Reserve :: "('g, donor_row) tx \<Rightarrow> string \<Rightarrow> time \<Rightarrow> ('g, string) tx" where
  "Reserve owner event now = donorWrite owner (\<lambda>d _.
     sbind (find_event event ErrEventNotFound) (\<lambda>e.
     sbind (may_reserve (don_id d) e now) (\<lambda>_.
     sbind (sread (\<lambda>x. no_rows_ok (q_ReservationFor event (don_id d) x))) (\<lambda>existing.
     if (case existing of None \<Rightarrow> False | Some r \<Rightarrow> pl_status r \<noteq> ''CANCELLED'') then sreturn (pl_status (the existing))
     else book_place (don_id d) e now)))) now"

text \<open>Releasing a place, and filling the seat it frees.\<close>

definition release_place :: "event_env \<Rightarrow> string \<Rightarrow> donor_event_row \<Rightarrow> string \<Rightarrow> time \<Rightarrow> ('g, unit) tx" where
  "release_place env donor e status now =
     sbind (swrite (q_SetReservationStatus (en_id e) donor ''CANCELLED'' now)) (\<lambda>_.
     if status = ''RESERVED'' then fillSeats env e now else sreturn ())"

definition Reservation_Cancel :: "event_env \<Rightarrow> ('g, donor_row) tx \<Rightarrow> string \<Rightarrow> time \<Rightarrow> ('g, string) tx" where
  "Reservation_Cancel env owner event now = donorWrite owner (\<lambda>d _.
     sbind (find_event event ErrEventNotFound) (\<lambda>e.
     sbind (sguard (now < en_starts e) ErrReservationClosed) (\<lambda>_.
     sbind (sread (\<lambda>x. no_rows_ok (q_ReservationFor event (don_id d) x))) (\<lambda>existing.
     case existing of
       None \<Rightarrow> sfail ErrEventNotFound
     | Some r \<Rightarrow>
         if pl_status r = ''CANCELLED'' then sreturn ''CANCELLED''
         else sbind (release_place env (don_id d) e (pl_status r) now) (\<lambda>_. sreturn ''CANCELLED''))))) now"

definition releaseEventPlaces :: "event_env \<Rightarrow> string \<Rightarrow> time \<Rightarrow> ('g, unit) tx" where
  "releaseEventPlaces env donor now =
     sbind (sread (q_DonorUpcomingReservations donor now)) (\<lambda>held.
     sfor held (\<lambda>(event, status).
       sbind (sread (q_LockEvent event)) (\<lambda>e. release_place env donor e status now)))"

section \<open>Check-in\<close>

definition checkInToken :: "event_env \<Rightarrow> string \<Rightarrow> string \<Rightarrow> string" where
  "checkInToken env event secret =
     (let raw = ee_Bytes env event in ee_encode env raw @ ''.'' @ ee_encode env (ee_hmac env secret raw))"

definition checkInTokenLength :: nat where "checkInTokenLength = 22 + 1 + 43"

definition parseCheckInToken :: "event_env \<Rightarrow> string \<Rightarrow> string \<Rightarrow> string option" where
  "parseCheckInToken env token secret =
     (let idPart = takeWhile (\<lambda>c. c \<noteq> CHR ''.'') token; rest = dropWhile (\<lambda>c. c \<noteq> CHR ''.'') token
      in if length token \<noteq> checkInTokenLength \<or> rest = [] then None
         else case (ee_decode env idPart, ee_decode env (tl rest)) of
           (Some raw, Some sig) \<Rightarrow>
             if length raw = 16 \<and> sig = ee_hmac env secret raw then Some (ee_UUID env raw) else None
         | _ \<Rightarrow> None)"

record CheckInResult =
  cr_EventID :: string
  cr_CheckedIn :: bool
  cr_AlreadyIn :: bool

definition CheckIn ::
  "event_env \<Rightarrow> runtime \<Rightarrow> string \<Rightarrow> ('g, donor_row) tx \<Rightarrow> string \<Rightarrow> time \<Rightarrow> ('g, CheckInResult) tx" where
  "CheckIn env rt secret owner token now =
     (if secret = [] then sfail ErrCheckInDisabled
      else case parseCheckInToken env token secret of
        None \<Rightarrow> sfail ErrCheckIn
      | Some event \<Rightarrow> donorWrite owner (\<lambda>d _.
          sbind (find_event event ErrCheckIn) (\<lambda>e.
          sbind (sguard (en_state e = ''PUBLISHED'' \<and> en_cancelled e = None \<and> \<not> now < en_starts e \<and> \<not> now > en_ends e) ErrCheckIn) (\<lambda>_.
          sbind (sread (\<lambda>x. no_rows_ok (q_ReservationFor event (don_id d) x))) (\<lambda>existing.
          case existing of
            None \<Rightarrow> sfail ErrCheckIn
          | Some r \<Rightarrow>
              if pl_status r \<noteq> ''RESERVED'' then sfail ErrCheckIn
              else if pl_checked r \<noteq> None then sreturn \<lparr>cr_EventID = event, cr_CheckedIn = True, cr_AlreadyIn = True\<rparr>
              else sbind (swrite (q_CheckInReservation event (don_id d) now)) (\<lambda>_.
                   sbind (awardBadges rt d now) (\<lambda>_.
                   sreturn \<lparr>cr_EventID = event, cr_CheckedIn = True, cr_AlreadyIn = False\<rparr>)))))) now)"

section \<open>Staff\<close>

definition eventPermission :: string where "eventPermission = ''event.manage''"

definition Event_Create :: "event_env \<Rightarrow> caller \<Rightarrow> EventInput \<Rightarrow> time \<Rightarrow> ('g, string) tx" where
  "Event_Create env c i = staffWrite c eventPermission (\<lambda>actor now.
     sbind (slift (validate env i now)) (\<lambda>params.
     sbind NewID (\<lambda>ident.
     sbind (swrite (q_InsertEvent (params\<lparr>en_id := ident\<rparr>))) (\<lambda>_.
     sbind (audited (sf_id actor) ''event.created'' ident (JObj [(''slug'', JStr (ei_Slug i))]) now) (\<lambda>_.
     sreturn ident)))))"

definition Event_Update :: "event_env \<Rightarrow> caller \<Rightarrow> string \<Rightarrow> EventInput \<Rightarrow> time \<Rightarrow> ('g, unit) tx" where
  "Event_Update env c ident i = staffWrite c eventPermission (\<lambda>actor now.
     sbind (slift (validate env i now)) (\<lambda>params.
     sbind (sread (q_LockEvent ident)) (\<lambda>e.
     sbind (sguard (en_cancelled e = None) ErrEventCancelled) (\<lambda>_.
     sbind (swrite (q_UpdateEvent ident params now)) (\<lambda>_.
     let e = e\<lparr>en_capacity := en_capacity params, en_starts := en_starts params\<rparr>
     in sbind (if now < en_starts e then fillSeats env e now else sreturn ()) (\<lambda>_.
        audited (sf_id actor) ''event.updated'' ident (JObj []) now))))))"

definition Event_Publish :: "caller \<Rightarrow> string \<Rightarrow> time \<Rightarrow> ('g, unit) tx" where
  "Event_Publish c ident now = staffWrite c eventPermission (\<lambda>actor _.
     sbind (sread (q_LockEvent ident)) (\<lambda>e.
     sbind (sguard (en_cancelled e = None) ErrEventCancelled) (\<lambda>_.
     sbind (swrite (q_PublishEvent ident now)) (\<lambda>_.
     sbind (supdate (q_QueueEventAlertJob ident now)) (\<lambda>queued.
     audited (sf_id actor) ''event.published'' ident (JObj [(''alert_jobs'', JNum (FormatInt queued))]) now))))) now"

definition AddGuest :: "caller \<Rightarrow> string \<Rightarrow> string \<Rightarrow> time \<Rightarrow> ('g, unit) tx" where
  "AddGuest c event donor = staffWrite c eventPermission (\<lambda>actor now.
     sbind (sread (q_EventByID event)) (\<lambda>_.
     sbind NewID (\<lambda>ident.
     sbind (swrite (q_AddEventGuest \<lparr>gu_id = ident, gu_event = event, gu_donor = donor, gu_created = now\<rparr>)) (\<lambda>_.
     audited (sf_id actor) ''event.guest_added'' event (JObj [(''donor_id'', JStr donor)]) now))))"

definition RemoveGuest :: "caller \<Rightarrow> string \<Rightarrow> string \<Rightarrow> time \<Rightarrow> ('g, unit) tx" where
  "RemoveGuest c event donor = staffWrite c eventPermission (\<lambda>actor now.
     sbind (swrite (q_RemoveEventGuest event donor)) (\<lambda>_.
     audited (sf_id actor) ''event.guest_removed'' event (JObj [(''donor_id'', JStr donor)]) now))"

definition CheckInToken :: "event_env \<Rightarrow> string \<Rightarrow> caller \<Rightarrow> string \<Rightarrow> time \<Rightarrow> ('g, string) tx" where
  "CheckInToken env secret c event now =
     (if secret = [] then sfail ErrCheckInDisabled
      else staffWrite c eventPermission (\<lambda>_ _. sbind (sread (q_EventByID event)) (\<lambda>_. sreturn (checkInToken env event secret))) now)"

definition CheckInAttendee :: "runtime \<Rightarrow> caller \<Rightarrow> string \<Rightarrow> string \<Rightarrow> time \<Rightarrow> ('g, unit) tx" where
  "CheckInAttendee rt c event donor now = staffWrite c eventPermission (\<lambda>actor _.
     sbind (sread (q_LockDonor donor)) (\<lambda>row.
     sbind (sread (q_LockEvent event)) (\<lambda>e.
     sbind (sguard (en_cancelled e = None) ErrEventCancelled) (\<lambda>_.
     sbind (sguard (en_state e = ''PUBLISHED'' \<and> \<not> now < en_starts e - Hour \<and> \<not> now > en_ends e) ErrCheckIn) (\<lambda>_.
     sbind (sread (q_ReservationFor event donor)) (\<lambda>r.
     sbind (sguard (pl_status r = ''RESERVED'') ErrCheckIn) (\<lambda>_.
     if pl_checked r \<noteq> None then sreturn ()
     else sbind (swrite (q_CheckInReservation event donor now)) (\<lambda>_.
          sbind (audited (sf_id actor) ''event.checked_in'' event (JObj [(''donor_id'', JStr donor)]) now) (\<lambda>_.
          awardBadges rt row now))))))))) now"

definition Event_Cancel :: "caller \<Rightarrow> string \<Rightarrow> time \<Rightarrow> ('g, unit) tx" where
  "Event_Cancel c event = staffWrite c eventPermission (\<lambda>actor now.
     sbind (sread (q_LockEvent event)) (\<lambda>e.
     if en_cancelled e \<noteq> None then sreturn ()
     else sbind (sguard (\<not> now > en_ends e) ErrReservationClosed) (\<lambda>_.
          sbind (swrite (q_CancelEvent event now)) (\<lambda>_.
          sbind (supdate (q_ReleaseEventReservations event now)) (\<lambda>holders.
          sbind (sfor holders (\<lambda>donor. notify_place event donor ''EVENT_CANCELLED''
            (''event-cancelled:'' @ event @ '':'' @ donor) (en_ends e) now)) (\<lambda>_.
          audited (sf_id actor) ''event.cancelled'' event (JObj [(''notified'', JNum (FormatInt (int (length holders))))]) now))))))"

section \<open>Reminders and alerts\<close>

definition reminderWindows :: "(string \<times> duration) list" where
  "reminderWindows = [(''24h'', 24 * Hour), (''2h'', 2 * Hour)]"

fun queue_windows :: "(string \<times> duration) list \<Rightarrow> time \<Rightarrow> int \<Rightarrow> ('g, int) tx" where
  "queue_windows [] now queued = sreturn queued"
| "queue_windows ((label, lead) # ws) now queued =
     sbind (supdate (q_QueueEventReminders label now (now + lead))) (\<lambda>n. queue_windows ws now (queued + n))"

definition QueueDueReminders :: "time \<Rightarrow> ('g, int) tx" where
  "QueueDueReminders now = queue_windows reminderWindows now 0"

definition EventAlertBatch :: nat where "EventAlertBatch = 256"

definition QueueNext :: "(string \<Rightarrow> string) \<Rightarrow> string list \<Rightarrow> time \<Rightarrow> ('g, bool) tx" where
  "QueueNext sqlLower locked now = BeginFunc (
     sbind (sread (\<lambda>d. no_rows_ok (q_NextEventAlertJob locked d))) (\<lambda>found.
     case found of
       None \<Rightarrow> sreturn False
     | Some job \<Rightarrow>
         sbind (supdate (q_QueueEventAlertBatch sqlLower (al_event job) (al_last job) now EventAlertBatch)) (\<lambda>(final, considered).
         sbind (swrite (q_SaveEventAlertProgress (al_event job) final (if considered < EventAlertBatch then Some now else None) now)) (\<lambda>_.
         sreturn True))))"

end
