(* ===== verification/Event_Seats.thy ===== *)
theory Event_Seats
  imports Events "HOL-Library.Multiset"
begin

text \<open>
  What the operations of events promise: places stay unique, an event is never booked beyond
  its capacity, seats go to those who have waited longest, and nobody waits for an upcoming
  event that has a seat to give.
\<close>

section \<open>Places\<close>

definition place_key :: "place_row \<Rightarrow> string \<times> string \<times> string" where
  "place_key r = (pl_id r, pl_event r, pl_donor r)"

abbreviation queue_key :: "place_row \<Rightarrow> time \<times> string" where
  "queue_key r \<equiv> (pl_reserved r, pl_id r)"

definition places_ok :: "db \<Rightarrow> bool" where
  "places_ok d \<longleftrightarrow> distinct (map en_id (events d)) \<and> distinct (map pl_id (places d)) \<and>
     distinct (map (\<lambda>r. (pl_event r, pl_donor r)) (places d)) \<and> (\<forall>r\<in>set (places d). pl_event r \<in> en_id ` set (events d))"

lemma places_ok_keys:
  "places_ok d \<longleftrightarrow> distinct (map en_id (events d)) \<and> distinct (map fst (map place_key (places d))) \<and>
     distinct (map snd (map place_key (places d))) \<and> fst ` snd ` set (map place_key (places d)) \<subseteq> set (map en_id (events d))"
  by (simp add: places_ok_def place_key_def comp_def image_image image_subset_iff)

text \<open>Changing anything but the keys keeps the places well formed.\<close>

lemma places_ok_same:
  assumes "map place_key (places d') = map place_key (places d)" and "map en_id (events d') = map en_id (events d)"
  shows "places_ok d' = places_ok d"
  unfolding places_ok_keys assms ..

lemma length_filter_update_one:
  assumes "distinct (map k rows)" and "x \<in> set rows" and "\<not> P x" and "P (f x)"
  shows "length (filter P (update_rows (\<lambda>r. k r = k x) f rows)) = Suc (length (filter P rows))"
  using assms
proof (induction rows)
  case (Cons r rows)
  show ?case
  proof (cases "x = r")
    case True
    have "update_rows (\<lambda>r. k r = k x) f rows = rows"
      using Cons.prems(1) True by (auto simp: update_rows_def image_iff intro!: map_idI)
    then show ?thesis using Cons.prems(3,4) True by (simp add: update_rows_def)
  next
    case False
    then have "x \<in> set rows" using Cons.prems(2) by simp
    then have "k r \<noteq> k x" using Cons.prems(1) by force
    then show ?thesis using Cons False \<open>x \<in> set rows\<close> by (simp add: update_rows_def)
  qed
qed simp

text \<open>One promotion.\<close>

lemma promote_effect:
  assumes "promoteWaitlistHead env e now s = (Inr True, t)" and "places_ok (st_db s)"
  obtains head where "head \<in> set (waiting (en_id e) (st_db s))"
    and "\<forall>r\<in>set (waiting (en_id e) (st_db s)). queue_key head \<le> queue_key r"
    and "waiting (en_id e) (st_db t) = filter (\<lambda>r. pl_id r \<noteq> pl_id head) (waiting (en_id e) (st_db s))"
    and "length (seated (en_id e) (st_db t)) = Suc (length (seated (en_id e) (st_db s)))"
    and "\<forall>e'. e' \<noteq> en_id e \<longrightarrow> waiting e' (st_db t) = waiting e' (st_db s) \<and> seated e' (st_db t) = seated e' (st_db s)"
    and "events (st_db t) = events (st_db s)" and "places_ok (st_db t)"
proof -
  obtain head where head: "q_WaitlistHead (en_id e) (st_db s) = Inr head"
    and t: "db_community (st_db t) = (db_community (st_db s))\<lparr>cm_places := update_rows (\<lambda>r. pl_id r = pl_id head)
      (\<lambda>r. r\<lparr>pl_status := ''RESERVED'', pl_updated := now\<rparr>) (places (st_db s))\<rparr>"
    using assms(1) by (rule promote_run)
  note in_places = first_by_in[OF head[unfolded q_WaitlistHead_def]]
  have ids: "distinct (map pl_id (places (st_db s)))" using assms(2) by (simp add: places_ok_def)
  have only: "r = head" if "r \<in> set (places (st_db s))" "pl_id r = pl_id head" for r
    using ids that in_places by (auto simp: distinct_map inj_on_def)
  show thesis
  proof (rule that[of head])
    show "head \<in> set (waiting (en_id e) (st_db s))" using in_places by (simp add: waiting_def)
    show "\<forall>r\<in>set (waiting (en_id e) (st_db s)). queue_key head \<le> queue_key r"
      using first_by_least[OF head[unfolded q_WaitlistHead_def]] by (simp add: waiting_def)
    show "waiting (en_id e) (st_db t) = filter (\<lambda>r. pl_id r \<noteq> pl_id head) (waiting (en_id e) (st_db s))"
      by (simp add: waiting_def t filter_update_rows_drop)
    show "length (seated (en_id e) (st_db t)) = Suc (length (seated (en_id e) (st_db s)))"
      unfolding seated_def t using in_places by (simp add: length_filter_update_one[OF ids])
    show "events (st_db t) = events (st_db s)" by (simp add: t)
    show "places_ok (st_db t)"
      using assms(2) by (subst places_ok_same[of "st_db t" "st_db s"]) (simp_all add: t place_key_def)
    show "\<forall>e'. e' \<noteq> en_id e \<longrightarrow> waiting e' (st_db t) = waiting e' (st_db s) \<and> seated e' (st_db t) = seated e' (st_db s)"
    proof (intro allI impI)
      fix e' assume other: "e' \<noteq> en_id e"
      have "filter (\<lambda>r. pl_event r = e' \<and> Q (pl_status r)) (update_rows (\<lambda>r. pl_id r = pl_id head)
          (\<lambda>r. r\<lparr>pl_status := ''RESERVED'', pl_updated := now\<rparr>) rows) = filter (\<lambda>r. pl_event r = e' \<and> Q (pl_status r)) rows"
        if "\<And>r. r \<in> set rows \<Longrightarrow> pl_id r = pl_id head \<Longrightarrow> pl_event r \<noteq> e'" for Q rows
        using that by (induction rows) (auto simp: update_rows_def)
      then show "waiting e' (st_db t) = waiting e' (st_db s) \<and> seated e' (st_db t) = seated e' (st_db s)"
        unfolding waiting_def seated_def t using only in_places other by fastforce
    qed
  qed
qed

section \<open>Filling seats\<close>

text \<open>
  How filling the seats of one event changes the places: those taken off the waiting list have
  a seat now and had waited longest, a limited event is filled up to its capacity at most, and
  the places at other events stay.
\<close>

definition filled :: "donor_event_row \<Rightarrow> db \<Rightarrow> db \<Rightarrow> bool" where
  "filled e d d' \<longleftrightarrow> events d' = events d \<and> places_ok d' \<and>
     set (waiting (en_id e) d') \<subseteq> set (waiting (en_id e) d) \<and>
     length (seated (en_id e) d') + length (waiting (en_id e) d') = length (seated (en_id e) d) + length (waiting (en_id e) d) \<and>
     (en_capacity e > 0 \<longrightarrow> int (length (seated (en_id e) d')) \<le> max (int (length (seated (en_id e) d))) (en_capacity e)) \<and>
     (\<forall>p\<in>set (waiting (en_id e) d) - set (waiting (en_id e) d'). \<forall>r\<in>set (waiting (en_id e) d'). queue_key p \<le> queue_key r) \<and>
     (\<forall>e'. e' \<noteq> en_id e \<longrightarrow> waiting e' d' = waiting e' d \<and> seated e' d' = seated e' d)"

lemma filled_refl: "places_ok d \<Longrightarrow> filled e d d"
  by (simp add: filled_def)

lemma filled_promoted:
  assumes "promoteWaitlistHead env e now s = (Inr True, t)" and "places_ok (st_db s)" and "\<not> full e (st_db s)"
    and "filled e (st_db t) d"
  shows "filled e (st_db s) d"
proof -
  obtain head where head: "head \<in> set (waiting (en_id e) (st_db s))"
    and least: "\<forall>r\<in>set (waiting (en_id e) (st_db s)). queue_key head \<le> queue_key r"
    and t: "waiting (en_id e) (st_db t) = filter (\<lambda>r. pl_id r \<noteq> pl_id head) (waiting (en_id e) (st_db s))"
      "length (seated (en_id e) (st_db t)) = Suc (length (seated (en_id e) (st_db s)))"
      "\<forall>e'. e' \<noteq> en_id e \<longrightarrow> waiting e' (st_db t) = waiting e' (st_db s) \<and> seated e' (st_db t) = seated e' (st_db s)"
      "events (st_db t) = events (st_db s)" "places_ok (st_db t)"
    using assms(1,2) by (rule promote_effect)
  have ids: "distinct (map pl_id (waiting (en_id e) (st_db s)))"
    using assms(2) by (simp add: places_ok_def waiting_def distinct_map_filter)
  have removed: "set (waiting (en_id e) (st_db t)) = set (waiting (en_id e) (st_db s)) - {head}"
    using ids head by (auto simp: t(1) distinct_map inj_on_def)
  have "Suc (length (waiting (en_id e) (st_db t))) = length (waiting (en_id e) (st_db s))"
  proof -
    have "distinct (waiting (en_id e) (st_db s))" using ids by (simp add: distinct_map)
    moreover from this have "distinct (waiting (en_id e) (st_db t))" by (simp add: t(1))
    ultimately show ?thesis using removed head
      by (metis card.remove distinct_card finite_set)
  qed
  moreover have "en_capacity e > 0 \<Longrightarrow> int (length (seated (en_id e) (st_db t))) \<le> en_capacity e"
    using assms(3) t(2) by (simp add: full_def)
  moreover have "\<forall>p\<in>set (waiting (en_id e) (st_db s)) - set (waiting (en_id e) d). \<forall>r\<in>set (waiting (en_id e) d). queue_key p \<le> queue_key r"
  proof (intro ballI)
    fix p r assume p: "p \<in> set (waiting (en_id e) (st_db s)) - set (waiting (en_id e) d)" and r: "r \<in> set (waiting (en_id e) d)"
    then have "r \<in> set (waiting (en_id e) (st_db s))" using assms(4) removed unfolding filled_def by blast
    then show "queue_key p \<le> queue_key r"
      using p r assms(4) removed least unfolding filled_def by (cases "p = head") blast+
  qed
  ultimately show ?thesis using assms(4) t(2,3,4) removed unfolding filled_def by auto
qed

lemma fillSeats_filled:
  assumes "fillSeats env e now s = (Inr u, t)" and "places_ok (st_db s)"
  shows "filled e (st_db s) (st_db t) \<and> (waiting (en_id e) (st_db t) = [] \<or> full e (st_db t))"
  using assms
proof (induction env e now s rule: fillSeats.induct)
  case (1 env e now s)
  obtain r w where run: "promoteWaitlistHead env e now s = (r, w)" by (cases "promoteWaitlistHead env e now s")
  consider "full e (st_db s)" | "\<not> full e (st_db s)" "r = Inr True" | "\<not> full e (st_db s)" "r \<noteq> Inr True" by blast
  then show ?case
  proof cases
    case 1
    then show ?thesis using \<open>fillSeats env e now s = _\<close> \<open>places_ok (st_db s)\<close> by (simp add: fillSeats.simps filled_refl)
  next
    case 2
    then have "fillSeats env e now w = (Inr u, t)"
      using \<open>fillSeats env e now s = _\<close> run by (simp add: fillSeats.simps[of env e now s])
    moreover have "places_ok (st_db w)" using run[unfolded 2(2)] \<open>places_ok (st_db s)\<close> by (rule promote_effect)
    ultimately have "filled e (st_db w) (st_db t) \<and> (waiting (en_id e) (st_db t) = [] \<or> full e (st_db t))"
      using "1.IH"[OF 2(1) run[symmetric] 2(2)] by simp
    then show ?thesis using filled_promoted[OF run[unfolded 2(2)] \<open>places_ok (st_db s)\<close> 2(1)] by blast
  next
    case 3
    then have "r = Inr False \<and> t = w"
      using \<open>fillSeats env e now s = _\<close> run by (auto simp: fillSeats.simps[of env e now s] split: sum.splits if_splits)
    then have "t = s \<and> waiting (en_id e) (st_db s) = []" using run
      by (auto simp: promoteWaitlistHead_def sbind_Inr no_rows_ok_cases q_WaitlistHead_def first_by_None waiting_def split: option.splits)
    then show ?thesis using \<open>places_ok (st_db s)\<close> by (simp add: filled_refl)
  qed
qed

section \<open>Steps\<close>

definition no_idle :: "time \<Rightarrow> db \<Rightarrow> bool" where
  "no_idle now d \<longleftrightarrow> (\<forall>e\<in>set (events d). now < en_starts e \<longrightarrow> waiting (en_id e) d = [] \<or> full e d)"

text \<open>What every step must keep, from a state with well-formed places.\<close>

definition booking_ok :: "time \<Rightarrow> db \<Rightarrow> db \<Rightarrow> bool" where
  "booking_ok now d d' \<longleftrightarrow> places_ok d' \<and> (no_idle now d \<longrightarrow> no_idle now d') \<and>
     (\<forall>e\<in>set (events d'). en_capacity e > 0 \<longrightarrow>
        int (length (seated (en_id e) d')) \<le> max (int (length (seated (en_id e) d))) (en_capacity e))"

definition quiet_event :: "string \<Rightarrow> db \<Rightarrow> db \<Rightarrow> bool" where
  "quiet_event event d d' \<longleftrightarrow> length (seated event d') = length (seated event d) \<and> length (waiting event d') = length (waiting event d)"

lemma booking_okI:
  assumes "places_ok d'"
    and "\<And>e. e \<in> set (events d') \<Longrightarrow>
      (\<exists>x\<in>set (events d). en_id x = en_id e \<and> en_capacity x = en_capacity e \<and> en_starts x = en_starts e \<and> quiet_event (en_id e) d d') \<or>
      ((no_idle now d \<longrightarrow> now < en_starts e \<longrightarrow> waiting (en_id e) d' = [] \<or> full e d') \<and>
       (en_capacity e > 0 \<longrightarrow> int (length (seated (en_id e) d')) \<le> max (int (length (seated (en_id e) d))) (en_capacity e)))"
  shows "booking_ok now d d'"
  unfolding booking_ok_def
proof (intro conjI ballI impI assms(1))
  fix e assume e: "e \<in> set (events d')" and cap: "en_capacity e > 0"
  from assms(2)[OF e] show "int (length (seated (en_id e) d')) \<le> max (int (length (seated (en_id e) d))) (en_capacity e)"
    using cap by (auto simp: quiet_event_def)
next
  assume idle: "no_idle now d"
  show "no_idle now d'" unfolding no_idle_def
  proof (intro ballI impI)
    fix e assume e: "e \<in> set (events d')" and "now < en_starts e"
    from assms(2)[OF e] show "waiting (en_id e) d' = [] \<or> full e d'"
    proof
      assume "\<exists>x\<in>set (events d). en_id x = en_id e \<and> en_capacity x = en_capacity e \<and> en_starts x = en_starts e \<and> quiet_event (en_id e) d d'"
      then obtain x where x: "x \<in> set (events d)" "en_id x = en_id e" "en_capacity x = en_capacity e" "en_starts x = en_starts e"
        "quiet_event (en_id e) d d'" by blast
      with idle \<open>now < en_starts e\<close> have "waiting (en_id e) d = [] \<or> full x d" by (auto simp: no_idle_def)
      then show ?thesis using x by (auto simp: quiet_event_def full_def)
    qed (use idle \<open>now < en_starts e\<close> in blast)
  qed
qed

text \<open>A step that keeps the status of every place and the capacity and start of every event.\<close>

abbreviation place_state :: "place_row \<Rightarrow> (string \<times> string \<times> string) \<times> string" where
  "place_state r \<equiv> (place_key r, pl_status r)"

abbreviation event_state :: "donor_event_row \<Rightarrow> string \<times> int \<times> time" where
  "event_state e \<equiv> (en_id e, en_capacity e, en_starts e)"

lemma length_by_state:
  "length (seated event d) = length (filter (\<lambda>(k, st). fst (snd k) = event \<and> st = ''RESERVED'') (map place_state (places d)))"
  "length (waiting event d) = length (filter (\<lambda>(k, st). fst (snd k) = event \<and> st = ''WAITLISTED'') (map place_state (places d)))"
  by (simp_all add: seated_def waiting_def filter_map comp_def place_key_def)

lemma booking_ok_same:
  assumes "map place_state (places d') = map place_state (places d)" and "map event_state (events d') = map event_state (events d)"
    and "places_ok d"
  shows "booking_ok now d d'"
proof (rule booking_okI)
  have "map fst (map place_state (places d')) = map fst (map place_state (places d))" by (simp only: assms(1))
  moreover have "map fst (map event_state (events d')) = map fst (map event_state (events d))" by (simp only: assms(2))
  ultimately show "places_ok d'" using assms(3) by (subst places_ok_same[of d' d]) (simp_all add: comp_def)
  have quiet: "quiet_event event d d'" for event unfolding quiet_event_def length_by_state assms(1) by simp
  fix e assume "e \<in> set (events d')"
  then have "event_state e \<in> set (map event_state (events d'))" by simp
  then obtain x where "x \<in> set (events d)" "event_state x = event_state e" unfolding assms(2) by auto
  with quiet show "(\<exists>x\<in>set (events d). en_id x = en_id e \<and> en_capacity x = en_capacity e \<and> en_starts x = en_starts e \<and> quiet_event (en_id e) d d') \<or>
      ((no_idle now d \<longrightarrow> now < en_starts e \<longrightarrow> waiting (en_id e) d' = [] \<or> full e d') \<and>
       (en_capacity e > 0 \<longrightarrow> int (length (seated (en_id e) d')) \<le> max (int (length (seated (en_id e) d))) (en_capacity e)))" by auto
qed

lemma booking_ok_community: "db_community d' = db_community d \<Longrightarrow> places_ok d \<Longrightarrow> booking_ok now d d'"
  by (rule booking_ok_same) simp_all

lemma booking_ok_from: "db_community d = db_community d0 \<Longrightarrow> booking_ok now d d' = booking_ok now d0 d'"
  by (simp add: booking_ok_def no_idle_def full_def seated_def waiting_def)

lemma places_ok_from: "db_community d = db_community d0 \<Longrightarrow> places_ok d = places_ok d0"
  by (simp add: places_ok_def)

lemma find_event_id:
  assumes "q_LockEvent event d = Inr e"
  shows "e \<in> set (events d)" and "en_id e = event"
  using one_row_in[OF assms[unfolded q_LockEvent_def]] by simp_all

lemma event_unique: "places_ok d \<Longrightarrow> e \<in> set (events d) \<Longrightarrow> x \<in> set (events d) \<Longrightarrow> en_id x = en_id e \<Longrightarrow> x = e"
  by (auto simp: places_ok_def distinct_map inj_on_def)

subsection \<open>Booking\<close>

lemma Upsert_effect:
  assumes "q_UpsertReservation r d = Inr d'" and "places_ok d"
    and "\<And>x. x \<in> set (places d) \<Longrightarrow> pl_event x = pl_event r \<Longrightarrow> pl_donor x = pl_donor r \<Longrightarrow> pl_status x = ''CANCELLED''"
    and "pl_status r \<in> {''RESERVED'', ''WAITLISTED''}"
  shows "places_ok d' \<and> events d' = events d \<and>
    length (seated (pl_event r) d') = length (seated (pl_event r) d) + (if pl_status r = ''RESERVED'' then 1 else 0) \<and>
    length (waiting (pl_event r) d') = length (waiting (pl_event r) d) + (if pl_status r = ''WAITLISTED'' then 1 else 0) \<and>
    (\<forall>e'. e' \<noteq> pl_event r \<longrightarrow> quiet_event e' d d')"
proof -
  let ?same = "\<lambda>x. pl_event x = pl_event r \<and> pl_donor x = pl_donor r"
  let ?f = "\<lambda>x. x\<lparr>pl_status := pl_status r, pl_reserved := pl_reserved r, pl_updated := pl_updated r\<rparr>"
  show ?thesis
  proof (cases "list_ex ?same (places d)")
    case True
    then obtain x where x: "x \<in> set (places d)" "?same x" by (auto simp: list_ex_iff)
    have d': "d' = with_places (update_rows ?same ?f) d" using assms(1) True by (simp add: q_UpsertReservation_def Let_def)
    have pairs: "distinct (map (\<lambda>r. (pl_event r, pl_donor r)) (places d))" using assms(2) by (simp add: places_ok_def)
    have same: "?same = (\<lambda>y. (pl_event y, pl_donor y) = (pl_event x, pl_donor x))" using x(2) by auto
    have count: "length (filter P (update_rows ?same ?f (places d))) = Suc (length (filter P (places d)))"
      if "P (?f x)" "\<not> P x" for P
      unfolding same by (rule length_filter_update_one[OF pairs x(1)]) (use that in auto)
    have drop: "filter (\<lambda>y. pl_event y = e' \<and> pl_status y = st) (update_rows ?same ?f (places d)) =
        filter (\<lambda>y. pl_event y = e' \<and> pl_status y = st) (places d)"
      if "e' \<noteq> pl_event r \<or> st \<noteq> pl_status r \<and> st \<noteq> ''CANCELLED''" for e' st
      by (rule filter_update_rows_other) (use that assms(3) in auto)
    have "places_ok d'" using assms(2)
      by (subst places_ok_same[of d' d]) (auto simp: d' with_places_def place_key_def)
    moreover have "length (filter (\<lambda>y. pl_event y = pl_event r \<and> pl_status y = st) (update_rows ?same ?f (places d))) =
        length (filter (\<lambda>y. pl_event y = pl_event r \<and> pl_status y = st) (places d)) + (if pl_status r = st then 1 else 0)"
      if "st \<noteq> ''CANCELLED''" for st
      using that count[of "\<lambda>y. pl_event y = pl_event r \<and> pl_status y = st"] drop[of "pl_event r" st] assms(3)[OF x(1)] x(2)
      by (cases "pl_status r = st") auto
    moreover have "filter (\<lambda>y. pl_event y = e' \<and> pl_status y = st) (update_rows ?same ?f (places d)) =
        filter (\<lambda>y. pl_event y = e' \<and> pl_status y = st) (places d)" if "e' \<noteq> pl_event r" for e' st
      using drop that by blast
    ultimately show ?thesis by (simp add: d' with_places_def seated_def waiting_def quiet_event_def)
  next
    case False
    then have d': "d' = with_places (\<lambda>ps. ps @ [r]) d" and fresh: "\<not> list_ex (\<lambda>x. pl_id x = pl_id r) (places d)"
      and ref: "list_ex (\<lambda>e. en_id e = pl_event r) (events d)"
      using assms(1) by (auto simp: q_UpsertReservation_def Let_def split: if_splits)
    have "places_ok d'"
      using assms(2) fresh ref False by (auto simp: d' with_places_def places_ok_def list_ex_iff image_iff) metis
    then show ?thesis using assms(4) by (auto simp: d' with_places_def seated_def waiting_def quiet_event_def)
  qed
qed

lemma book_place_ok:
  assumes "book_place donor e at s = (Inr a, t)" and "places_ok (st_db s)" and "e \<in> set (events (st_db s))"
    and "\<And>x. x \<in> set (places (st_db s)) \<Longrightarrow> pl_event x = en_id e \<Longrightarrow> pl_donor x = donor \<Longrightarrow> pl_status x = ''CANCELLED''"
  shows "booking_ok now (st_db s) (st_db t) \<and> a = (if full e (st_db s) then ''WAITLISTED'' else ''RESERVED'')"
proof -
  let ?d = "st_db s" and ?d' = "st_db t"
  obtain i ids where status: "a = (if full e ?d then ''WAITLISTED'' else ''RESERVED'')"
    and upsert: "q_UpsertReservation \<lparr>pl_id = i, pl_event = en_id e, pl_donor = donor, pl_status = a, pl_reserved = at,
        pl_created = at, pl_updated = at, pl_checked = None\<rparr> (?d\<lparr>db_ids := ids\<rparr>) = Inr ?d'"
    using assms(1) by (auto simp: book_place_def seat_status_def sbind_Inr q_ReservedCount_def full_def seated_def split: if_splits)
  have d0: "db_community (?d\<lparr>db_ids := ids\<rparr>) = db_community ?d" by simp
  have eff: "places_ok ?d' \<and> events ?d' = events ?d \<and>
    length (seated (en_id e) ?d') = length (seated (en_id e) ?d) + (if a = ''RESERVED'' then 1 else 0) \<and>
    length (waiting (en_id e) ?d') = length (waiting (en_id e) ?d) + (if a = ''WAITLISTED'' then 1 else 0) \<and>
    (\<forall>e'. e' \<noteq> en_id e \<longrightarrow> quiet_event e' ?d ?d')"
    using Upsert_effect[OF upsert] assms(2,4) status
    by (simp add: places_ok_from[OF d0] seated_def waiting_def quiet_event_def)
  have "booking_ok now ?d ?d'"
  proof (rule booking_okI)
    show "places_ok ?d'" using eff by blast
    fix x assume x: "x \<in> set (events ?d')"
    show "(\<exists>y\<in>set (events ?d). en_id y = en_id x \<and> en_capacity y = en_capacity x \<and> en_starts y = en_starts x \<and> quiet_event (en_id x) ?d ?d') \<or>
      ((no_idle now ?d \<longrightarrow> now < en_starts x \<longrightarrow> waiting (en_id x) ?d' = [] \<or> full x ?d') \<and>
       (en_capacity x > 0 \<longrightarrow> int (length (seated (en_id x) ?d')) \<le> max (int (length (seated (en_id x) ?d))) (en_capacity x)))"
    proof (cases "en_id x = en_id e")
      case True
      then have "x = e" using event_unique[OF assms(2,3)] x eff by metis
      moreover have "no_idle now ?d \<Longrightarrow> now < en_starts e \<Longrightarrow> waiting (en_id e) ?d = [] \<or> full e ?d"
        using assms(3) by (simp add: no_idle_def)
      ultimately show ?thesis using eff status
        by (cases "full e ?d") (auto simp: full_def)
    next
      case False
      then show ?thesis using eff x by (intro disjI1 bexI[of _ x]) auto
    qed
  qed
  with status show ?thesis by blast
qed

lemma authenticated_same: "authenticate hash at s = (Inr user, t) \<Longrightarrow> t = s"
  using authenticate_run(1) by blast

lemma donorWrite_run:
  assumes "donorWrite (donorOwner c) fn at s = (Inr a, t)"
  obtains x s' where "fn x at s' = (Inr a, t)" and "db_community (st_db s') = db_community (st_db s)"
    and "live_donor (cl_hash c) (cl_held c) x (st_db s)"
proof -
  obtain user s' where lock: "lockSignedIn c s = (Inr user, s')" and run: "fn (si_donor user) at s' = (Inr a, t)"
    using assms by (auto simp: donorWrite_def BeginFunc_cases donorOwner_def sbind_Inr split: sum.splits)
  show thesis
    by (rule that[OF run _ lockSignedIn_run(1)[OF lock]]) (use lockSignedIn_run(2)[OF lock] in auto)
qed

lemma staffWrite_run:
  assumes "staffWrite c permission fn at s = (Inr a, t)" and "permission \<noteq> []"
  obtains f where "fn f at s = (Inr a, t)"
proof -
  obtain f s' where "lockStaff c permission s = (Inr f, s')" "fn f at s' = (Inr a, t)"
    using assms(1) by (auto simp: staffWrite_def BeginFunc_cases sbind_Inr split: sum.splits)
  then show thesis using that lockStaff_run[of c permission s "Inr f" s'] assms(2) by auto
qed

lemma canSeeInviteOnly_same: "canSeeInviteOnly donor e s = (Inr r, t) \<Longrightarrow> t = s"
  by (auto simp: canSeeInviteOnly_def sbind_Inr split: if_splits)

lemma bookingOpen_same: "bookingOpen donor e at s = (Inr r, t) \<Longrightarrow> t = s"
  by (auto simp: bookingOpen_def sbind_Inr Let_def split: if_splits option.splits)

lemma may_reserve_same:
  assumes "may_reserve donor e at s = (Inr u, t)"
  shows "t = s \<and> en_state e = ''PUBLISHED'' \<and> en_cancelled e = None \<and> at < en_starts e"
  using assms unfolding may_reserve_def
  by (auto simp: sbind_Inr dest!: canSeeInviteOnly_same bookingOpen_same split: if_splits prod.splits)

lemma find_event_Inr: "find_event event missing s = (Inr e, t) \<longleftrightarrow> t = s \<and> q_LockEvent event (st_db s) = Inr e"
  by (auto simp: find_event_def sbind_Inr no_rows_ok_cases split: option.splits)

lemma place_unique:
  assumes "places_ok d" and "x \<in> set (places d)" and "y \<in> set (places d)" and "pl_event x = pl_event y" and "pl_donor x = pl_donor y"
  shows "x = y"
  using assms by (auto simp: places_ok_def distinct_map inj_on_def)

lemma ReservationFor_None:
  "q_ReservationFor event donor d = Inl e \<Longrightarrow> x \<in> set (places d) \<Longrightarrow> pl_event x = event \<Longrightarrow> pl_donor x \<noteq> donor"
  by (auto simp: q_ReservationFor_def one_row_def find_None_iff split: option.splits)

lemma Reserve_ok:
  assumes "Reserve (donorOwner c) event at s = (Inr a, t)" and "places_ok (st_db s)"
  shows "booking_ok now (st_db s) (st_db t)"
proof -
  let ?book = "\<lambda>x e existing. if (case existing of None \<Rightarrow> False | Some r \<Rightarrow> pl_status r \<noteq> ''CANCELLED'')
    then sreturn (pl_status (the existing)) else book_place (don_id x) e at"
  obtain x :: donor_row and s' where same: "db_community (st_db s') = db_community (st_db s)"
    and body: "sbind (find_event event ErrEventNotFound) (\<lambda>e. sbind (may_reserve (don_id x) e at) (\<lambda>_.
      sbind (sread (\<lambda>d. no_rows_ok (q_ReservationFor event (don_id x) d))) (?book x e))) s' = (Inr a, t)"
    using assms(1) unfolding Reserve_def by (rule donorWrite_run)
  from body obtain e s1 where found: "find_event event ErrEventNotFound s' = (Inr e, s1)"
    and rest: "sbind (may_reserve (don_id x) e at) (\<lambda>_. sbind (sread (\<lambda>d. no_rows_ok (q_ReservationFor event (don_id x) d))) (?book x e)) s1
      = (Inr a, t)" by (rule sbindE)
  from rest obtain u s2 where "may_reserve (don_id x) e at s1 = (Inr u, s2)"
    and rest: "sbind (sread (\<lambda>d. no_rows_ok (q_ReservationFor event (don_id x) d))) (?book x e) s2 = (Inr a, t)" by (rule sbindE)
  with found have "s2 = s'" and e: "q_LockEvent event (st_db s') = Inr e" by (auto simp: find_event_Inr dest: may_reserve_same)
  with rest obtain existing where existing: "no_rows_ok (q_ReservationFor event (don_id x) (st_db s')) = Inr existing"
    and run: "?book x e existing s' = (Inr a, t)" by (elim sbindE) simp
  have ok: "places_ok (st_db s')" using assms(2) places_ok_from[OF same] by simp
  have "booking_ok now (st_db s') (st_db t)"
  proof (cases "case existing of None \<Rightarrow> False | Some r \<Rightarrow> pl_status r \<noteq> ''CANCELLED''")
    case True
    then show ?thesis using run ok by (simp add: booking_ok_community)
  next
    case False
    have "pl_status y = ''CANCELLED''" if "y \<in> set (places (st_db s'))" "pl_event y = event" "pl_donor y = don_id x" for y
    proof (cases existing)
      case None
      then show ?thesis using existing ReservationFor_None that by (fastforce simp: no_rows_ok_cases)
    next
      case (Some r)
      then have "q_ReservationFor event (don_id x) (st_db s') = Inr r" using existing by (simp add: no_rows_ok_cases)
      from one_row_in[OF this[unfolded q_ReservationFor_def]] have "y = r" using place_unique[OF ok] that by auto
      then show ?thesis using False Some by simp
    qed
    moreover have "book_place (don_id x) e at s' = (Inr a, t)" using run False by simp
    ultimately show ?thesis using book_place_ok[OF _ ok find_event_id(1)[OF e]] find_event_id(2)[OF e] by blast
  qed
  then show ?thesis using booking_ok_from same by blast
qed

subsection \<open>Releasing\<close>

lemma SetReservationStatus_cancel:
  assumes "q_SetReservationStatus event donor ''CANCELLED'' at d = Inr d'" and "places_ok d"
    and "r \<in> set (places d)" and "pl_event r = event" and "pl_donor r = donor"
  shows "places_ok d' \<and> events d' = events d \<and>
    length (seated event d') = length (seated event d) - (if pl_status r = ''RESERVED'' then 1 else 0) \<and>
    length (waiting event d') = length (waiting event d) - (if pl_status r = ''WAITLISTED'' then 1 else 0) \<and>
    (\<forall>e'. e' \<noteq> event \<longrightarrow> waiting e' d' = waiting e' d \<and> seated e' d' = seated e' d)"
proof -
  let ?same = "\<lambda>x. pl_event x = event \<and> pl_donor x = donor" and ?f = "\<lambda>x. x\<lparr>pl_status := ''CANCELLED'', pl_updated := at\<rparr>"
  have d': "d' = with_places (update_rows ?same ?f) d" using assms(1) by (simp add: q_SetReservationStatus_def)
  have only: "?same x \<longleftrightarrow> x = r" if "x \<in> set (places d)" for x
    using place_unique[OF assms(2) that assms(3)] assms(4,5) by auto
  have live: "filter (\<lambda>y. pl_event y = e' \<and> pl_status y = st) (update_rows ?same ?f (places d)) =
      filter (\<lambda>y. y \<noteq> r) (filter (\<lambda>y. pl_event y = e' \<and> pl_status y = st) (places d))" if "st \<noteq> ''CANCELLED''" for e' st
    using that only by (subst filter_update_rows_drop) (auto intro: filter_cong)
  have "distinct (map pl_id (places d))" using assms(2) by (simp add: places_ok_def)
  then have dist: "distinct (filter P (places d))" for P by (simp add: distinct_map)
  have len: "length (filter (\<lambda>y. y \<noteq> r) xs) = length xs - (if r \<in> set xs then 1 else 0)" if "distinct xs" for xs
    using that by (induction xs) (auto dest: length_pos_if_in_set intro!: filter_True)
  have "places_ok d'" using assms(2) by (subst places_ok_same[of d' d]) (simp_all add: d' with_places_def place_key_def)
  moreover have seats: "seated e' d' = filter (\<lambda>y. y \<noteq> r) (seated e' d)" "waiting e' d' = filter (\<lambda>y. y \<noteq> r) (waiting e' d)" for e'
    by (simp_all add: d' with_places_def seated_def waiting_def live)
  moreover have "r \<in> set (seated e' d) \<longleftrightarrow> e' = event \<and> pl_status r = ''RESERVED''"
    "r \<in> set (waiting e' d) \<longleftrightarrow> e' = event \<and> pl_status r = ''WAITLISTED''" for e'
    using assms(3,4) by (auto simp: seated_def waiting_def)
  moreover have "filter (\<lambda>y. y \<noteq> r) xs = xs" if "r \<notin> set xs" for xs using that by (auto intro: filter_True)
  moreover have "distinct (seated e' d)" "distinct (waiting e' d)" for e' unfolding seated_def waiting_def by (rule dist)+
  ultimately show ?thesis using len by (simp add: d' with_places_def)
qed

text \<open>Filling the seats of one event after its row or one of its places changed.\<close>

lemma booking_ok_filled:
  assumes "filled e d' t" and "waiting (en_id e) t = [] \<or> full e t"
    and "\<And>x. x \<in> set (events d') \<Longrightarrow> en_id x = en_id e \<Longrightarrow> en_capacity x = en_capacity e"
    and "length (seated (en_id e) d') \<le> length (seated (en_id e) d)"
    and "\<And>x. x \<in> set (events d') \<Longrightarrow> en_id x \<noteq> en_id e \<Longrightarrow> x \<in> set (events d) \<and>
      waiting (en_id x) d' = waiting (en_id x) d \<and> seated (en_id x) d' = seated (en_id x) d"
  shows "booking_ok now d t"
proof (rule booking_okI)
  show "places_ok t" using assms(1) by (simp add: filled_def)
  fix x assume x: "x \<in> set (events t)"
  then have x': "x \<in> set (events d')" using assms(1) by (simp add: filled_def)
  show "(\<exists>y\<in>set (events d). en_id y = en_id x \<and> en_capacity y = en_capacity x \<and> en_starts y = en_starts x \<and> quiet_event (en_id x) d t) \<or>
      ((no_idle now d \<longrightarrow> now < en_starts x \<longrightarrow> waiting (en_id x) t = [] \<or> full x t) \<and>
       (en_capacity x > 0 \<longrightarrow> int (length (seated (en_id x) t)) \<le> max (int (length (seated (en_id x) d))) (en_capacity x)))"
  proof (cases "en_id x = en_id e")
    case True
    then have "en_capacity x = en_capacity e" using assms(3) x' by blast
    then show ?thesis using True assms(1,2,4) by (auto simp: filled_def full_def)
  next
    case False
    then show ?thesis using assms(1) assms(5)[OF x' False] by (intro disjI1 bexI[of _ x]) (auto simp: filled_def quiet_event_def)
  qed
qed

lemma release_place_ok:
  assumes "release_place env donor e status at s = (Inr u, t)" and "places_ok (st_db s)" and "e \<in> set (events (st_db s))"
    and "r \<in> set (places (st_db s))" and "pl_event r = en_id e" and "pl_donor r = donor" and "pl_status r = status"
  shows "booking_ok now (st_db s) (st_db t) \<and> events (st_db t) = events (st_db s) \<and>
    (\<forall>e'. e' \<noteq> en_id e \<longrightarrow> waiting e' (st_db t) = waiting e' (st_db s) \<and> seated e' (st_db t) = seated e' (st_db s))"
proof -
  let ?d = "st_db s"
  obtain d' where set: "q_SetReservationStatus (en_id e) donor ''CANCELLED'' at ?d = Inr d'"
    and fill: "(if status = ''RESERVED'' then fillSeats env e at else sreturn ()) (s\<lparr>st_db := d'\<rparr>) = (Inr u, t)"
    using assms(1) by (auto simp: release_place_def sbind_Inr)
  note eff = SetReservationStatus_cancel[OF set assms(2,4,5,6)]
  have one: "x = e" if "x \<in> set (events ?d)" "en_id x = en_id e" for x using event_unique[OF assms(2,3)] that by blast
  show ?thesis
  proof (cases "status = ''RESERVED''")
    case True
    then have f: "filled e d' (st_db t) \<and> (waiting (en_id e) (st_db t) = [] \<or> full e (st_db t))"
      using fillSeats_filled[of env e at "s\<lparr>st_db := d'\<rparr>" u t] fill eff by simp
    have "booking_ok now ?d (st_db t)"
      by (rule booking_ok_filled[of e d']) (use f eff one in auto)
    moreover have "waiting e' (st_db t) = waiting e' ?d \<and> seated e' (st_db t) = seated e' ?d" if "e' \<noteq> en_id e" for e'
      using f eff that by (simp add: filled_def)
    moreover have "events (st_db t) = events ?d" using f eff by (simp add: filled_def)
    ultimately show ?thesis by blast
  next
    case False
    then have t: "st_db t = d'" using fill by auto
    have "booking_ok now ?d d'"
    proof (rule booking_okI)
      show "places_ok d'" using eff by blast
      fix x assume x: "x \<in> set (events d')"
      show "(\<exists>y\<in>set (events ?d). en_id y = en_id x \<and> en_capacity y = en_capacity x \<and> en_starts y = en_starts x \<and> quiet_event (en_id x) ?d d') \<or>
        ((no_idle now ?d \<longrightarrow> now < en_starts x \<longrightarrow> waiting (en_id x) d' = [] \<or> full x d') \<and>
         (en_capacity x > 0 \<longrightarrow> int (length (seated (en_id x) d')) \<le> max (int (length (seated (en_id x) ?d))) (en_capacity x)))"
      proof (cases "en_id x = en_id e")
        case True
        then have "x = e" using one x eff by simp
        moreover have "waiting (en_id e) ?d \<noteq> []" if "status = ''WAITLISTED''"
        proof -
          have "r \<in> set (waiting (en_id e) ?d)" using assms(4,5,7) that by (simp add: waiting_def)
          then show ?thesis by force
        qed
        ultimately show ?thesis using eff assms(3,7) \<open>status \<noteq> ''RESERVED''\<close>
          by (cases "status = ''WAITLISTED''") (auto simp: no_idle_def full_def quiet_event_def)
      next
        case False
        then show ?thesis using eff x by (intro disjI1 bexI[of _ x]) (auto simp: quiet_event_def)
      qed
    qed
    with eff t show ?thesis by simp
  qed
qed

lemma Reservation_Cancel_ok:
  assumes "Reservation_Cancel env (donorOwner c) event at s = (Inr a, t)" and "places_ok (st_db s)"
  shows "booking_ok now (st_db s) (st_db t)"
proof -
  let ?finish = "\<lambda>x e existing. case existing of None \<Rightarrow> sfail ErrEventNotFound
     | Some r \<Rightarrow> if pl_status r = ''CANCELLED'' then sreturn ''CANCELLED''
         else sbind (release_place env (don_id x) e (pl_status r) at) (\<lambda>_. sreturn ''CANCELLED'')"
  obtain x :: donor_row and s' where same: "db_community (st_db s') = db_community (st_db s)"
    and body: "sbind (find_event event ErrEventNotFound) (\<lambda>e. sbind (sguard (at < en_starts e) ErrReservationClosed) (\<lambda>_.
      sbind (sread (\<lambda>d. no_rows_ok (q_ReservationFor event (don_id x) d))) (?finish x e))) s' = (Inr a, t)"
    using assms(1) unfolding Reservation_Cancel_def by (rule donorWrite_run)
  from body obtain e s1 where found: "find_event event ErrEventNotFound s' = (Inr e, s1)"
    and rest: "sbind (sguard (at < en_starts e) ErrReservationClosed) (\<lambda>_. sbind (sread (\<lambda>d. no_rows_ok (q_ReservationFor event (don_id x) d)))
      (?finish x e)) s1 = (Inr a, t)" by (rule sbindE)
  have e: "q_LockEvent event (st_db s') = Inr e" and "s1 = s'" using found by (auto simp: find_event_Inr)
  with rest obtain existing where existing: "no_rows_ok (q_ReservationFor event (don_id x) (st_db s')) = Inr existing"
    and run: "?finish x e existing s' = (Inr a, t)" by (elim sbindE) simp
  then obtain r where r: "existing = Some r" "q_ReservationFor event (don_id x) (st_db s') = Inr r"
    by (cases existing) (auto simp: no_rows_ok_cases)
  note at_place = one_row_in[OF r(2)[unfolded q_ReservationFor_def]]
  have ok: "places_ok (st_db s')" using assms(2) places_ok_from[OF same] by simp
  have "booking_ok now (st_db s') (st_db t)"
  proof (cases "pl_status r = ''CANCELLED''")
    case True
    then show ?thesis using run r ok by (simp add: booking_ok_community)
  next
    case False
    then obtain u where "release_place env (don_id x) e (pl_status r) at s' = (Inr u, t)" using run r by (auto simp: sbind_Inr)
    then show ?thesis
      using release_place_ok[OF _ ok find_event_id(1)[OF e], of env "don_id x" "pl_status r" at u t r now] at_place find_event_id(2)[OF e] by auto
  qed
  then show ?thesis using booking_ok_from[OF same] by blast
qed

lemma distinct_map_sort_key: "distinct (map f (sort_key k xs)) = distinct (map f xs)"
  by (rule mset_eq_imp_distinct_iff) (simp only: mset_map mset_sort)

text \<open>Leaving every event: the places are released one by one, each at an event of its own.\<close>

lemma booking_ok_trans:
  assumes "booking_ok now a b" and "booking_ok now b c" and "events b = events a" and "events c = events b"
  shows "booking_ok now a c"
proof -
  have "int (length (seated (en_id e) c)) \<le> max (int (length (seated (en_id e) a))) (en_capacity e)"
    if "e \<in> set (events c)" "en_capacity e > 0" for e
  proof -
    have "int (length (seated (en_id e) c)) \<le> max (int (length (seated (en_id e) b))) (en_capacity e)"
      "int (length (seated (en_id e) b)) \<le> max (int (length (seated (en_id e) a))) (en_capacity e)"
      using assms that unfolding booking_ok_def by auto
    then show ?thesis by linarith
  qed
  then show ?thesis using assms(1,2) by (auto simp: booking_ok_def)
qed

definition holds_place :: "string \<Rightarrow> db \<Rightarrow> string \<times> string \<Rightarrow> bool" where
  "holds_place donor d p \<longleftrightarrow> (case p of (event, status) \<Rightarrow> status \<in> {''RESERVED'', ''WAITLISTED''} \<and>
     (\<exists>r\<in>set (places d). pl_event r = event \<and> pl_donor r = donor \<and> pl_status r = status))"

lemma holds_place_seats: "holds_place donor d (event, status) \<longleftrightarrow>
    (status = ''RESERVED'' \<and> donor \<in> pl_donor ` set (seated event d)) \<or> (status = ''WAITLISTED'' \<and> donor \<in> pl_donor ` set (waiting event d))"
  by (auto simp: holds_place_def seated_def waiting_def)

lemma release_places_ok:
  assumes "sfor taken (\<lambda>(event, status). sbind (sread (q_LockEvent event)) (\<lambda>e. release_place env donor e status at)) s = (Inr u, t)"
    and "places_ok (st_db s)" and "list_all (holds_place donor (st_db s)) taken" and "distinct (map fst taken)"
  shows "booking_ok now (st_db s) (st_db t) \<and> events (st_db t) = events (st_db s)"
  using assms
proof (induction taken arbitrary: s)
  case (Cons p taken)
  obtain event status where p: "p = (event, status)" by (cases p)
  obtain e w where e: "q_LockEvent event (st_db s) = Inr e" and rel: "release_place env donor e status at s = (Inr (), w)"
    and rest: "sfor taken (\<lambda>(event, status). sbind (sread (q_LockEvent event)) (\<lambda>e. release_place env donor e status at)) w = (Inr u, t)"
    using Cons.prems(1) p by (auto simp: sbind_Inr)
  obtain r where r: "r \<in> set (places (st_db s))" "pl_event r = event" "pl_donor r = donor" "pl_status r = status"
    using Cons.prems(3) p by (auto simp: holds_place_def)
  have step: "booking_ok now (st_db s) (st_db w)" "events (st_db w) = events (st_db s)"
    "\<forall>e'. e' \<noteq> event \<longrightarrow> waiting e' (st_db w) = waiting e' (st_db s) \<and> seated e' (st_db w) = seated e' (st_db s)"
    using release_place_ok[OF rel Cons.prems(2) find_event_id(1)[OF e] r(1)] r find_event_id(2)[OF e] by auto
  have "list_all (holds_place donor (st_db w)) taken"
    unfolding list_all_iff
  proof
    fix q assume q: "q \<in> set taken"
    obtain event' status' where q': "q = (event', status')" by (cases q)
    then have "event' \<noteq> event" using Cons.prems(4) q p by (auto simp: image_iff)
    then show "holds_place donor (st_db w) q"
      using step(3) Cons.prems(3) q unfolding q' holds_place_seats list_all_iff by (auto simp: list_all_iff holds_place_seats)
  qed
  then have "booking_ok now (st_db w) (st_db t) \<and> events (st_db t) = events (st_db w)"
    using Cons.IH[OF rest] step(1) Cons.prems(4) p by (simp add: booking_ok_def)
  then show ?case using booking_ok_trans[OF step(1)] step(2) by simp
qed (simp add: booking_ok_community)

lemma releaseEventPlaces_ok:
  assumes "releaseEventPlaces env donor at s = (Inr u, t)" and "places_ok (st_db s)"
  shows "booking_ok now (st_db s) (st_db t)"
proof -
  let ?d = "st_db s"
  let ?mine = "filter (\<lambda>r. pl_donor r = donor \<and> pl_status r \<in> {''RESERVED'', ''WAITLISTED''} \<and>
          list_ex (\<lambda>e. en_id e = pl_event r \<and> en_starts e > at) (events ?d)) (places ?d)"
  let ?taken = "map (\<lambda>r. (pl_event r, pl_status r)) ?mine"
  have run: "sfor (sort_key fst ?taken) (\<lambda>(event, status). sbind (sread (q_LockEvent event)) (\<lambda>e. release_place env donor e status at)) s = (Inr u, t)"
    using assms(1) by (simp add: releaseEventPlaces_def sbind_Inr q_DonorUpcomingReservations_def)
  have "list_all (holds_place donor ?d) (sort_key fst ?taken)"
    by (auto simp: list_all_iff holds_place_def split: if_splits)
  moreover have "distinct (map fst (sort_key fst ?taken))"
  proof -
    have "distinct (map (\<lambda>r. (pl_event r, pl_donor r)) ?mine)"
      using assms(2) by (intro distinct_map_filter) (simp add: places_ok_def)
    then have "distinct ?mine" "inj_on (\<lambda>r. (pl_event r, pl_donor r)) (set ?mine)" by (simp_all only: distinct_map)
    then have "distinct (map pl_event ?mine)" by (auto simp: distinct_map inj_on_def)
    then show ?thesis by (simp add: distinct_map_sort_key comp_def)
  qed
  ultimately show ?thesis using release_places_ok[OF run assms(2)] by blast
qed
lemma facts_of_community: "facts_of d' = facts_of d \<Longrightarrow> db_community d' = db_community d"
proof -
  have "db_community x = db_community (facts_of x)" for x by (simp add: facts_of_def)
  then show "facts_of d' = facts_of d \<Longrightarrow> db_community d' = db_community d" by metis
qed

subsection \<open>Staff and workers\<close>

lemma keeps_community:
  assumes "\<And>X. keeps (\<lambda>d. db_community d = X) m" and "m s = (Inr a, t)"
  shows "db_community (st_db t) = db_community (st_db s)"
  by (rule keepsD[OF assms(1) refl assms(2)])

lemma keeps_community_audited: "keeps (\<lambda>d. db_community d = X) (audited actor action target details at)"
  by (rule keepsI) (auto simp: audited_def sbind_Inr q_InsertStaffAudit_def Let_def split: if_splits)

lemma keeps_community_notify: "keeps (\<lambda>d. db_community d = X) (notify_place event donor category key expires at)"
  by (rule keepsI) (auto dest: notify_place_community)

lemma keeps_community_award: "keeps (\<lambda>d. db_community d = X) (awardBadges rt x at :: ('g, unit) tx)"
proof (rule keeps_of_facts)
  show "keeps (\<lambda>d. facts_of d = Y) (awardBadges rt x at :: ('g, unit) tx)" for Y by (rule facts_refresh.keeps_awardBadges)
  show "facts_of d' = facts_of d \<Longrightarrow> db_community d = X \<Longrightarrow> db_community d' = X" for d d'
    using facts_of_community by blast
qed

lemma Event_Update_ok:
  assumes "Event_Update env c ident i at s = (Inr u, t)" and "places_ok (st_db s)" and "at \<le> now"
  shows "booking_ok now (st_db s) (st_db t)"
proof -
  let ?d = "st_db s"
  obtain f :: staff_row and params e d' w where params: "validate env i at = Inr params" and e: "q_LockEvent ident ?d = Inr e"
    and upd: "q_UpdateEvent ident params at ?d = Inr d'"
    and fill: "(if at < en_starts params then fillSeats env (e\<lparr>en_capacity := en_capacity params, en_starts := en_starts params\<rparr>) at
      else sreturn ()) (s\<lparr>st_db := d'\<rparr>) = (Inr (), w)"
    and aud: "audited (sf_id f) ''event.updated'' ident (JObj []) at w = (Inr u, t)"
    using assms(1) unfolding Event_Update_def
    by (elim staffWrite_run) (auto simp: eventPermission_def sbind_Inr Let_def intro: that)
  let ?e = "e\<lparr>en_capacity := en_capacity params, en_starts := en_starts params\<rparr>"
  have d': "d' = with_events (update_rows (\<lambda>e. en_id e = ident) (updated_event params at)) ?d"
    using upd by (auto simp: q_UpdateEvent_def Let_def split: if_splits)
  have pl: "places d' = places ?d" by (simp add: d' with_events_def)
  then have seats: "waiting x d' = waiting x ?d" "seated x d' = seated x ?d" for x by (simp_all add: waiting_def seated_def)
  have rows: "x \<in> set (events d') \<Longrightarrow> (if en_id x = ident then en_capacity x = en_capacity params \<and> en_starts x = en_starts params
      else x \<in> set (events ?d))" for x
    by (auto simp: d' with_events_def set_update_rows updated_event_def)
  have ok: "places_ok d'" using assms(2)
    by (subst places_ok_same[of d' ?d]) (simp_all add: pl, simp add: d' with_events_def updated_event_def)
  have ident: "en_id e = ident" using find_event_id[OF e] by simp
  have "booking_ok now ?d (st_db w)"
  proof (cases "at < en_starts params")
    case True
    then have "filled ?e d' (st_db w) \<and> (waiting (en_id ?e) (st_db w) = [] \<or> full ?e (st_db w))"
      using fillSeats_filled[of env ?e at "s\<lparr>st_db := d'\<rparr>" "()" w] fill ok by simp
    then show ?thesis
      by (intro booking_ok_filled[of ?e d']) (use rows seats ident in \<open>auto split: if_splits\<close>)
  next
    case False
    then have "st_db w = d'" using fill by simp
    moreover have "booking_ok now ?d d'"
    proof (rule booking_okI[OF ok])
      fix x assume x: "x \<in> set (events d')"
      show "(\<exists>y\<in>set (events ?d). en_id y = en_id x \<and> en_capacity y = en_capacity x \<and> en_starts y = en_starts x \<and> quiet_event (en_id x) ?d d') \<or>
        ((no_idle now ?d \<longrightarrow> now < en_starts x \<longrightarrow> waiting (en_id x) d' = [] \<or> full x d') \<and>
         (en_capacity x > 0 \<longrightarrow> int (length (seated (en_id x) d')) \<le> max (int (length (seated (en_id x) ?d))) (en_capacity x)))"
        using rows[OF x] False assms(3) by (cases "en_id x = ident") (auto simp: seats quiet_event_def)
    qed
    ultimately show ?thesis by simp
  qed
  moreover have "db_community (st_db t) = db_community (st_db w)" by (rule keeps_community[OF keeps_community_audited aud])
  ultimately show ?thesis
    by (simp add: booking_ok_def places_ok_def no_idle_def waiting_def seated_def full_def)
qed

lemma Event_Create_ok:
  assumes "Event_Create env c i at s = (Inr a, t)" and "places_ok (st_db s)"
  shows "booking_ok now (st_db s) (st_db t)"
proof -
  let ?d = "st_db s"
  obtain f :: staff_row and params ids w d' where ins: "q_InsertEvent (params\<lparr>en_id := a\<rparr>) (?d\<lparr>db_ids := ids\<rparr>) = Inr d'" and d': "d' = st_db w"
    and aud: "audited (sf_id f) ''event.created'' a (JObj [(''slug'', JStr (ei_Slug i))]) at w = (Inr (), t)"
    using assms(1) unfolding Event_Create_def
    by (elim staffWrite_run) (auto simp: eventPermission_def sbind_Inr, rule that, assumption+, simp_all)
  have "places d' = places ?d" "events d' = events ?d @ [params\<lparr>en_id := a\<rparr>]" and fresh: "a \<notin> en_id ` set (events ?d)"
    using ins by (auto simp: q_InsertEvent_def with_events_def list_ex_iff split: if_splits)
  then have w: "places (st_db w) = places ?d" "events (st_db w) = events ?d @ [params\<lparr>en_id := a\<rparr>]" by (simp_all only: d')
  have ok: "places_ok (st_db w)" using assms(2) fresh by (auto simp: places_ok_def w)
  have none: "waiting a ?d = []" "seated a ?d = []" using assms(2) fresh by (auto simp: waiting_def seated_def places_ok_def filter_empty_conv)
  have seats: "waiting x (st_db w) = waiting x ?d" "seated x (st_db w) = seated x ?d" for x by (simp_all add: waiting_def seated_def w)
  have "booking_ok now ?d (st_db w)"
  proof (rule booking_okI[OF ok])
    fix x assume x: "x \<in> set (events (st_db w))"
    show "(\<exists>y\<in>set (events ?d). en_id y = en_id x \<and> en_capacity y = en_capacity x \<and> en_starts y = en_starts x \<and> quiet_event (en_id x) ?d (st_db w)) \<or>
      ((no_idle now ?d \<longrightarrow> now < en_starts x \<longrightarrow> waiting (en_id x) (st_db w) = [] \<or> full x (st_db w)) \<and>
       (en_capacity x > 0 \<longrightarrow> int (length (seated (en_id x) (st_db w))) \<le> max (int (length (seated (en_id x) ?d))) (en_capacity x)))"
      using x none by (auto simp: w(2) seats quiet_event_def)
  qed
  moreover have "db_community (st_db t) = db_community (st_db w)" by (rule keeps_community[OF keeps_community_audited aud])
  ultimately show ?thesis
    by (simp add: booking_ok_def places_ok_def no_idle_def waiting_def seated_def full_def)
qed

text \<open>Operations that leave the status of every place and the capacity and start of every event.\<close>

definition states :: "((string \<times> string \<times> string) \<times> string) list \<Rightarrow> (string \<times> int \<times> time) list \<Rightarrow> db \<Rightarrow> bool" where
  "states X Y d \<longleftrightarrow> map place_state (places d) = X \<and> map event_state (events d) = Y"

lemma states_community: "db_community d' = db_community d \<Longrightarrow> states X Y d' = states X Y d"
  by (simp add: states_def)

lemma keeps_statesI:
  assumes "\<And>Z. keeps (\<lambda>d. db_community d = Z) m"
  shows "keeps (states X Y) m"
proof (rule keepsI)
  fix s a t assume "states X Y (st_db s)" and run: "m s = (Inr a, t)"
  have same: "db_community (st_db t) = db_community (st_db s)" by (rule keepsD[OF assms refl run])
  show "states X Y (st_db t)" using \<open>states X Y (st_db s)\<close> unfolding states_community[OF same] .
qed

lemmas keeps_states_community = keeps_statesI[OF keeps_community_audited] keeps_statesI[OF keeps_community_notify]
  keeps_statesI[OF keeps_community_award]

lemma put_all_push_community: "put_all push_named put_push rs d = Inr d' \<Longrightarrow> db_community d' = db_community d"
  by (rule put_all_keeps[where P = "\<lambda>x. db_community x = db_community d"]) (auto dest: put_push_community)

lemma keeps_states_frames:
  "keeps (states X Y) NewID"
  "keeps (states X Y) (swrite (q_PublishEvent ident at))"
  "keeps (states X Y) (supdate (q_QueueEventAlertJob ident at))"
  "keeps (states X Y) (swrite (q_AddEventGuest g))"
  "keeps (states X Y) (swrite (q_RemoveEventGuest ident donor))"
  "keeps (states X Y) (swrite (q_CheckInReservation ident donor at))"
  "keeps (states X Y) (supdate (q_QueueEventReminders label at until))"
  "keeps (states X Y) (supdate (q_QueueEventAlertBatch low ident after at n))"
  "keeps (states X Y) (swrite (q_SaveEventAlertProgress ident final finished at))"
  "keeps (states X Y) (swrite (q_TouchSession ident at))"
proof -
  show "keeps (states X Y) (swrite (q_PublishEvent ident at))"
    by (rule keeps_write) (auto simp: q_PublishEvent_def with_events_def states_def)
  show "keeps (states X Y) (swrite (q_CheckInReservation ident donor at))"
    by (rule keeps_write) (auto simp: q_CheckInReservation_def with_places_def states_def place_key_def)
  show "keeps (states X Y) (supdate (q_QueueEventReminders label at until))"
    by (rule keeps_update_rows) (auto simp: q_QueueEventReminders_def rbind_eq_Inr states_def dest: put_all_push_community)
  show "keeps (states X Y) (supdate (q_QueueEventAlertBatch low ident after at n))"
    by (rule keeps_update_rows) (auto simp: q_QueueEventAlertBatch_def rbind_eq_Inr states_def Let_def dest: put_all_push_community)
  show "keeps (states X Y) NewID" by (rule keepsI) (auto simp: states_def)
  show "keeps (states X Y) (supdate (q_QueueEventAlertJob ident at))"
    by (rule keeps_update_rows) (auto simp: q_QueueEventAlertJob_def states_def Let_def split: if_splits)
qed (rule keeps_write, auto simp: q_AddEventGuest_def q_RemoveEventGuest_def q_SaveEventAlertProgress_def q_TouchSession_def
    states_def rbind_eq_Inr Let_def)+

lemma keeps_staffWrite: "(\<And>f. keeps P (fn f at)) \<Longrightarrow> keeps P (staffWrite c permission fn at)"
  unfolding staffWrite_def lockStaff_def requireStaff_def by (intro keeps_rules)

lemma keeps_donorWrite:
  fixes fn :: "donor_row \<Rightarrow> time \<Rightarrow> ('g, 'a) tx"
  assumes "\<And>i a. keeps P (swrite (q_TouchSession i a) :: ('g, unit) tx)" and "\<And>x. keeps P (fn x at)"
  shows "keeps P (donorWrite (donorOwner c) fn at)"
  unfolding donorWrite_def donorOwner_def lockSignedIn_def authenticate_def touch_def by (intro keeps_rules assms)

lemma keeps_find_event: "keeps P (find_event event missing)"
  unfolding find_event_def by (intro keeps_rules)

lemma keeps_states_staff:
  "keeps (states X Y) (Event_Publish c ident at)"
  "keeps (states X Y) (AddGuest c event donor at)"
  "keeps (states X Y) (RemoveGuest c event donor at)"
  "keeps (states X Y) (CheckInToken env secret c event at)"
  "keeps (states X Y) (CheckInAttendee rt c event donor at)"
  unfolding Event_Publish_def AddGuest_def RemoveGuest_def CheckInToken_def CheckInAttendee_def
  by (intro keeps_staffWrite keeps_rules keeps_states_community keeps_states_frames)+

lemma keeps_states_CheckIn: "keeps (states X Y) (CheckIn env rt secret (donorOwner c) token at)"
  unfolding CheckIn_def
  by (intro keeps_donorWrite keeps_find_event keeps_rules keeps_states_community keeps_states_frames)

lemma keeps_states_workers:
  "keeps (states X Y) (QueueDueReminders at)" "keeps (states X Y) (QueueNext low locked at)"
proof -
  have "keeps (states X Y) (queue_windows ws at n)" for ws n
    by (induction ws at n rule: queue_windows.induct) (auto intro: keeps_rules keeps_states_frames)
  then show "keeps (states X Y) (QueueDueReminders at)" unfolding QueueDueReminders_def .
  show "keeps (states X Y) (QueueNext low locked at)"
    unfolding QueueNext_def by (intro keeps_rules keeps_states_frames)
qed

lemma keeps_states_ok:
  assumes "\<And>X Y. keeps (states X Y) m" and "m s = (Inr a, t)" and "places_ok (st_db s)"
  shows "booking_ok now (st_db s) (st_db t)"
  using keepsD[OF assms(1)[of "map place_state (places (st_db s))" "map event_state (events (st_db s))"] _ assms(2)] assms(3)
  by (intro booking_ok_same) (simp_all add: states_def)

lemma released_not_live: "\<not> list_ex (live_place event) (update_rows (live_place event) (\<lambda>r. r\<lparr>pl_status := ''CANCELLED'', pl_updated := at\<rparr>) rows)"
proof (induction rows)
  case (Cons r rows)
  have "\<not> live_place event (r\<lparr>pl_status := ''CANCELLED'', pl_updated := at\<rparr>)" by (simp add: live_place_def)
  then show ?case using Cons by (simp add: update_rows_def)
qed (simp add: update_rows_def)

lemma Event_Cancel_ok:
  assumes "Event_Cancel c event at s = (Inr u, t)" and "places_ok (st_db s)"
  shows "booking_ok now (st_db s) (st_db t)"
proof -
  let ?d = "st_db s"
  obtain f :: staff_row where body: "sbind (sread (q_LockEvent event)) (\<lambda>e. if en_cancelled e \<noteq> None then sreturn ()
     else sbind (sguard (\<not> at > en_ends e) ErrReservationClosed) (\<lambda>_. sbind (swrite (q_CancelEvent event at)) (\<lambda>_.
          sbind (supdate (q_ReleaseEventReservations event at)) (\<lambda>holders.
          sbind (sfor holders (\<lambda>donor. notify_place event donor ''EVENT_CANCELLED''
            (''event-cancelled:'' @ event @ '':'' @ donor) (en_ends e) at)) (\<lambda>_.
          audited (sf_id f) ''event.cancelled'' event (JObj [(''notified'', JNum (FormatInt (int (length holders))))]) at))))) s = (Inr u, t)"
    using assms(1) unfolding Event_Cancel_def by (rule staffWrite_run) (simp add: eventPermission_def)
  obtain e where e: "q_LockEvent event ?d = Inr e" using body by (auto simp: sbind_Inr)
  show ?thesis
  proof (cases "en_cancelled e = None")
    case False
    then have "t = s" using body e by (auto simp: sbind_Inr)
    then show ?thesis using assms(2) by (simp add: booking_ok_community)
  next
    case True
    then obtain d1 holders d2 w where d1: "q_CancelEvent event at ?d = Inr d1"
      and d2: "q_ReleaseEventReservations event at d1 = Inr (holders, d2)"
      and told: "sfor holders (\<lambda>donor. notify_place event donor ''EVENT_CANCELLED''
          (''event-cancelled:'' @ event @ '':'' @ donor) (en_ends e) at) (s\<lparr>st_db := d2\<rparr>) = (Inr (), w)"
      and aud: "audited (sf_id f) ''event.cancelled'' event (JObj [(''notified'', JNum (FormatInt (int (length holders))))]) at w = (Inr u, t)"
      using body e by (auto simp: sbind_Inr)
    have "keeps (\<lambda>d. db_community d = X) (sfor holders (\<lambda>donor. notify_place event donor ''EVENT_CANCELLED''
          (''event-cancelled:'' @ event @ '':'' @ donor) (en_ends e) at))" for X
      by (intro keeps_rules keeps_community_notify)
    from keepsD[OF this _ told] have "db_community (st_db w) = db_community d2" by simp
    then have t: "db_community (st_db t) = db_community d2" using keeps_community[OF keeps_community_audited aud] by simp
    have pl: "places d2 = update_rows (live_place event) (\<lambda>r. r\<lparr>pl_status := ''CANCELLED'', pl_updated := at\<rparr>) (places ?d)"
      and ev: "map event_state (events d2) = map event_state (events ?d)"
    proof -
      have d1': "d1 = with_events (update_rows (\<lambda>e. en_id e = event \<and> en_cancelled e = None) (\<lambda>e. e\<lparr>en_cancelled := Some at, en_updated := at\<rparr>)) ?d"
        using d1 by (simp add: q_CancelEvent_def)
      have d2': "d2 = with_places (update_rows (live_place event) (\<lambda>r. r\<lparr>pl_status := ''CANCELLED'', pl_updated := at\<rparr>)) d1"
        using d2 by (simp add: q_ReleaseEventReservations_def)
      show "places d2 = update_rows (live_place event) (\<lambda>r. r\<lparr>pl_status := ''CANCELLED'', pl_updated := at\<rparr>) (places ?d)"
        "map event_state (events d2) = map event_state (events ?d)"
        by (simp_all add: d2' d1' with_events_def with_places_def)
    qed
    have none: "waiting event d2 = []" "seated event d2 = []"
    proof -
      have "\<not> live_place event r" if "r \<in> set (places d2)" for r
        using released_not_live[of event at "places ?d"] that unfolding pl list_ex_iff by blast
      then show "waiting event d2 = []" "seated event d2 = []"
        unfolding waiting_def seated_def filter_empty_conv live_place_def by blast+
    qed
    have other: "waiting x d2 = waiting x ?d" "seated x d2 = seated x ?d" if "x \<noteq> event" for x
      unfolding waiting_def seated_def pl by (rule filter_update_rows_other; use that in \<open>auto simp: live_place_def\<close>)+
    have "map fst (map event_state (events d2)) = map fst (map event_state (events ?d))" by (simp only: ev)
    then have ok: "places_ok d2" using assms(2) by (subst places_ok_same[of d2 ?d]) (simp_all add: comp_def pl place_key_def)
    have "booking_ok now ?d d2"
    proof (rule booking_okI[OF ok])
      fix x assume "x \<in> set (events d2)"
      then have "event_state x \<in> set (map event_state (events d2))" by simp
      then obtain y where y: "y \<in> set (events ?d)" "event_state y = event_state x" unfolding ev by auto
      show "(\<exists>y\<in>set (events ?d). en_id y = en_id x \<and> en_capacity y = en_capacity x \<and> en_starts y = en_starts x \<and> quiet_event (en_id x) ?d d2) \<or>
        ((no_idle now ?d \<longrightarrow> now < en_starts x \<longrightarrow> waiting (en_id x) d2 = [] \<or> full x d2) \<and>
         (en_capacity x > 0 \<longrightarrow> int (length (seated (en_id x) d2)) \<le> max (int (length (seated (en_id x) ?d))) (en_capacity x)))"
      proof (cases "en_id x = event")
        case False
        then show ?thesis using y other by (intro disjI1 bexI[of _ y]) (auto simp: quiet_event_def)
      next
        case True
        then show ?thesis by (intro disjI2) (simp add: none le_max_iff_disj)
      qed
    qed
    then show ?thesis using t by (simp add: booking_ok_def places_ok_def no_idle_def waiting_def seated_def full_def)
  qed
qed

section \<open>Everything that happens to places\<close>

text \<open>
  The steps of a deployment that concern events, each at its own reading of the clock.
\<close>

inductive booking_step :: "event_env \<Rightarrow> runtime \<Rightarrow> time \<Rightarrow> 'g st \<Rightarrow> 'g st \<Rightarrow> bool" for env rt at where
  reserve: "Reserve (donorOwner c) event at s = (Inr a, t) \<Longrightarrow> booking_step env rt at s t"
| give_up: "Reservation_Cancel env (donorOwner c) event at s = (Inr a, t) \<Longrightarrow> booking_step env rt at s t"
| leave: "releaseEventPlaces env donor at s = (Inr u, t) \<Longrightarrow> booking_step env rt at s t"
| check_in: "CheckIn env rt secret (donorOwner c) token at s = (Inr r, t) \<Longrightarrow> booking_step env rt at s t"
| attend: "CheckInAttendee rt c event donor at s = (Inr u, t) \<Longrightarrow> booking_step env rt at s t"
| create: "Event_Create env c i at s = (Inr a, t) \<Longrightarrow> booking_step env rt at s t"
| edit: "Event_Update env c ident i at s = (Inr u, t) \<Longrightarrow> booking_step env rt at s t"
| publish: "Event_Publish c ident at s = (Inr u, t) \<Longrightarrow> booking_step env rt at s t"
| call_off: "Event_Cancel c ident at s = (Inr u, t) \<Longrightarrow> booking_step env rt at s t"
| add_guest: "AddGuest c event donor at s = (Inr u, t) \<Longrightarrow> booking_step env rt at s t"
| remove_guest: "RemoveGuest c event donor at s = (Inr u, t) \<Longrightarrow> booking_step env rt at s t"
| remind: "QueueDueReminders at s = (Inr n, t) \<Longrightarrow> booking_step env rt at s t"
| alert: "QueueNext low locked at s = (Inr b, t) \<Longrightarrow> booking_step env rt at s t"

lemma booking_step_ok:
  assumes "booking_step env rt at s t" and "places_ok (st_db s)" and "at \<le> now"
  shows "booking_ok now (st_db s) (st_db t)"
  using assms(1)
proof cases
  case reserve then show ?thesis by (rule Reserve_ok[OF _ assms(2)])
next
  case give_up then show ?thesis by (rule Reservation_Cancel_ok[OF _ assms(2)])
next
  case leave then show ?thesis by (rule releaseEventPlaces_ok[OF _ assms(2)])
next
  case check_in then show ?thesis by (rule keeps_states_ok[OF keeps_states_CheckIn _ assms(2)])
next
  case attend then show ?thesis by (rule keeps_states_ok[OF keeps_states_staff(5) _ assms(2)])
next
  case create then show ?thesis by (rule Event_Create_ok[OF _ assms(2)])
next
  case edit then show ?thesis by (rule Event_Update_ok[OF _ assms(2,3)])
next
  case publish then show ?thesis by (rule keeps_states_ok[OF keeps_states_staff(1) _ assms(2)])
next
  case call_off then show ?thesis by (rule Event_Cancel_ok[OF _ assms(2)])
next
  case add_guest then show ?thesis by (rule keeps_states_ok[OF keeps_states_staff(2) _ assms(2)])
next
  case remove_guest then show ?thesis by (rule keeps_states_ok[OF keeps_states_staff(3) _ assms(2)])
next
  case remind then show ?thesis by (rule keeps_states_ok[OF keeps_states_workers(1) _ assms(2)])
next
  case alert then show ?thesis by (rule keeps_states_ok[OF keeps_states_workers(2) _ assms(2)])
qed

section \<open>A sample event\<close>

definition sample_env :: event_env where
  "sample_env = \<lparr>ee_tables = ascii_tables, ee_zones = \<lparr>zt_Prefix = [], zt_Override = []\<rparr>, ee_LoadLocation = (\<lambda>_. True),
     ee_Parse = (\<lambda>_. None), ee_Format = (\<lambda>_. ''t''), ee_encode = (\<lambda>x. x), ee_decode = Some, ee_hmac = (\<lambda>k m. m), ee_Bytes = (\<lambda>x. x),
     ee_UUID = (\<lambda>x. x)\<rparr>"

definition sample_event :: donor_event_row where
  "sample_event = \<lparr>en_id = ''e1'', en_slug = ''walk'', en_title = ''Walk'', en_type = ''COMMUNITY'', en_description = [], en_venue = [],
     en_address = [], en_city = [], en_zip = [], en_starts = of_unix 10000, en_ends = of_unix 20000, en_capacity = 1,
     en_state = ''PUBLISHED'', en_published = Some 5, en_perk = [], en_cancelled = None, en_opens = None, en_zone = ''UTC'',
     en_created = 5, en_updated = 5\<rparr>"

definition sample_session :: "string \<Rightarrow> string \<Rightarrow> session_row" where
  "sample_session donor hash = \<lparr>se_id = hash, se_donor = donor, se_hash = hash, se_expires = of_unix 90000, se_refresh = None,
     se_revoked = None, se_used = 0, se_push = None, se_client = ''BROWSER'', se_device = None, se_platform = None,
     se_created = of_unix 5000, se_family = None, se_current = None, se_previous = None, se_refreshed = None,
     se_verified = None\<rparr>"

definition sample_event_st :: "unit st" where
  "sample_event_st = \<lparr>st_db = empty_db\<lparr>db_ids := map (\<lambda>n. ''i'' @ format_nat n) [0..<20],
     db_donors := [sample_donor_row\<lparr>don_claimed_at := Some 5\<rparr>, sample_donor_row\<lparr>don_id := ''d2'', don_claimed_at := Some 5\<rparr>],
     db_rec := empty_rec\<lparr>rt_sessions := [sample_session ''d1'' ''h1'', sample_session ''d2'' ''h2'']\<rparr>,
     db_community := empty_community\<lparr>cm_events := [sample_event]\<rparr>,
     db_staff := \<lparr>sd_staff = [\<lparr>sf_id = ''s1'', sf_email = ''ops@dad.org'', sf_role = ''OP_GROWTH'', sf_disabled = False\<rparr>],
       sd_sessions = [\<lparr>ss_hash = ''s1'', ss_staff = ''s1'', ss_expires = of_unix 90000, ss_revoked = None\<rparr>], sd_audit = []\<rparr>\<rparr>,
     st_gw = (), st_seen = []\<rparr>"

definition sample_caller :: "string \<Rightarrow> caller" where
  "sample_caller hash = \<lparr>cl_hash = hash, cl_before = of_unix 7000, cl_held = of_unix 7000\<rparr>"

definition sample_first :: "unit st" where
  "sample_first = snd (Reserve (donorOwner (sample_caller ''h1'')) ''e1'' (of_unix 7000) sample_event_st)"

definition sample_second :: "unit st" where
  "sample_second = snd (Reserve (donorOwner (sample_caller ''h2'')) ''e1'' (of_unix 7001) sample_first)"

lemma sample_reserved: "fst (Reserve (donorOwner (sample_caller ''h1'')) ''e1'' (of_unix 7000) sample_event_st) = Inr ''RESERVED''"
  by code_simp

lemma sample_waitlisted: "fst (Reserve (donorOwner (sample_caller ''h2'')) ''e1'' (of_unix 7001) sample_first) = Inr ''WAITLISTED''"
  by code_simp

definition sample_open_st :: "unit st" where
  "sample_open_st = sample_second\<lparr>st_db := (st_db sample_second)\<lparr>db_community := (db_community (st_db sample_second))
     \<lparr>cm_events := [sample_event\<lparr>en_capacity := 2\<rparr>]\<rparr>\<rparr>\<rparr>"

text \<open>
  C35. \<open>fillSeats\<close> gives out the free seats exactly: when it returns, nobody waits or no seat is
  free; everyone taken off the waiting list has a seat and no other place changed; a limited
  event is filled no further than its capacity; and whoever still waits queued no earlier than
  everyone who was promoted.
\<close>

theorem fillSeats_exact:
  assumes "fillSeats env e at s = (Inr u, t)" and "places_ok (st_db s)"
  shows "(waiting (en_id e) (st_db t) = [] \<or> full e (st_db t)) \<and>
    length (seated (en_id e) (st_db t)) + length (waiting (en_id e) (st_db t)) =
      length (seated (en_id e) (st_db s)) + length (waiting (en_id e) (st_db s)) \<and>
    (en_capacity e > 0 \<longrightarrow> int (length (seated (en_id e) (st_db t))) \<le> max (int (length (seated (en_id e) (st_db s)))) (en_capacity e)) \<and>
    (\<forall>p r. p \<in> set (waiting (en_id e) (st_db s)) - set (waiting (en_id e) (st_db t)) \<longrightarrow> r \<in> set (waiting (en_id e) (st_db t)) \<longrightarrow>
       queue_key p \<le> queue_key r) \<and>
    (\<forall>e'. e' \<noteq> en_id e \<longrightarrow> waiting e' (st_db t) = waiting e' (st_db s) \<and> seated e' (st_db t) = seated e' (st_db s))"
  using fillSeats_filled[OF assms] unfolding filled_def by blast

lemma fillSeats_exact_witness:
  "waiting ''e1'' (st_db (snd (fillSeats sample_env (sample_event\<lparr>en_capacity := 2\<rparr>) (of_unix 7002) sample_open_st))) = [] \<or>
   full (sample_event\<lparr>en_capacity := 2\<rparr>) (st_db (snd (fillSeats sample_env (sample_event\<lparr>en_capacity := 2\<rparr>) (of_unix 7002) sample_open_st)))"
proof -
  have ran: "fst (fillSeats sample_env (sample_event\<lparr>en_capacity := 2\<rparr>) (of_unix 7002) sample_open_st) = Inr ()" by code_simp
  have ok: "places_ok (st_db sample_open_st)" unfolding places_ok_def by code_simp
  show ?thesis using fillSeats_exact[OF run_fst[OF ran] ok] by (simp add: sample_event_def)
qed

end
