(* ===== verification/Sample_Payment.thy ===== *)
theory Sample_Payment
  imports Notices
begin

text \<open>
  One payment from end to end, evaluated: the processor's event of the first paid invoice of a
  monthly gift is delivered and worked off, the gift is recorded and the projections of the
  donor and of the referrer are recomputed.
\<close>

definition sample_payment :: VerifiedEvent where
  "sample_payment = \<lparr>e_id = ''evt_1'', e_kind = ''invoice.payment_succeeded'', e_occurred = of_unix 1100,
     e_data = JObj (sample_invoice @ [(''checkout_id'', JStr ''c1''), (''status'', JStr ''paid''), (''currency'', JStr ''usd''),
       (''billing_reason'', JStr ''subscription_create''), (''total'', JNum ''500''), (''amount_due'', JNum ''500''),
       (''amount_paid'', JNum ''500''), (''paid_at'', JNum ''1000''), (''payments_complete'', JBool True),
       (''payments'', JArr [JObj [(''amount_paid'', JNum ''500''), (''status'', JStr ''paid''), (''currency'', JStr ''usd''),
          (''invoice'', JStr ''in_1''), (''livemode'', JBool False), (''type'', JStr ''payment_intent''),
          (''payment_intent'', JStr ''pi_1'')]])])\<rparr>"

definition sample_start :: "unit st" where
  "sample_start = \<lparr>st_db = empty_db\<lparr>db_ids := [''a'', ''b'', ''c'', ''d'', ''e'', ''f'', ''g'', ''h'', ''i'', ''j'', ''k'', ''l'', ''m'', ''n'', ''o'', ''p'', ''q'', ''r''],
     db_donors := [sample_donor_row\<lparr>don_claimed_at := Some 5\<rparr>, sample_donor_row\<lparr>don_id := ''d2'', don_email := ''b@dad.org''\<rparr>], db_checkouts := [sample_checkout],
     db_attempts := [sample_attempt]\<rparr>, st_gw = (), st_seen = []\<rparr>"

definition sample_delivered :: "unit st" where
  "sample_delivered = snd (SaveVerifiedEvent (of_unix 1200) sample_payment sample_start)"

definition sample_worked :: "unit st" where
  "sample_worked = snd (ProcessNext sample_worker Some (recompute sample_runtime) (of_unix 1300) [] (of_unix 1300) sample_delivered)"

lemma sample_delivers: "fst (SaveVerifiedEvent (of_unix 1200) sample_payment sample_start) = Inr ()"
  by code_simp

lemma sample_run:
  "map_prod id (\<lambda>s. (map gr_amount (db_gifts (st_db s)), map (\<lambda>r. (mp_donor r, mp_link_count r, mp_link_minor r)) (db_projections (st_db s))))
     (ProcessNext sample_worker Some (recompute sample_runtime) (of_unix 1300) [] (of_unix 1300) sample_delivered) =
   (Inr True, [500], [(''d1'', 0, 0), (''d2'', 1, 500)])"
  by code_simp

lemma sample_works:
  "ProcessNext sample_worker Some (recompute sample_runtime) (of_unix 1300) [] (of_unix 1300) sample_delivered = (Inr True, sample_worked)"
  and sample_worked_gifts: "map gr_amount (db_gifts (st_db sample_worked)) = [500]"
  and sample_worked_totals: "map (\<lambda>r. (mp_donor r, mp_link_count r, mp_link_minor r)) (db_projections (st_db sample_worked)) =
    [(''d1'', 0, 0), (''d2'', 1, 500)]"
  using sample_run unfolding sample_worked_def
  by (cases "ProcessNext sample_worker Some (recompute sample_runtime) (of_unix 1300) [] (of_unix 1300) sample_delivered"; simp)+

end
