(* ===== verification/Deleted_Accounts.thy ===== *)
theory Deleted_Accounts
  imports Event_Worker
begin

text \<open>
  Money that reaches an account after its donor deleted it
  (internal/store/deleted_account_reversals.go): the worker that makes the queued refunds and
  cancellations at the processor. Claiming a job commits on its own, so a lease keeps a second
  worker away while the call is in flight; what a repeated call does is left to the
  processor's idempotency key.
\<close>

section \<open>The worker\<close>

record 'g ReversalGateway =
  rvg_RetrieveSubscription :: "string \<Rightarrow> 'g \<Rightarrow> (store_error + Object) \<times> 'g"
  rvg_RefundAfterDeletion :: "string \<Rightarrow> int \<Rightarrow> string \<Rightarrow> 'g \<Rightarrow> (store_error + unit) \<times> 'g"
  rvg_CancelSubscriptionNow :: "string \<Rightarrow> string \<Rightarrow> 'g \<Rightarrow> (store_error + unit) \<times> 'g"

definition reversalLease :: duration where "reversalLease = 5 * Minute"

definition reversalBackoff :: duration where "reversalBackoff = 10 * Minute"

definition cancel_key :: "reversal_row \<Rightarrow> string" where
  "cancel_key job = ''dad-deleted-account-cancel-'' @ rv_id job"

definition reverse :: "'g ReversalGateway option \<Rightarrow> reversal_row \<Rightarrow> ('g, unit) tx" where
  "reverse gateway job =
     (case gateway of
        None \<Rightarrow> sfail ErrUnconfigured
      | Some g \<Rightarrow>
          if rv_kind job = ''REFUND''
          then sgate (rvg_RefundAfterDeletion g (rv_target job) (case rv_amount job of None \<Rightarrow> 0 | Some a \<Rightarrow> a) (rv_id job))
          else sbind (stry (sgate (rvg_CancelSubscriptionNow g (rv_target job) (cancel_key job)))) (\<lambda>cancelled.
            case cancelled of
              Inr _ \<Rightarrow> sreturn ()
            | Inl err \<Rightarrow>
                sbind (stry (sgate (rvg_RetrieveSubscription g (rv_target job)))) (\<lambda>current.
                  case current of
                    Inl _ \<Rightarrow> sfail err
                  | Inr remote \<Rightarrow>
                      if Text remote ''id'' = rv_target job \<and> terminalSubscription (Text remote ''status'')
                      then sreturn () else sfail err)))"

definition RunNext :: "'g ReversalGateway option \<Rightarrow> string list \<Rightarrow> time \<Rightarrow> ('g, bool) tx" where
  "RunNext gateway locked now =
     sbind (stry (supdate (q_ClaimDeletedAccountReversal (now + reversalLease) now locked))) (\<lambda>claimed.
       case claimed of
         Inl e \<Rightarrow> if e = ErrNoRows then sreturn False else sfail e
       | Inr job \<Rightarrow>
           sbind (stry (reverse gateway job)) (\<lambda>reversed.
           sbind (case reversed of
                    Inl err \<Rightarrow> swrite (q_FailDeletedAccountReversal (rv_id job) (now + reversalBackoff) (eventFailure err))
                  | Inr _ \<Rightarrow> swrite (q_CompleteDeletedAccountReversal (rv_id job) now)) (\<lambda>_.
           sreturn True)))"

section \<open>One step\<close>

text \<open>A gateway call leaves the tables alone, so a step is the claim followed by its outcome.\<close>

lemma reverse_db: "reverse gateway job s = (r, t) \<Longrightarrow> st_db t = st_db s"
  by (auto simp: reverse_def sbind_def stry_def sfail_def sreturn_def sgate_def
      split: option.splits if_splits prod.splits sum.splits)

definition claimed_job :: "time \<Rightarrow> reversal_row \<Rightarrow> reversal_row" where
  "claimed_job now r = r\<lparr>rv_attempts := rv_attempts r + 1, rv_available := now + reversalLease\<rparr>"

definition done_job :: "time \<Rightarrow> store_error + unit \<Rightarrow> reversal_row \<Rightarrow> reversal_row" where
  "done_job now r job = (case r of
     Inl err \<Rightarrow> job\<lparr>rv_attempts := rv_attempts job + 1, rv_available := now + reversalBackoff, rv_error := Some (eventFailure err)\<rparr>
   | Inr _ \<Rightarrow> (claimed_job now job)\<lparr>rv_completed := Some now, rv_error := None\<rparr>)"

lemma done_job_keeps [simp]:
  "rv_id (done_job now r x) = rv_id x" "rv_kind (done_job now r x) = rv_kind x"
  "rv_target (done_job now r x) = rv_target x" "rv_amount (done_job now r x) = rv_amount x"
  by (simp_all add: done_job_def claimed_job_def split: sum.splits)

lemma claim_cases:
  "q_ClaimDeletedAccountReversal (now + reversalLease) now locked d = Inl e \<Longrightarrow> e = ErrNoRows"
  "q_ClaimDeletedAccountReversal (now + reversalLease) now locked d = Inr (job, d') \<Longrightarrow>
     \<exists>due. due \<in> set (db_reversals d) \<and> rv_completed due = None \<and> rv_available due \<le> now \<and> rv_attempts due < 10 \<and>
       job = claimed_job now due \<and>
       d' = d\<lparr>db_reversals := update_rows (\<lambda>r. rv_id r = rv_id due) (claimed_job now) (db_reversals d)\<rparr>"
  by (auto simp: q_ClaimDeletedAccountReversal_def rbind_eq_Inl rbind_eq_Inr Let_def claimed_job_def[abs_def] first_by_None
      dest: first_by_in)

lemma RunNext_Inr:
  assumes "RunNext gateway locked now s = (Inr b, t)"
  obtains (idle) "\<not> b" "t = s"
  | (ran) due r u where "b" "due \<in> set (db_reversals (st_db s))" "rv_completed due = None" "rv_attempts due < 10"
      "reverse gateway (claimed_job now due)
        (s\<lparr>st_db := (st_db s)\<lparr>db_reversals := update_rows (\<lambda>r. rv_id r = rv_id due) (claimed_job now) (db_reversals (st_db s))\<rparr>\<rparr>)
        = (r, u)"
      "st_gw t = st_gw u"
      "st_db t = (st_db s)\<lparr>db_reversals := update_rows (\<lambda>r. rv_id r = rv_id due) (done_job now r) (db_reversals (st_db s))\<rparr>"
proof (cases "q_ClaimDeletedAccountReversal (now + reversalLease) now locked (st_db s)")
  case (Inl e)
  with claim_cases(1)[OF Inl] assms have "\<not> b \<and> t = s"
    by (simp add: RunNext_def sbind_def stry_def supdate_def sreturn_def)
  then show thesis using idle by blast
next
  case (Inr p)
  obtain job d' where p: "p = (job, d')" by (cases p)
  obtain due where due: "due \<in> set (db_reversals (st_db s))" "rv_completed due = None" "rv_attempts due < 10"
    and job: "job = claimed_job now due"
    and d': "d' = (st_db s)\<lparr>db_reversals := update_rows (\<lambda>r. rv_id r = rv_id due) (claimed_job now) (db_reversals (st_db s))\<rparr>"
    using claim_cases(2)[OF Inr[unfolded p]] by auto
  obtain r u where run: "reverse gateway job (s\<lparr>st_db := d'\<rparr>) = (r, u)" by fastforce
  have u: "st_db u = d'" using reverse_db[OF run] by simp
  have "sbind (case r of
        Inl err \<Rightarrow> swrite (q_FailDeletedAccountReversal (rv_id job) (now + reversalBackoff) (eventFailure err))
      | Inr _ \<Rightarrow> swrite (q_CompleteDeletedAccountReversal (rv_id job) now)) (\<lambda>_. sreturn True) u = (Inr b, t)"
    using assms run by (simp add: RunNext_def sbind_def stry_def supdate_def Inr p)
  then have "b" "st_gw t = st_gw u" and t: "st_db t = d'\<lparr>db_reversals := update_rows (\<lambda>r. rv_id r = rv_id due)
      (case r of Inl err \<Rightarrow> (\<lambda>x. x\<lparr>rv_available := now + reversalBackoff, rv_error := Some (eventFailure err)\<rparr>)
       | Inr _ \<Rightarrow> (\<lambda>x. x\<lparr>rv_completed := Some now, rv_error := None\<rparr>)) (db_reversals d')\<rparr>"
    using u job by (auto simp: q_FailDeletedAccountReversal_def q_CompleteDeletedAccountReversal_def claimed_job_def
        sbind_Inr split: sum.splits)
  moreover have "st_db t = (st_db s)\<lparr>db_reversals := update_rows (\<lambda>r. rv_id r = rv_id due) (done_job now r)
      (db_reversals (st_db s))\<rparr>"
    unfolding t d' by (cases r) (simp_all add: update_rows_update_rows done_job_def[abs_def] claimed_job_def)
  ultimately show thesis using ran due run unfolding job d' by blast
qed

section \<open>What the processor is asked\<close>

text \<open>The requests of a gateway, in the order they are made; the gateway itself is any.\<close>

datatype request = Refund string int string | Cancel string string

definition logged :: "'g ReversalGateway \<Rightarrow> ('g \<times> request list) ReversalGateway" where
  "logged g = \<lparr>rvg_RetrieveSubscription = (\<lambda>i (w, l). map_prod (\<lambda>r. r) (\<lambda>w. (w, l)) (rvg_RetrieveSubscription g i w)),
     rvg_RefundAfterDeletion = (\<lambda>i a k (w, l).
       map_prod (\<lambda>r. r) (\<lambda>w. (w, l @ [Refund i a k])) (rvg_RefundAfterDeletion g i a k w)),
     rvg_CancelSubscriptionNow = (\<lambda>i k (w, l).
       map_prod (\<lambda>r. r) (\<lambda>w. (w, l @ [Cancel i k])) (rvg_CancelSubscriptionNow g i k w))\<rparr>"

definition job_ok :: "reversal_row \<Rightarrow> bool" where
  "job_ok r \<longleftrightarrow> rv_kind r \<in> {''REFUND'', ''CANCEL''} \<and>
     (rv_kind r = ''REFUND'') = (case rv_amount r of None \<Rightarrow> False | Some a \<Rightarrow> a > 0)"

definition jobs_ok :: "reversal_row list \<Rightarrow> bool" where
  "jobs_ok rows \<longleftrightarrow> distinct (map rv_key rows) \<and> distinct (map rv_id rows) \<and> (\<forall>r\<in>set rows. job_ok r)"

definition requested_by :: "reversal_row \<Rightarrow> request" where
  "requested_by r = (if rv_kind r = ''REFUND'' then Refund (rv_target r) (case rv_amount r of None \<Rightarrow> 0 | Some a \<Rightarrow> a) (rv_id r)
     else Cancel (rv_target r) (cancel_key r))"

text \<open>
  The states a deployment passes through: reversals being queued while events are handled,
  whole runs of this worker, and everything else that neither queues nor reverses. A run commits
  its claim before it calls the processor and its outcome after, so it may stop or be overtaken
  in between: \<open>claimed\<close>, \<open>called\<close> and \<open>recorded\<close> are its parts, each free to be the last one and to
  interleave with every other step, also with a second run of a reversal whose lease lapsed.
\<close>

inductive reversing :: "'g ReversalGateway option \<Rightarrow> ('g \<times> request list) st \<Rightarrow> bool" for gateway where
  empty: "db_reversals (st_db s) = [] \<Longrightarrow> snd (st_gw s) = [] \<Longrightarrow> reversing gateway s"
| queue: "reversing gateway s \<Longrightarrow> queueDeletedAccountReversals checkout now s = (Inr u, t) \<Longrightarrow> reversing gateway t"
| run: "reversing gateway s \<Longrightarrow> RunNext (map_option logged gateway) locked now s = (Inr b, t) \<Longrightarrow> reversing gateway t"
| claimed: "reversing gateway s \<Longrightarrow> supdate (q_ClaimDeletedAccountReversal (now + reversalLease) now locked) s = (Inr job, t) \<Longrightarrow>
    reversing gateway t"
| called: "reversing gateway s \<Longrightarrow> job \<in> set (db_reversals (st_db s)) \<Longrightarrow> rv_attempts job > 0 \<Longrightarrow>
    reverse (map_option logged gateway) job s = (r, t) \<Longrightarrow> reversing gateway t"
| recorded: "reversing gateway s \<Longrightarrow> outcome \<in> {q_CompleteDeletedAccountReversal ident at, q_FailDeletedAccountReversal ident at failure} \<Longrightarrow>
    swrite outcome s = (Inr u, t) \<Longrightarrow> reversing gateway t"
| elsewhere: "reversing gateway s \<Longrightarrow> db_reversals (st_db t) = db_reversals (st_db s) \<Longrightarrow> snd (st_gw t) = snd (st_gw s) \<Longrightarrow>
    reversing gateway t"

lemma InsertReversal_jobs:
  assumes "q_InsertReversal r d = Inr d'" and "jobs_ok (db_reversals d)"
  shows "jobs_ok (db_reversals d') \<and> set (db_reversals d) \<subseteq> set (db_reversals d')"
  using assms by (auto simp: q_InsertReversal_def rbind_eq_Inr insert_row_def jobs_ok_def job_ok_def list_ex_iff
      split: if_splits) metis+

lemma insert_reversals_jobs:
  "insert_reversals rs d = Inr d' \<Longrightarrow> jobs_ok (db_reversals d) \<Longrightarrow>
     jobs_ok (db_reversals d') \<and> set (db_reversals d) \<subseteq> set (db_reversals d')"
proof (induction rs arbitrary: d)
  case (Cons r rs)
  then obtain i ids d1 where d1: "q_InsertReversal (r\<lparr>rv_id := i\<rparr>) (d\<lparr>db_ids := ids\<rparr>) = Inr d1" and "insert_reversals rs d1 = Inr d'"
    by (auto simp: rbind_eq_Inr split: list.splits)
  then show ?case using Cons.IH[of d1] Cons.prems(2) InsertReversal_jobs[OF d1] by auto
qed simp

lemma queue_jobs:
  assumes "queueDeletedAccountReversals checkout now s = (Inr u, t)" and "jobs_ok (db_reversals (st_db s))"
  shows "jobs_ok (db_reversals (st_db t)) \<and> set (db_reversals (st_db s)) \<subseteq> set (db_reversals (st_db t)) \<and> st_gw t = st_gw s"
proof -
  obtain d1 d2 where "insert_reversals d1 (st_db s) = Inr d2" and "\<exists>rs. insert_reversals rs d2 = Inr (st_db t)"
    and "st_gw t = st_gw s"
    using assms(1) unfolding queueDeletedAccountReversals_def q_QueueDeletedAccountRefunds_def
      q_QueueDeletedAccountCancellation_def
    by (elim sbindE) (simp, elim exE conjE, simp, blast)
  then show ?thesis using insert_reversals_jobs assms(2) by blast
qed

lemma reverse_requests:
  assumes "reverse (map_option logged gateway) job s = (r, t)"
  shows "snd (st_gw t) = snd (st_gw s) @ (if gateway = None then [] else [requested_by job])"
  using assms by (cases "st_gw s") (auto simp: reverse_def requested_by_def sbind_def stry_def sfail_def sreturn_def sgate_def
      logged_def map_prod_def split: option.splits if_splits prod.splits sum.splits)

text \<open>Claims and outcomes change nothing a request is made from.\<close>

lemma jobs_updated:
  assumes "\<And>x. requested_by (f x) = requested_by x" "\<And>x. job_ok (f x) = job_ok x" "\<And>x. rv_key (f x) = rv_key x" "\<And>x. rv_id (f x) = rv_id x"
  shows "jobs_ok (update_rows P f rows) = jobs_ok rows" and "requested_by ` set (update_rows P f rows) = requested_by ` set rows"
proof -
  let ?f = "\<lambda>x. if P x then f x else x"
  have same: "requested_by (?f x) = requested_by x" "job_ok (?f x) = job_ok x" "rv_key (?f x) = rv_key x" "rv_id (?f x) = rv_id x" for x
    using assms by simp_all
  show "jobs_ok (update_rows P f rows) = jobs_ok rows"
    unfolding update_rows_def jobs_ok_def set_map ball_simps map_map comp_def same ..
  show "requested_by ` set (update_rows P f rows) = requested_by ` set rows"
    unfolding update_rows_def set_map image_image same ..
qed

lemma jobs_marked:
  assumes "f \<in> {done_job now r, claimed_job now, \<lambda>x. x\<lparr>rv_completed := Some at, rv_error := None\<rparr>,
    \<lambda>x. x\<lparr>rv_available := at, rv_error := Some failure\<rparr>}"
  shows "jobs_ok (update_rows P f rows) = jobs_ok rows" and "requested_by ` set (update_rows P f rows) = requested_by ` set rows"
  using assms by (elim insertE emptyE; intro jobs_updated; simp add: requested_by_def job_ok_def rv_key_def cancel_key_def claimed_job_def)+

lemma reversing_requests:
  assumes "reversing gateway s"
  shows "jobs_ok (db_reversals (st_db s)) \<and> set (snd (st_gw s)) \<subseteq> requested_by ` set (db_reversals (st_db s))"
  using assms
proof induction
  case (empty s)
  then show ?case by (simp add: jobs_ok_def)
next
  case (queue s checkout now u t)
  then show ?case using queue_jobs[OF queue.hyps(2)] by (metis image_mono order_trans)
next
  case (run s locked now b t)
  from run.hyps(2) show ?case
  proof (cases rule: RunNext_Inr)
    case idle
    then show ?thesis using run.IH by simp
  next
    case (ran due r u)
    have "requested_by (claimed_job now due) = requested_by due" by (simp add: requested_by_def cancel_key_def claimed_job_def)
    then have "set (snd (st_gw t)) \<subseteq> insert (requested_by due) (set (snd (st_gw s)))"
      using reverse_requests[OF ran(5)] ran(6) by auto
    then have "set (snd (st_gw t)) \<subseteq> requested_by ` set (db_reversals (st_db s))" using run.IH ran(2) by blast
    then show ?thesis using run.IH jobs_marked[of "done_job now r" now r] ran(7) by simp
  qed
next
  case (claimed s now locked job t)
  then have "q_ClaimDeletedAccountReversal (now + reversalLease) now locked (st_db s) = Inr (job, st_db t)" and "st_gw t = st_gw s"
    by auto
  from this(1)[THEN claim_cases(2)] obtain due :: reversal_row where "st_db t = (st_db s)\<lparr>db_reversals := update_rows (\<lambda>r. rv_id r = rv_id due) (claimed_job now) (db_reversals (st_db s))\<rparr>"
    by (elim exE conjE) (rule that)
  then show ?case using \<open>st_gw t = st_gw s\<close> claimed.IH jobs_marked[of "claimed_job now" now] by simp
next
  case (called s job r t)
  then show ?case using reverse_db[OF called.hyps(4)] reverse_requests[OF called.hyps(4)] by (auto split: if_splits)
next
  case (recorded s outcome ident at failure u t)
  then have "\<exists>P f. st_db t = (st_db s)\<lparr>db_reversals := update_rows P f (db_reversals (st_db s))\<rparr> \<and>
      (f = (\<lambda>x. x\<lparr>rv_completed := Some at, rv_error := None\<rparr>) \<or> f = (\<lambda>x. x\<lparr>rv_available := at, rv_error := Some failure\<rparr>))"
    by (elim insertE emptyE) (auto simp: q_FailDeletedAccountReversal_def q_CompleteDeletedAccountReversal_def)
  then obtain P f where "st_db t = (st_db s)\<lparr>db_reversals := update_rows P f (db_reversals (st_db s))\<rparr>"
    and f: "f = (\<lambda>x. x\<lparr>rv_completed := Some at, rv_error := None\<rparr>) \<or> f = (\<lambda>x. x\<lparr>rv_available := at, rv_error := Some failure\<rparr>)"
    by blast
  moreover have "st_gw t = st_gw s" using recorded.hyps(3) by (auto simp: swrite_def split: sum.splits)
  ultimately show ?case using recorded.IH jobs_marked[of f _ _ at failure P "db_reversals (st_db s)"] f by auto
next
  case (elsewhere s t)
  then show ?case by simp
qed

lemma requested_by_Refund:
  assumes "jobs_ok rows" and "Refund target amount key \<in> requested_by ` set rows"
  obtains r where "r \<in> set rows" "rv_key r = (''REFUND'', target)" "rv_id r = key" "rv_amount r = Some amount" "0 < amount"
  using assms by (force simp: jobs_ok_def job_ok_def requested_by_def rv_key_def split: option.splits if_splits)

text \<open>
  C30. However reversals are queued, claimed, retried and interrupted, and whatever the processor
  answers, a payment is refunded at most once: all requests to refund one payment carry the
  same amount and the same idempotency key, requests for different payments carry different
  keys, and every amount is positive.
\<close>

theorem reversal_refunds_once:
  assumes "reversing gateway s" and "Refund target amount key \<in> set (snd (st_gw s))"
    and "Refund target' amount' key' \<in> set (snd (st_gw s))"
  shows "0 < amount \<and> (target = target' \<longleftrightarrow> key = key') \<and> (target = target' \<longrightarrow> amount = amount')"
proof -
  let ?rows = "db_reversals (st_db s)"
  have ok: "jobs_ok ?rows" and log: "set (snd (st_gw s)) \<subseteq> requested_by ` set ?rows"
    using reversing_requests[OF assms(1)] by simp_all
  obtain r where r: "r \<in> set ?rows" "rv_key r = (''REFUND'', target)" "rv_id r = key" "rv_amount r = Some amount" "0 < amount"
    using requested_by_Refund[OF ok] log assms(2) by blast
  obtain r' where r': "r' \<in> set ?rows" "rv_key r' = (''REFUND'', target')" "rv_id r' = key'" "rv_amount r' = Some amount'"
    using requested_by_Refund[OF ok] log assms(3) by blast
  have "rv_key r = rv_key r' \<longleftrightarrow> r = r'" "rv_id r = rv_id r' \<longleftrightarrow> r = r'"
    using ok r(1) r'(1) by (auto simp: jobs_ok_def distinct_map dest: inj_onD)
  then show ?thesis using r r' by auto
qed

definition sample_deletion_st :: "(unit \<times> request list) st" where
  "sample_deletion_st = \<lparr>st_db = (st_db sample_gift_st)\<lparr>db_ids := [''r1'', ''r2''],
     db_deletions := [\<lparr>dl_donor = gr_donor sample_gift_row, dl_deleted_at = 0\<rparr>]\<rparr>, st_gw = ((), []), st_seen = []\<rparr>"

text \<open>A processor that never answers.\<close>

definition deaf_gateway :: "unit ReversalGateway" where
  "deaf_gateway = \<lparr>rvg_RetrieveSubscription = (\<lambda>_ w. (Inl ErrProcessorUnavailable, w)),
     rvg_RefundAfterDeletion = (\<lambda>_ _ _ w. (Inl ErrProcessorUnavailable, w)),
     rvg_CancelSubscriptionNow = (\<lambda>_ _ w. (Inl ErrProcessorUnavailable, w))\<rparr>"

definition sample_queued :: "(unit \<times> request list) st" where
  "sample_queued = snd (queueDeletedAccountReversals (gr_checkout sample_gift_row) (of_unix 2000) sample_deletion_st)"

definition sample_reversing :: "(unit \<times> request list) st" where
  "sample_reversing = snd (RunNext (Some (logged deaf_gateway)) [] (of_unix 2000) sample_queued)"

theorem reversal_refunds_once_witness:
  "Refund ''pi_1'' 500 ''r1'' \<in> set (snd (st_gw sample_reversing)) \<and> (0::int) < 500"
proof -
  have a: "fst (queueDeletedAccountReversals (gr_checkout sample_gift_row) (of_unix 2000) sample_deletion_st) = Inr ()"
    and b: "fst (RunNext (Some (logged deaf_gateway)) [] (of_unix 2000) sample_queued) = Inr True"
    and c: "snd (st_gw sample_reversing) = [Refund ''pi_1'' 500 ''r1'']" by code_simp+
  have "reversing (Some deaf_gateway) sample_deletion_st"
    by (rule reversing.empty) (simp_all add: sample_deletion_st_def sample_gift_st_def sample_st_def empty_db_def)
  then have "reversing (Some deaf_gateway) sample_queued"
    unfolding sample_queued_def by (rule reversing.queue) (rule run_fst[OF a])
  then have "reversing (Some deaf_gateway) sample_reversing"
    unfolding sample_reversing_def by (rule reversing.run) (simp only: option.map, rule run_fst[OF b])
  moreover have d: "Refund ''pi_1'' 500 ''r1'' \<in> set (snd (st_gw sample_reversing))" by (simp add: c)
  ultimately show ?thesis using reversal_refunds_once[OF _ d d] d by blast
qed

section \<open>The worker does not spin\<close>

definition job_budget :: "reversal_row \<Rightarrow> nat" where
  "job_budget r = (if rv_completed r = None then nat (10 - rv_attempts r) else 0)"

definition reversal_budget :: "'g st \<Rightarrow> nat" where
  "reversal_budget s = sum_list (map job_budget (db_reversals (st_db s)))"

lemma RunNext_budget:
  assumes "RunNext gateway locked now s = (Inr True, t)"
  shows "reversal_budget t < reversal_budget s"
  using assms
proof (cases rule: RunNext_Inr)
  case (ran due r u)
  have "sum_list (map job_budget (update_rows (\<lambda>x. rv_id x = rv_id due) (done_job now r) (db_reversals (st_db s)))) <
      sum_list (map job_budget (db_reversals (st_db s)))"
    using ran(2-4) by (intro sum_list_update_rows_less[of due])
      (auto simp: job_budget_def done_job_def claimed_job_def split: sum.splits)
  then show ?thesis using ran(7) by (simp add: reversal_budget_def)
qed simp

interpretation reversal_queue: retry_queue "\<lambda>(locked, now). RunNext gateway locked now" reversal_budget for gateway
proof unfold_locales
  fix a :: "string list \<times> time" and s t :: "'a st"
  show "(case a of (locked, now) \<Rightarrow> RunNext gateway locked now) s = (Inr True, t) \<Longrightarrow> reversal_budget t < reversal_budget s"
    by (cases a) (simp add: RunNext_budget)
  show "(case a of (locked, now) \<Rightarrow> RunNext gateway locked now) s = (Inr False, t) \<Longrightarrow> reversal_budget t \<le> reversal_budget s"
    by (cases a) (auto elim: RunNext_Inr)
qed

text \<open>
  C31. The worker gives up: however long it is polled, with whatever clock and whatever other
  workers hold, and however the processor behaves, it acts at most ten times for each reversal
  that was open at the start.
\<close>

theorem reversals_bounded:
  assumes "\<And>r. r \<in> set (db_reversals (st_db s)) \<Longrightarrow> 0 \<le> rv_attempts r"
  shows "claims (\<lambda>(locked, now). RunNext gateway locked now) polls s \<le>
    10 * length (filter (\<lambda>r. rv_completed r = None) (db_reversals (st_db s)))"
proof -
  have "job_budget r \<le> (if rv_completed r = None then 10 else 0)" if "r \<in> set (db_reversals (st_db s))" for r
    using assms[OF that] by (auto simp: job_budget_def nat_le_iff)
  then have "reversal_budget s \<le> 10 * length (filter (\<lambda>r. rv_completed r = None) (db_reversals (st_db s)))"
    unfolding reversal_budget_def by (rule sum_list_budget)
  with reversal_queue.claims_bounded show ?thesis by (rule order_trans)
qed

theorem reversals_bounded_witness:
  "claims (\<lambda>(locked, now). RunNext (Some (logged deaf_gateway)) locked now)
     (map (\<lambda>n. ([], of_unix (2000 + 600 * n))) [0..40]) sample_queued \<le> 10 * 1"
proof -
  have rows: "map rv_attempts (db_reversals (st_db sample_queued)) = [0]"
    and one: "length (filter (\<lambda>r. rv_completed r = None) (db_reversals (st_db sample_queued))) = 1" by code_simp+
  have "0 \<le> rv_attempts r" if "r \<in> set (db_reversals (st_db sample_queued))" for r
    using that rows by (metis imageI list.set_map list.simps(15) empty_iff empty_set insertE order_refl)
  from reversals_bounded[of sample_queued "Some (logged deaf_gateway)" "map (\<lambda>n. ([], of_unix (2000 + 600 * n))) [0..40]", OF this]
  show ?thesis by (simp only: one)
qed

end
