(* ===== verification/Deployment.thy ===== *)
theory Deployment
  imports Event_Seats Sample_Payment Deleted_Accounts
begin

text \<open>
  The parts together: the payment worker recomputing projections as it goes, the reversal
  worker, the projection worker and everything that happens to events, on one database. What
  each part leaves alone, and the invariants that hold of the whole.
\<close>

section \<open>What the payment worker leaves alone\<close>

definition beside_of :: "db \<Rightarrow> projection_row list \<times> community_db" where
  "beside_of d = (map (\<lambda>r. r\<lparr>mp_next := 0\<rparr>) (db_projections d), db_community d)"

lemma beside_of_simps [simp]:
  "beside_of (d\<lparr>db_ids := i\<rparr>) = beside_of d"
  by (simp add: beside_of_def)

lemma insert_reversals_beside: "insert_reversals rs d = Inr d' \<Longrightarrow> beside_of d' = beside_of d"
proof (induction rs arbitrary: d)
  case (Cons r rs)
  then obtain i ids rows where "db_ids d = i # ids"
    and "insert_reversals rs (d\<lparr>db_ids := ids, db_reversals := rows\<rparr>) = Inr d'"
    by (auto simp: rbind_eq_Inr q_InsertReversal_def split: list.splits)
  with Cons.IH[of "d\<lparr>db_ids := ids, db_reversals := rows\<rparr>"] show ?case by (simp add: beside_of_def)
qed simp

lemma keeps_beside_NewID: "keeps (\<lambda>d. beside_of d = X) NewID"
  by (rule keepsI) auto

lemma recheck_beside:
  "beside_of (d\<lparr>db_projections := update_rows P (\<lambda>r. r\<lparr>mp_next := f r\<rparr>) (db_projections d)\<rparr>) = beside_of d"
  by (simp add: beside_of_def update_rows_def)

lemma keeps_beside_frames:
  "keeps (\<lambda>d. beside_of d = X) (swrite (q_BindSubscription i v))"
  "keeps (\<lambda>d. beside_of d = X) (swrite (q_RecordCheckoutSession i v x))"
  "keeps (\<lambda>d. beside_of d = X) (swrite (q_CancelAttempt i))"
  "keeps (\<lambda>d. beside_of d = X) (swrite (q_ReleaseReservation i))"
  "keeps (\<lambda>d. beside_of d = X) (swrite (q_ConfirmAmountChange i a))"
  "keeps (\<lambda>d. beside_of d = X) (swrite (q_SaveSubscription sr))"
  "keeps (\<lambda>d. beside_of d = X) (swrite (q_ScheduleReferralRecheck a i))"
  "keeps (\<lambda>d. beside_of d = X) (swrite (q_SavePaymentUpdate i y v z b))"
  "keeps (\<lambda>d. beside_of d = X) (swrite (q_InsertBillingObservation br))"
  "keeps (\<lambda>d. beside_of d = X) (swrite (q_QueueDeletedAccountRefunds a i))"
  "keeps (\<lambda>d. beside_of d = X) (swrite (q_QueueDeletedAccountCancellation a i))"
  "keeps (\<lambda>d. beside_of d = X) (swrite (q_InsertBillingPeriod pr))"
  "keeps (\<lambda>d. beside_of d = X) (swrite (q_MarkPeriodPaid i))"
  "keeps (\<lambda>d. beside_of d = X) (swrite (q_InsertGift gr))"
  "keeps (\<lambda>d. beside_of d = X) (swrite (q_EnrichGift i y z))"
  "keeps (\<lambda>d. beside_of d = X) (swrite (q_InsertRefund rr))"
  "keeps (\<lambda>d. beside_of d = X) (swrite (q_UpdateRefund i v a))"
  "keeps (\<lambda>d. beside_of d = X) (swrite (q_InsertRefundObservation ro))"
  "keeps (\<lambda>d. beside_of d = X) (swrite (q_QueueLoginEmail lr))"
  by (rule keeps_write;
      auto simp: q_BindSubscription_def q_RecordCheckoutSession_def q_CancelAttempt_def q_ReleaseReservation_def
        q_ConfirmAmountChange_def q_SaveSubscription_def q_ScheduleReferralRecheck_def q_SavePaymentUpdate_def
        q_InsertBillingObservation_def q_QueueDeletedAccountRefunds_def q_QueueDeletedAccountCancellation_def
        q_InsertBillingPeriod_def q_MarkPeriodPaid_def q_InsertGift_def q_EnrichGift_def q_InsertRefund_def
        q_UpdateRefund_def q_InsertRefundObservation_def q_QueueLoginEmail_def rbind_eq_Inr Let_def beside_of_def
        update_rows_def split: if_splits dest: insert_reversals_beside[unfolded beside_of_def])+

lemma keeps_beside_records:
  "keeps (\<lambda>d. beside_of d = X) (recordPeriod draft data expected paid)"
  "keeps (\<lambda>d. beside_of d = X) (recordGift draft p now)"
  "keeps (\<lambda>d. beside_of d = X) (recordRefund g c ev act now)"
  unfolding recordPeriod_def recordGift_def recordRefund_def queueLoginEmail_def Let_def
  by (intro keeps_rules keeps_beside_NewID keeps_beside_frames)+

lemma keeps_beside_method: "keeps (\<lambda>d. beside_of d = X) (supdate (q_RecordPaymentMethod r))"
  by (rule keeps_update_rows) (auto dest!: RecordPaymentMethod_Inr simp: beside_of_def)

interpretation beside_worker: worker_writes "\<lambda>d. beside_of d = X" for X
  by unfold_locales
    (auto intro: keeps_beside_NewID keeps_beside_frames keeps_beside_method keeps_beside_records
      dest: keepsD[OF keeps_beside_records(3), OF refl])

text \<open>So whatever the projections, up to when they are due, and the community's tables determine is kept as well.\<close>

lemma keeps_of_beside:
  assumes "\<And>X. keeps (\<lambda>d. beside_of d = X) m" and "\<And>d d'. beside_of d' = beside_of d \<Longrightarrow> P d \<Longrightarrow> P d'"
  shows "keeps P m"
proof (rule keepsI)
  fix s a t assume "P (st_db s)" and run: "m s = (Inr a, t)"
  have "beside_of (st_db t) = beside_of (st_db s)" by (rule keepsD[OF assms(1) refl run])
  then show "P (st_db t)" using \<open>P (st_db s)\<close> by (rule assms(2))
qed

lemma worker_calls_of_beside:
  assumes "\<And>d d'. beside_of d' = beside_of d \<Longrightarrow> P d \<Longrightarrow> P d'"
  shows "worker_calls TYPE('g) P"
proof unfold_locales
  fix g c e act now and s t :: "'g st" and u
  assume run: "recordRefund g c e act now s = (Inr u, t)" and "P (st_db s)"
  have "beside_of (st_db t) = beside_of (st_db s)" by (rule keepsD[OF keeps_beside_records(3) refl run])
  then show "P (st_db t)" using \<open>P (st_db s)\<close> by (rule assms)
qed (rule keeps_of_beside[OF _ assms], (rule beside_worker.writes | rule beside_worker.terminal), assumption+)+

lemma totals_ok_next: "totals_ok (map (\<lambda>r. r\<lparr>mp_next := 0\<rparr>) rows) = totals_ok rows"
proof -
  have "update_rows (\<lambda>_. True) (\<lambda>r. r\<lparr>mp_next := 0\<rparr>) rows = map (\<lambda>r. r\<lparr>mp_next := 0\<rparr>) rows" by (simp add: update_rows_def)
  then show ?thesis using totals_ok_update_rows[of "\<lambda>r. r\<lparr>mp_next := 0\<rparr>" "\<lambda>_. True" rows] by (simp add: key_of_def held_def)
qed

lemma beside_of_eq:
  assumes "beside_of d' = beside_of d"
  shows "db_community d' = db_community d" and "totals_ok (db_projections d) \<Longrightarrow> totals_ok (db_projections d')"
proof -
  have rows: "map (\<lambda>r. r\<lparr>mp_next := 0\<rparr>) (db_projections d') = map (\<lambda>r. r\<lparr>mp_next := 0\<rparr>) (db_projections d)"
    and "db_community d' = db_community d" using assms by (simp_all only: beside_of_def prod.inject)
  show "db_community d' = db_community d" by fact
  show "totals_ok (db_projections d')" if "totals_ok (db_projections d)"
    using that totals_ok_next[of "db_projections d'"] unfolding rows totals_ok_next by simp
qed

interpretation totals_worker: worker_calls "\<lambda>d. totals_ok (db_projections d)"
  by (rule worker_calls_of_beside) (rule beside_of_eq(2))

interpretation community_worker: worker_calls "\<lambda>d. db_community d = C" for C
  by (rule worker_calls_of_beside) (drule beside_of_eq(1), rule trans)

section \<open>What a refresh leaves alone\<close>

lemma facts_of_kept:
  assumes "facts_of d' = facts_of d"
  shows "ledger_ok d \<Longrightarrow> ledger_ok d'" "db_community d = C \<Longrightarrow> db_community d' = C" "db_events d = E \<Longrightarrow> db_events d' = E"
proof -
  have "same_ledger d d'" unfolding same_ledger_def using facts_of_eq[OF assms] by blast
  then show "ledger_ok d \<Longrightarrow> ledger_ok d'" by (simp only: ledger_ok_same)
qed (use facts_of_eq(4)[OF assms] facts_of_community[OF assms] in simp_all)

lemma keeps_refresh_facts:
  assumes "\<And>X. keeps (\<lambda>d. facts_of d = X) m"
  shows "keeps ledger_ok m" "keeps (\<lambda>d. db_community d = C) m" "keeps (\<lambda>d. db_events d = E) m"
  by (rule keeps_of_facts[OF assms], erule (1) facts_of_kept)+

lemmas keeps_recompute = keeps_refresh_facts[OF facts_refresh.keeps_refresh_call, folded recompute_def]
  totals_refresh.keeps_refresh_call[folded recompute_def]

lemmas keeps_batch = keeps_refresh_facts[OF facts_refresh.keeps_RefreshDueProjections] totals_refresh.keeps_RefreshDueProjections

section \<open>What events leave alone\<close>

text \<open>Donors, staff and the workers of events write the community's tables, notices, badges and the audit trail only.\<close>

definition core_of :: "db \<Rightarrow> db" where
  "core_of d = d\<lparr>db_ids := [], db_rec := empty_rec, db_community := empty_community,
     db_staff := \<lparr>sd_staff = [], sd_sessions = [], sd_audit = []\<rparr>\<rparr>"

lemma core_of_simps [simp]:
  "core_of (d\<lparr>db_ids := i\<rparr>) = core_of d" "core_of (d\<lparr>db_rec := r\<rparr>) = core_of d"
  "core_of (d\<lparr>db_community := c\<rparr>) = core_of d" "core_of (d\<lparr>db_staff := f\<rparr>) = core_of d"
  "core_of (with_places g d) = core_of d" "core_of (with_events h d) = core_of d"
  by (simp_all add: core_of_def with_places_def with_events_def)

lemma put_core: "put_message m d = Inr d' \<Longrightarrow> core_of d' = core_of d" "put_push n d = Inr d' \<Longrightarrow> core_of d' = core_of d"
  by (auto simp: put_message_def put_push_def rbind_eq_Inr Let_def)

lemma put_all_core: "put_all push_named put_push rs d = Inr d' \<Longrightarrow> core_of d' = core_of d"
  by (rule put_all_keeps[where P = "\<lambda>x. core_of x = core_of d"]) (auto dest: put_core)

lemma keeps_coreI: "(\<And>d d'. f d = Inr d' \<Longrightarrow> core_of d' = core_of d) \<Longrightarrow> keeps (\<lambda>d. core_of d = X) (swrite f)"
  by (rule keeps_write) auto

lemma keeps_core_updateI:
  "(\<And>d a d'. f d = Inr (a, d') \<Longrightarrow> core_of d' = core_of d) \<Longrightarrow> keeps (\<lambda>d. core_of d = X) (supdate f)"
  by (rule keeps_update_rows) auto

lemma keeps_core_NewID: "keeps (\<lambda>d. core_of d = X) NewID"
  by (rule keepsI) auto

lemma keeps_core_frames:
  "keeps (\<lambda>d. core_of d = X) (swrite (q_TouchSession ident at))"
  "keeps (\<lambda>d. core_of d = X) (swrite (q_PublishEvent ident at))"
  "keeps (\<lambda>d. core_of d = X) (swrite (q_CancelEvent ident at))"
  "keeps (\<lambda>d. core_of d = X) (swrite (q_InsertEvent e))"
  "keeps (\<lambda>d. core_of d = X) (swrite (q_UpdateEvent ident e at))"
  "keeps (\<lambda>d. core_of d = X) (swrite (q_AddEventGuest g))"
  "keeps (\<lambda>d. core_of d = X) (swrite (q_RemoveEventGuest ident donor))"
  "keeps (\<lambda>d. core_of d = X) (swrite (q_CheckInReservation ident donor at))"
  "keeps (\<lambda>d. core_of d = X) (swrite (q_UpsertReservation r))"
  "keeps (\<lambda>d. core_of d = X) (swrite (q_SetReservationStatus ident donor status at))"
  "keeps (\<lambda>d. core_of d = X) (swrite (q_PromoteReservation ident at))"
  "keeps (\<lambda>d. core_of d = X) (swrite (q_SaveEventAlertProgress ident final finished at))"
  "keeps (\<lambda>d. core_of d = X) (swrite (q_QueueEventPush n))"
  "keeps (\<lambda>d. core_of d = X) (swrite (q_InsertFinancialMessage m))"
  "keeps (\<lambda>d. core_of d = X) (swrite (q_InsertStaffAudit a))"
  by (rule keeps_coreI; auto simp: q_TouchSession_def q_PublishEvent_def q_CancelEvent_def q_InsertEvent_def q_UpdateEvent_def
      q_AddEventGuest_def q_RemoveEventGuest_def q_CheckInReservation_def q_UpsertReservation_def q_SetReservationStatus_def
      q_PromoteReservation_def q_SaveEventAlertProgress_def q_QueueEventPush_def q_InsertFinancialMessage_def q_InsertStaffAudit_def
      rbind_eq_Inr Let_def split: if_splits dest: put_core)+

lemma keeps_core_updates:
  "keeps (\<lambda>d. core_of d = X) (supdate (q_QueueEventAlertJob ident at))"
  "keeps (\<lambda>d. core_of d = X) (supdate (q_QueueEventReminders label at until))"
  "keeps (\<lambda>d. core_of d = X) (supdate (q_QueueEventAlertBatch low ident after at n))"
  "keeps (\<lambda>d. core_of d = X) (supdate (q_ReleaseEventReservations ident at))"
  by (rule keeps_core_updateI; auto simp: q_QueueEventAlertJob_def q_QueueEventReminders_def q_QueueEventAlertBatch_def
      q_ReleaseEventReservations_def rbind_eq_Inr Let_def split: if_splits dest: put_all_core)+

interpretation core_kept: notice_writes "\<lambda>d. core_of d = X" "TYPE('g)" for X
proof unfold_locales
  show "keeps (\<lambda>d. core_of d = X) (supdate (q_EarnBadge ebr) :: ('g, int) tx)" for ebr
    by (rule keeps_core_updateI) (auto simp: q_EarnBadge_def Let_def split: if_splits)
qed (rule keeps_core_NewID, auto intro!: keeps_coreI simp: q_InsertObservedEvent_def q_QueueBadgePush_def q_SaveRetentionMilestone_def
    q_InsertReferralCorrection_def rbind_eq_Inr Let_def split: if_splits list.splits dest: put_core)

lemmas keeps_core = keeps_core_NewID keeps_core_frames keeps_core_updates core_kept.keeps_awardBadges

lemma keeps_core_audited: "keeps (\<lambda>d. core_of d = X) (audited actor action target details at)"
  unfolding audited_def by (intro keeps_rules keeps_core)

lemma keeps_core_notify: "keeps (\<lambda>d. core_of d = X) (notify_place event donor category key expires at)"
  unfolding notify_place_def Let_def by (intro keeps_rules keeps_core)

lemma keeps_core_promote: "keeps (\<lambda>d. core_of d = X) (promoteWaitlistHead env e at)"
  unfolding promoteWaitlistHead_def by (intro keeps_rules keeps_core keeps_core_notify)

lemma keeps_core_fillSeats: "keeps (\<lambda>d. core_of d = X) (fillSeats env e at)"
proof (rule keepsI)
  fix s :: "'g st" and a t
  assume "core_of (st_db s) = X" and "fillSeats env e at s = (Inr a, t)"
  then show "core_of (st_db t) = X"
  proof (induction env e at s rule: fillSeats.induct)
    case (1 env e at s)
    obtain r u where step: "promoteWaitlistHead env e at s = (r, u)" by fastforce
    have "core_of (st_db u) = X" if "r = Inr b" for b
      using keepsD[OF keeps_core_promote 1(2)] step that by blast
    with 1(1)[OF _ step[symmetric]] 1(2,3) step show ?case
      by (auto simp: fillSeats.simps[of env e at s] split: if_splits sum.splits)
  qed
qed

lemma keeps_core_queries:
  "keeps (\<lambda>d. core_of d = X) (bookingOpen donor e at)" "keeps (\<lambda>d. core_of d = X) (canSeeInviteOnly donor e)"
  "keeps (\<lambda>d. core_of d = X) (may_reserve donor e at)" "keeps (\<lambda>d. core_of d = X) (seat_status e)"
  "keeps (\<lambda>d. core_of d = X) (find_event event missing)"
  unfolding may_reserve_def bookingOpen_def canSeeInviteOnly_def seat_status_def find_event_def Let_def
  by (intro keeps_rules)+

lemma keeps_core_release: "keeps (\<lambda>d. core_of d = X) (release_place env donor e status at)"
  unfolding release_place_def by (intro keeps_rules keeps_core keeps_core_fillSeats)

lemma keeps_core_donor:
  "keeps (\<lambda>d. core_of d = X) (Reserve (donorOwner c) event at)"
  "keeps (\<lambda>d. core_of d = X) (Reservation_Cancel env (donorOwner c) event at)"
  "keeps (\<lambda>d. core_of d = X) (releaseEventPlaces env donor at)"
  "keeps (\<lambda>d. core_of d = X) (CheckIn env rt secret (donorOwner c) token at)"
  unfolding Reserve_def Reservation_Cancel_def releaseEventPlaces_def CheckIn_def book_place_def
  by (intro keeps_donorWrite keeps_rules keeps_core keeps_core_queries keeps_core_release)+

lemma keeps_core_staff:
  "keeps (\<lambda>d. core_of d = X) (Event_Create env c i at)" "keeps (\<lambda>d. core_of d = X) (Event_Update env c ident i at)"
  "keeps (\<lambda>d. core_of d = X) (Event_Publish c ident at)" "keeps (\<lambda>d. core_of d = X) (Event_Cancel c ident at)"
  "keeps (\<lambda>d. core_of d = X) (AddGuest c event donor at)" "keeps (\<lambda>d. core_of d = X) (RemoveGuest c event donor at)"
  "keeps (\<lambda>d. core_of d = X) (CheckInAttendee rt c event donor at)"
  unfolding Event_Create_def Event_Update_def Event_Publish_def Event_Cancel_def AddGuest_def RemoveGuest_def CheckInAttendee_def Let_def
  by (intro keeps_staffWrite keeps_rules keeps_core keeps_core_audited keeps_core_notify keeps_core_fillSeats)+

lemma keeps_core_workers:
  "keeps (\<lambda>d. core_of d = X) (QueueDueReminders at)" "keeps (\<lambda>d. core_of d = X) (QueueNext low locked at)"
proof -
  have "keeps (\<lambda>d. core_of d = X) (queue_windows ws at n)" for ws n
    by (induction ws at n rule: queue_windows.induct) (auto intro: keeps_rules keeps_core)
  then show "keeps (\<lambda>d. core_of d = X) (QueueDueReminders at)" unfolding QueueDueReminders_def .
  show "keeps (\<lambda>d. core_of d = X) (QueueNext low locked at)" unfolding QueueNext_def by (intro keeps_rules keeps_core)
qed

lemma booking_step_core:
  assumes "booking_step env rt at s t"
  shows "core_of (st_db t) = core_of (st_db s)"
  using assms
  by cases (erule keepsD[OF keeps_core_donor(1) refl] keepsD[OF keeps_core_donor(2) refl] keepsD[OF keeps_core_donor(3) refl]
    keepsD[OF keeps_core_donor(4) refl] keepsD[OF keeps_core_staff(1) refl] keepsD[OF keeps_core_staff(2) refl]
    keepsD[OF keeps_core_staff(3) refl] keepsD[OF keeps_core_staff(4) refl] keepsD[OF keeps_core_staff(5) refl]
    keepsD[OF keeps_core_staff(6) refl] keepsD[OF keeps_core_staff(7) refl] keepsD[OF keeps_core_workers(1) refl]
    keepsD[OF keeps_core_workers(2) refl])+

lemma core_of_eq:
  assumes "core_of d' = core_of d"
  shows "same_ledger d d'" and "db_projections d' = db_projections d"
proof -
  have "db_gifts x = db_gifts (core_of x)" "db_periods x = db_periods (core_of x)" "db_refunds x = db_refunds (core_of x)"
    "db_projections x = db_projections (core_of x)" for x by (simp_all add: core_of_def)
  with assms show "same_ledger d d'" "db_projections d' = db_projections d" unfolding same_ledger_def by metis+
qed

end
