(* ===== verification/Sessions.thy ===== *)
theory Sessions
  imports Notices Access
begin

text \<open>
  Signing in and staying signed in (internal/store/sessions.go, account.go): sign-in proofs,
  browser and app sessions, the rotating refresh tokens of the app, and signing out. Tokens are
  drawn from the supply of the random source; \<open>HashToken\<close> and \<open>pgtype.UUID.Scan\<close> are parameters.
\<close>

record account_env =
  ae_Hash :: "string \<Rightarrow> string"
  ae_Scan :: "string \<Rightarrow> string option"

section \<open>Lifetimes\<close>

definition browserLifetime :: duration where "browserLifetime = 30 * 24 * Hour"
definition accessLifetime :: duration where "accessLifetime = 15 * Minute"
definition refreshIdle :: duration where "refreshIdle = 60 * 24 * Hour"
definition refreshLimit :: duration where "refreshLimit = 365 * 24 * Hour"
definition refreshGrace :: duration where "refreshGrace = Minute"
definition MaxDeviceName :: nat where "MaxDeviceName = 64"

text \<open>The device's name is given as its runes.\<close>

record Client =
  ci_App :: bool
  ci_Device :: "nat list"
  ci_Platform :: string
  ci_CompanyToken :: string
  ci_JourneyID :: string

record Tokens =
  tk_Access :: string
  tk_AccessTTL :: duration
  tk_Refresh :: string
  tk_RefreshTTL :: duration

section \<open>Statements\<close>

abbreviation sessions :: "db \<Rightarrow> session_row list" where "sessions d \<equiv> rt_sessions (db_rec d)"

definition with_sessions :: "(session_row list \<Rightarrow> session_row list) \<Rightarrow> db \<Rightarrow> db" where
  "with_sessions f d = d\<lparr>db_rec := (db_rec d)\<lparr>rt_sessions := f (sessions d)\<rparr>\<rparr>"

definition session_checks :: "session_row \<Rightarrow> bool" where
  "session_checks s \<longleftrightarrow> se_client s \<in> {''BROWSER'', ''APP''} \<and> se_platform s \<in> {None, Some ''IOS'', Some ''ANDROID''} \<and>
     (se_client s = ''APP'') = (se_family s \<noteq> None \<and> se_current s \<noteq> None \<and> se_refresh s \<noteq> None) \<and>
     (se_client s = ''APP'' \<or> se_device s = None \<and> se_platform s = None)"

definition q_InsertSession :: "session_row \<Rightarrow> db \<Rightarrow> store_error + db" where
  "q_InsertSession r d =
     (if \<not> session_checks r \<or> \<not> has_donor (se_donor r) d \<or>
         list_ex (\<lambda>x. se_id x = se_id r \<or> se_hash x = se_hash r \<or> se_family r \<noteq> None \<and> se_family x = se_family r) (sessions d)
      then Inl ErrConstraint else Inr (with_sessions (\<lambda>xs. xs @ [r]) d))"

definition q_RefreshingSession :: "string \<Rightarrow> db \<Rightarrow> store_error + (session_row \<times> bool)" where
  "q_RefreshingSession family d =
     rbind (one_row (\<lambda>s. se_family s = Some family) (sessions d)) (\<lambda>s.
     rbind (one_row (\<lambda>x. don_id x = se_donor s) (db_donors d)) (\<lambda>x. Inr (s, don_disabled x)))"

text \<open>Every revocation clears the session's push token.\<close>

definition revoked_at :: "time \<Rightarrow> session_row \<Rightarrow> session_row" where
  "revoked_at at s = s\<lparr>se_revoked := Some at, se_push := None\<rparr>"

definition q_RevokeSession :: "string \<Rightarrow> time \<Rightarrow> db \<Rightarrow> store_error + db" where
  "q_RevokeSession hash at d =
     Inr (with_sessions (update_rows (\<lambda>s. se_hash s = hash \<and> se_revoked s = None) (revoked_at at)) d)"

definition q_RevokeSessionByID :: "string \<Rightarrow> time \<Rightarrow> db \<Rightarrow> store_error + (int \<times> db)" where
  "q_RevokeSessionByID ident at d =
     Inr (int (length (filter (\<lambda>s. se_id s = ident \<and> se_revoked s = None) (sessions d))),
       with_sessions (update_rows (\<lambda>s. se_id s = ident \<and> se_revoked s = None) (revoked_at at)) d)"

definition q_RevokeOtherSessions :: "string \<Rightarrow> string \<Rightarrow> time \<Rightarrow> db \<Rightarrow> store_error + db" where
  "q_RevokeOtherSessions donor hash at d =
     Inr (with_sessions (update_rows (\<lambda>s. se_donor s = donor \<and> se_hash s \<noteq> hash \<and> se_revoked s = None) (revoked_at at)) d)"

definition q_RevokeAllSessions :: "string \<Rightarrow> time \<Rightarrow> db \<Rightarrow> store_error + db" where
  "q_RevokeAllSessions donor at d =
     Inr (with_sessions (update_rows (\<lambda>s. se_donor s = donor \<and> se_revoked s = None) (revoked_at at)) d)"

definition q_RotateSession :: "string \<Rightarrow> (session_row \<Rightarrow> session_row) \<Rightarrow> db \<Rightarrow> store_error + db" where
  "q_RotateSession ident f d =
     (if list_ex (\<lambda>s. se_id s = ident \<and> list_ex (\<lambda>x. se_id x \<noteq> ident \<and> se_hash x = se_hash (f s)) (sessions d)) (sessions d)
      then Inl ErrConstraint else Inr (with_sessions (update_rows (\<lambda>s. se_id s = ident) f) d))"

definition q_DonorSessionCredential :: "string \<Rightarrow> string \<Rightarrow> db \<Rightarrow> store_error + string" where
  "q_DonorSessionCredential ident donor d =
     rbind (one_row (\<lambda>s. se_id s = ident \<and> se_donor s = donor) (sessions d)) (\<lambda>s. Inr (se_hash s))"

definition q_DonorSessions :: "string \<Rightarrow> string \<Rightarrow> time \<Rightarrow> db \<Rightarrow> store_error + session_row list" where
  "q_DonorSessions donor current asOf d =
     Inr (take 50 (sort_key (\<lambda>s. (se_hash s \<noteq> current, - se_used s, se_id s))
       (filter (\<lambda>s. se_donor s = donor \<and> se_revoked s = None \<and>
          (case se_refresh s of None \<Rightarrow> se_expires s | Some t \<Rightarrow> t) > asOf) (sessions d))))"

definition q_RecordSessionEvent :: "session_event_row \<Rightarrow> db \<Rightarrow> store_error + db" where
  "q_RecordSessionEvent r d =
     (let A = db_account d
      in if list_ex (\<lambda>x. sv_id x = sv_id r) (av_events A) \<or> \<not> has_donor (sv_donor r) d \<or>
           \<not> list_ex (\<lambda>s. se_id s = sv_session r) (sessions d) \<or>
           sv_action r \<notin> {''SIGNED_IN'', ''REFRESH_REUSED'', ''SIGNED_OUT_SESSION'', ''SIGNED_OUT_OTHERS'', ''SIGNED_OUT_EVERYWHERE''}
         then Inl ErrConstraint else Inr (d\<lparr>db_account := A\<lparr>av_events := av_events A @ [r]\<rparr>\<rparr>))"

definition q_BindAnalyticsJourney :: "string \<Rightarrow> string \<Rightarrow> db \<Rightarrow> store_error + db" where
  "q_BindAnalyticsJourney journey donor d =
     (let A = db_account d
      in Inr (d\<lparr>db_account := A\<lparr>av_journeys := update_rows (\<lambda>j. jo_journey j = journey \<and> jo_donor j = None)
           (\<lambda>j. j\<lparr>jo_donor := Some donor\<rparr>) (av_journeys A)\<rparr>\<rparr>))"

definition q_CompanyTouchByToken :: "string \<Rightarrow> db \<Rightarrow> store_error + company_touch_row" where
  "q_CompanyTouchByToken hash d = one_row (\<lambda>t. ct_hash t = hash) (av_company_touches (db_account d))"

definition q_BindDonorCompanyCode :: "string \<Rightarrow> string \<Rightarrow> db \<Rightarrow> store_error + db" where
  "q_BindDonorCompanyCode donor code d =
     Inr (d\<lparr>db_donors := update_rows (\<lambda>x. don_id x = donor \<and> don_company x = None) (\<lambda>x. x\<lparr>don_company := Some code\<rparr>) (db_donors d)\<rparr>)"

definition q_PartnerByCompanyCode :: "string \<Rightarrow> db \<Rightarrow> store_error + string" where
  "q_PartnerByCompanyCode code d =
     rbind (one_row (\<lambda>c. cp_code c = Some code \<and> cp_approved c \<noteq> None) (av_companies (db_account d))) (\<lambda>c. Inr (cp_id c))"

definition q_UpsertEmployeeLink :: "string \<Rightarrow> string \<Rightarrow> time \<Rightarrow> db \<Rightarrow> store_error + db" where
  "q_UpsertEmployeeLink donor partner at d =
     (let C = db_community d
      in rbind (insert_row (has_donor donor d) (\<lambda>e. em_donor e = donor) (\<lambda>_. False)
           \<lparr>em_donor = donor, em_partner = partner, em_team = None, em_enrolled = at\<rparr> (cm_employees C))
           (\<lambda>rows. Inr (d\<lparr>db_community := C\<lparr>cm_employees := rows\<rparr>\<rparr>)))"

definition q_LoginLink :: "string \<Rightarrow> db \<Rightarrow> store_error + link_row" where
  "q_LoginLink hash d = one_row (\<lambda>l. lk_hash l = hash) (av_links (db_account d))"

definition with_links :: "(link_row list \<Rightarrow> link_row list) \<Rightarrow> db \<Rightarrow> db" where
  "with_links f d = d\<lparr>db_account := (db_account d)\<lparr>av_links := f (av_links (db_account d))\<rparr>\<rparr>"

definition q_RedeemLoginLink :: "string \<Rightarrow> time \<Rightarrow> db \<Rightarrow> store_error + (string \<times> db)" where
  "q_RedeemLoginLink ident at d =
     (let open' = (\<lambda>l. lk_id l = ident \<and> lk_consumed l = None \<and> lk_expires l > at)
      in if \<not> list_ex open' (av_links (db_account d)) then Inl ErrNoRows
         else Inr (ident, with_links (update_rows open' (\<lambda>l. l\<lparr>lk_consumed := Some at\<rparr>)) d))"

definition q_ConsumeDonorLinks :: "string \<Rightarrow> time \<Rightarrow> db \<Rightarrow> store_error + db" where
  "q_ConsumeDonorLinks donor at d =
     Inr (with_links (update_rows (\<lambda>l. lk_donor l = donor \<and> lk_consumed l = None) (\<lambda>l. l\<lparr>lk_consumed := Some at\<rparr>)) d)"

definition q_MarkClaimed :: "string \<Rightarrow> time \<Rightarrow> db \<Rightarrow> store_error + db" where
  "q_MarkClaimed donor at d =
     Inr (d\<lparr>db_donors := update_rows (\<lambda>x. don_id x = donor \<and> don_claimed_at x = None) (\<lambda>x. x\<lparr>don_claimed_at := Some at\<rparr>) (db_donors d)\<rparr>)"

definition q_MarkPasswordReauthenticated :: "string \<Rightarrow> time \<Rightarrow> db \<Rightarrow> store_error + db" where
  "q_MarkPasswordReauthenticated hash at d =
     Inr (with_sessions (update_rows (\<lambda>s. se_hash s = hash) (\<lambda>s. s\<lparr>se_verified := Some at\<rparr>)) d)"

section \<open>Issuing\<close>

definition randomToken :: "('g, string) tx" where "randomToken = NewID"

definition refreshToken :: "string \<Rightarrow> ('g, string) tx" where
  "refreshToken family = sbind randomToken (\<lambda>secret. sreturn (family @ ''.'' @ secret))"

text \<open>\<open>unicode.IsSpace\<close>, and the categories Cc and Cf.\<close>

definition IsSpace :: "nat \<Rightarrow> bool" where
  "IsSpace r \<longleftrightarrow> r \<in> {9, 10, 11, 12, 13, 32, 0x85, 0xA0, 0x1680, 0x2028, 0x2029, 0x202F, 0x205F, 0x3000} \<or> 0x2000 \<le> r \<and> r \<le> 0x200A"

definition hidden_ranges :: "(nat \<times> nat) list" where
  "hidden_ranges = [(0, 0x1F), (0x7F, 0x9F), (0xAD, 0xAD), (0x600, 0x605), (0x61C, 0x61C), (0x6DD, 0x6DD), (0x70F, 0x70F), (0x890, 0x891),
     (0x8E2, 0x8E2), (0x180E, 0x180E), (0x200B, 0x200F), (0x202A, 0x202E), (0x2060, 0x2064), (0x2066, 0x206F), (0xFEFF, 0xFEFF),
     (0xFFF9, 0xFFFB), (0x110BD, 0x110BD), (0x110CD, 0x110CD), (0x13430, 0x1343F), (0x1BCA0, 0x1BCA3), (0x1D173, 0x1D17A),
     (0xE0001, 0xE0001), (0xE0020, 0xE007F)]"

definition hidden :: "nat \<Rightarrow> bool" where
  "hidden r \<longleftrightarrow> list_ex (\<lambda>(lo, hi). lo \<le> r \<and> r \<le> hi) hidden_ranges"

text \<open>\<open>strings.Fields\<close>, joined by a space, and \<open>strings.TrimSpace\<close>.\<close>

fun collapse :: "nat list \<Rightarrow> nat list" where
  "collapse [] = []"
| "collapse (r # rs) =
     (if IsSpace r then (case collapse rs of [] \<Rightarrow> [] | c # cs \<Rightarrow> if c = 32 then c # cs else 32 # c # cs) else r # collapse rs)"

definition joined_fields :: "nat list \<Rightarrow> nat list" where
  "joined_fields rs = dropWhile IsSpace (collapse rs)"

definition trim_space :: "nat list \<Rightarrow> nat list" where
  "trim_space rs = rev (dropWhile IsSpace (rev (dropWhile IsSpace rs)))"

definition device_runes :: "nat list \<Rightarrow> nat list" where
  "device_runes name =
     (let rs = joined_fields (filter (\<lambda>r. \<not> hidden r) name)
      in if length rs > MaxDeviceName then trim_space (take MaxDeviceName rs) else rs)"

definition deviceName :: "nat list \<Rightarrow> string option" where
  "deviceName name =
     (case device_runes name of [] \<Rightarrow> None | rs \<Rightarrow> Some (map char_of (concat (map utf8_encode rs))))"

definition sessionEvent :: "string \<Rightarrow> string \<Rightarrow> string \<Rightarrow> ('g, unit) tx" where
  "sessionEvent donor session action = sbind NewID (\<lambda>ident.
     swrite (q_RecordSessionEvent \<lparr>sv_id = ident, sv_donor = donor, sv_session = session, sv_action = action\<rparr>))"

definition bindCompanyCode :: "account_env \<Rightarrow> string \<Rightarrow> string \<Rightarrow> time \<Rightarrow> ('g, string) tx" where
  "bindCompanyCode env donor visitor now =
     (if visitor = [] then sreturn []
      else sbind (sread (\<lambda>d. no_rows_ok (q_CompanyTouchByToken (ae_Hash env visitor) d))) (\<lambda>found.
      case found of
        None \<Rightarrow> sreturn []
      | Some seen \<Rightarrow>
          if \<not> ct_expires seen > now then sreturn []
          else sbind (swrite (q_BindDonorCompanyCode donor (ct_code seen))) (\<lambda>_.
            sbind (sread (\<lambda>d. no_rows_ok (q_PartnerByCompanyCode (ct_code seen) d))) (\<lambda>partner.
            case partner of
              None \<Rightarrow> sreturn (ct_code seen)
            | Some partner \<Rightarrow> sbind (swrite (q_UpsertEmployeeLink donor partner now)) (\<lambda>_. sreturn (ct_code seen))))))"

text \<open>A new session and its tokens; \<open>dbnow\<close> is the transaction's time, the column's default.\<close>

definition new_session :: "account_env \<Rightarrow> string \<Rightarrow> Client \<Rightarrow> time \<Rightarrow> time \<Rightarrow> ('g, session_row \<times> Tokens) tx" where
  "new_session env donor client dbnow now =
     sbind NewID (\<lambda>ident.
     sbind randomToken (\<lambda>access.
     let session = \<lparr>se_id = ident, se_donor = donor, se_hash = ae_Hash env access, se_expires = now + browserLifetime, se_refresh = None,
           se_revoked = None, se_used = dbnow, se_push = None, se_client = ''BROWSER'', se_device = None, se_platform = None,
           se_created = dbnow, se_family = None, se_current = None, se_previous = None, se_refreshed = None, se_verified = None\<rparr>
     in if ci_App client
        then sbind randomToken (\<lambda>family.
          sbind (refreshToken family) (\<lambda>refresh.
          sreturn (session\<lparr>se_client := ''APP'', se_device := deviceName (ci_Device client), se_expires := now + accessLifetime,
              se_platform := (if ci_Platform client \<noteq> [] then Some (ci_Platform client) else None),
              se_family := Some (ae_Hash env family), se_current := Some (ae_Hash env refresh), se_refresh := Some (now + refreshIdle)\<rparr>,
            \<lparr>tk_Access = access, tk_AccessTTL = accessLifetime, tk_Refresh = refresh, tk_RefreshTTL = refreshIdle\<rparr>)))
        else sreturn (session, \<lparr>tk_Access = access, tk_AccessTTL = browserLifetime, tk_Refresh = [], tk_RefreshTTL = 0\<rparr>)))"

definition issueSession :: "account_env \<Rightarrow> string \<Rightarrow> Client \<Rightarrow> time \<Rightarrow> time \<Rightarrow> ('g, Tokens) tx" where
  "issueSession env donor client dbnow now =
     sbind (new_session env donor client dbnow now) (\<lambda>(session, tokens).
     sbind (swrite (q_InsertSession session)) (\<lambda>_.
     sbind (bindCompanyCode env donor (ci_CompanyToken client) now) (\<lambda>_.
     sbind (case ae_Scan env (ci_JourneyID client) of None \<Rightarrow> sreturn () | Some journey \<Rightarrow> swrite (q_BindAnalyticsJourney journey donor)) (\<lambda>_.
     sbind (sessionEvent donor (se_id session) ''SIGNED_IN'') (\<lambda>_.
     sreturn tokens)))))"

section \<open>Refreshing\<close>

definition rotated :: "account_env \<Rightarrow> string \<Rightarrow> string \<Rightarrow> string option \<Rightarrow> time option \<Rightarrow> time \<Rightarrow> session_row \<Rightarrow> session_row" where
  "rotated env access refresh previous refreshed now s =
     (let limit = se_created s + refreshLimit;
          expires = (if limit < now + refreshIdle then limit else now + refreshIdle);
          accessExpires = (if expires < now + accessLifetime then expires else now + accessLifetime)
      in s\<lparr>se_hash := ae_Hash env access, se_expires := accessExpires, se_current := Some (ae_Hash env refresh), se_previous := previous,
           se_refreshed := refreshed, se_refresh := Some expires, se_used := now\<rparr>)"

definition rotate :: "account_env \<Rightarrow> session_row \<Rightarrow> string \<Rightarrow> string option \<Rightarrow> time option \<Rightarrow> time \<Rightarrow> ('g, Tokens) tx" where
  "rotate env session family previous refreshed now =
     sbind randomToken (\<lambda>access.
     sbind (refreshToken family) (\<lambda>refresh.
     let new = rotated env access refresh previous refreshed now session
     in sbind (swrite (q_RotateSession (se_id session) (rotated env access refresh previous refreshed now))) (\<lambda>_.
        sreturn \<lparr>tk_Access = access, tk_AccessTTL = se_expires new - now, tk_Refresh = refresh,
          tk_RefreshTTL = (case se_refresh new of None \<Rightarrow> 0 | Some t \<Rightarrow> t - now)\<rparr>)))"

text \<open>What the presented token is to the session: the current one, the last one exchanged, in time, or a stale one.\<close>

definition exchange :: "string \<Rightarrow> session_row \<Rightarrow> time \<Rightarrow> (string option \<times> time option) option" where
  "exchange presented s now =
     (if presented = nullstr (se_current s) then Some (se_current s, Some now)
      else if presented = nullstr (se_previous s) \<and> (case se_refreshed s of None \<Rightarrow> False | Some t \<Rightarrow> now < t + refreshGrace)
      then Some (se_previous s, se_refreshed s)
      else None)"

definition refresh_session :: "account_env \<Rightarrow> string \<Rightarrow> string \<Rightarrow> time \<Rightarrow> ('g, Tokens option) tx" where
  "refresh_session env token family now =
     sbind (sread (\<lambda>d. no_rows_ok (q_RefreshingSession (ae_Hash env family) d))) (\<lambda>found.
     case found of
       None \<Rightarrow> sfail ErrDenied
     | Some (session, disabled) \<Rightarrow>
         if disabled \<or> se_revoked session \<noteq> None \<or> \<not> (case se_refresh session of None \<Rightarrow> False | Some t \<Rightarrow> t > now) then sfail ErrDenied
         else case exchange (ae_Hash env token) session now of
           Some (previous, refreshed) \<Rightarrow>
             sbind (rotate env session family previous refreshed now) (\<lambda>tokens. sreturn (Some tokens))
         | None \<Rightarrow>
             sbind (supdate (q_RevokeSessionByID (se_id session) now)) (\<lambda>_.
             sbind (sessionEvent (se_donor session) (se_id session) ''REFRESH_REUSED'') (\<lambda>_. sreturn None)))"

definition Refresh :: "account_env \<Rightarrow> string \<Rightarrow> time \<Rightarrow> ('g, Tokens) tx" where
  "Refresh env token now =
     (if CHR ''.'' \<notin> set token then sfail ErrDenied
      else sbind (BeginFunc (refresh_session env token (takeWhile (\<lambda>c. c \<noteq> CHR ''.'') token) now)) (\<lambda>tokens.
        case tokens of None \<Rightarrow> sfail ErrDenied | Some tokens \<Rightarrow> sreturn tokens))"

section \<open>Signing in with a proof, and out\<close>

text \<open>The proof is spent, with every other link of the donor, before anything is issued for it.\<close>

definition redeem_proof :: "account_env \<Rightarrow> string \<Rightarrow> time \<Rightarrow> ('g, donor_row) tx" where
  "redeem_proof env presented now =
     sbind (sread (\<lambda>d. no_rows_ok (q_LoginLink (ae_Hash env presented) d))) (\<lambda>found.
     case found of
       None \<Rightarrow> sfail ErrDenied
     | Some link \<Rightarrow>
         sbind (sread (q_LockDonor (lk_donor link))) (\<lambda>donor.
         sbind (sguard (\<not> don_disabled donor) ErrDenied) (\<lambda>_.
         sbind (stry (supdate (q_RedeemLoginLink (lk_id link) now))) (\<lambda>redeemed.
         sbind (case redeemed of Inl e \<Rightarrow> sfail (if e = ErrNoRows then ErrDenied else e) | Inr _ \<Rightarrow> sreturn ()) (\<lambda>_.
         sbind (swrite (q_ConsumeDonorLinks (don_id donor) now)) (\<lambda>_.
         sbind (swrite (q_MarkClaimed (don_id donor) now)) (\<lambda>_.
         sreturn donor)))))))"

definition claim :: "account_env \<Rightarrow> string \<Rightarrow> Client \<Rightarrow> time \<Rightarrow> time \<Rightarrow> ('g, Tokens \<times> donor_row) tx" where
  "claim env presented client dbnow now =
     sbind (redeem_proof env presented now) (\<lambda>donor.
     sbind (issueSession env (don_id donor) client dbnow now) (\<lambda>tokens.
     sbind (swrite (q_MarkPasswordReauthenticated (ae_Hash env (tk_Access tokens)) now)) (\<lambda>_.
     sreturn (tokens, donor))))"

definition ClaimAccount :: "account_env \<Rightarrow> runtime \<Rightarrow> string \<Rightarrow> string \<Rightarrow> Client \<Rightarrow> time \<Rightarrow> time \<Rightarrow> time \<Rightarrow> ('g, Tokens) tx" where
  "ClaimAccount env rt presented previous client dbnow now after = BeginFunc (
     sbind (claim env presented client dbnow now) (\<lambda>(issued, donor).
     sbind (refreshProjection rt (don_id donor) after) (\<lambda>_.
     sbind (swrite (q_RevokeSession (ae_Hash env previous) after)) (\<lambda>_.
     sreturn issued))))"

definition SignOut :: "account_env \<Rightarrow> string \<Rightarrow> time \<Rightarrow> ('g, unit) tx" where
  "SignOut env token now = swrite (q_RevokeSession (ae_Hash env token) now)"

record DeviceSession =
  ds_ID :: string
  ds_Client :: string
  ds_Platform :: "string option"
  ds_Label :: string
  ds_CreatedAt :: time
  ds_LastUsedAt :: time
  ds_Current :: bool

definition sessionLabel :: "session_row \<Rightarrow> string" where
  "sessionLabel row =
     (if se_client row = ''BROWSER'' then ''Web browser''
      else case se_device row of
        Some name \<Rightarrow> name
      | None \<Rightarrow> if se_platform row = Some ''IOS'' then ''iOS device''
          else if se_platform row = Some ''ANDROID'' then ''Android device'' else ''Mobile device'')"

definition listSessions :: "string \<Rightarrow> string \<Rightarrow> time \<Rightarrow> ('g, DeviceSession list) tx" where
  "listSessions donor hash now =
     sbind (sread (q_DonorSessions donor hash now)) (\<lambda>rows.
     sreturn (map (\<lambda>s. \<lparr>ds_ID = se_id s, ds_Client = se_client s, ds_Platform = se_platform s, ds_Label = sessionLabel s,
       ds_CreatedAt = se_created s, ds_LastUsedAt = se_used s, ds_Current = (se_hash s = hash)\<rparr>) rows))"

definition Sessions_list :: "string \<Rightarrow> time \<Rightarrow> ('g, DeviceSession list) tx" where
  "Sessions_list hash now = donorRead hash (\<lambda>d now. listSessions (don_id d) hash now) now"

definition sessionWrite :: "caller \<Rightarrow> (signedIn \<Rightarrow> time \<Rightarrow> ('g, 'a) tx) \<Rightarrow> time \<Rightarrow> ('g, 'a) tx" where
  "sessionWrite c fn now = BeginFunc (sbind (lockSignedIn c) (\<lambda>user. fn user now))"

definition SignOutSession :: "caller \<Rightarrow> string \<Rightarrow> time \<Rightarrow> ('g, DeviceSession list) tx" where
  "SignOutSession c ident now = sessionWrite c (\<lambda>user now.
     let donor = don_id (si_donor user) in
     sbind (sread (q_DonorSessionCredential ident donor)) (\<lambda>credential.
     sbind (sguard (credential \<noteq> cl_hash c) ErrCurrentSession) (\<lambda>_.
     sbind (supdate (q_RevokeSessionByID ident now)) (\<lambda>revoked.
     sbind (if revoked > 0 then sessionEvent donor ident ''SIGNED_OUT_SESSION'' else sreturn ()) (\<lambda>_.
     listSessions donor (cl_hash c) now))))) now"

definition SignOutOthers :: "caller \<Rightarrow> time \<Rightarrow> ('g, DeviceSession list) tx" where
  "SignOutOthers c now = sessionWrite c (\<lambda>user now.
     let donor = don_id (si_donor user) in
     sbind (swrite (q_RevokeOtherSessions donor (cl_hash c) now)) (\<lambda>_.
     sbind (sessionEvent donor (si_session user) ''SIGNED_OUT_OTHERS'') (\<lambda>_.
     listSessions donor (cl_hash c) now))) now"

definition SignOutEverywhere :: "caller \<Rightarrow> time \<Rightarrow> ('g, unit) tx" where
  "SignOutEverywhere c now = sessionWrite c (\<lambda>user now.
     sbind (swrite (q_RevokeAllSessions (don_id (si_donor user)) now)) (\<lambda>_.
     sessionEvent (don_id (si_donor user)) (si_session user) ''SIGNED_OUT_EVERYWHERE'')) now"

section \<open>What leaves the refresh tokens alone\<close>

type_synonym session_key = "string \<times> string option \<times> string option \<times> string option \<times> time option"

definition session_key :: "session_row \<Rightarrow> session_key" where
  "session_key x = (se_id x, se_family x, se_current x, se_previous x, se_refreshed x)"

abbreviation keys :: "db \<Rightarrow> session_key list" where
  "keys d \<equiv> map session_key (sessions d)"

lemma session_keys_update: "(\<And>x. session_key (f x) = session_key x) \<Longrightarrow> map session_key (update_rows P f rows) = map session_key rows"
  by (simp add: update_rows_def)

lemma session_key_kept [simp]:
  "session_key (revoked_at at x) = session_key x"
  "session_key (x\<lparr>se_used := u\<rparr>) = session_key x"
  "session_key (x\<lparr>se_verified := v\<rparr>) = session_key x"
  by (simp_all add: session_key_def revoked_at_def)

lemma sessions_with_sessions [simp]: "sessions (with_sessions f d) = f (sessions d)" "sessions (with_links g d) = sessions d"
  by (simp_all add: with_sessions_def with_links_def)

lemma keeps_keys_frames:
  "keeps (\<lambda>d. keys d = K) NewID"
  "keeps (\<lambda>d. keys d = K) (swrite (q_RevokeSession h at))"
  "keeps (\<lambda>d. keys d = K) (supdate (q_RevokeSessionByID i at))"
  "keeps (\<lambda>d. keys d = K) (swrite (q_RevokeOtherSessions i h at))"
  "keeps (\<lambda>d. keys d = K) (swrite (q_RevokeAllSessions i at))"
  "keeps (\<lambda>d. keys d = K) (swrite (q_RecordSessionEvent r))"
  "keeps (\<lambda>d. keys d = K) (swrite (q_BindAnalyticsJourney i h))"
  "keeps (\<lambda>d. keys d = K) (swrite (q_BindDonorCompanyCode i h))"
  "keeps (\<lambda>d. keys d = K) (swrite (q_UpsertEmployeeLink i h at))"
  "keeps (\<lambda>d. keys d = K) (supdate (q_RedeemLoginLink i at))"
  "keeps (\<lambda>d. keys d = K) (swrite (q_ConsumeDonorLinks i at))"
  "keeps (\<lambda>d. keys d = K) (swrite (q_MarkClaimed i at))"
  "keeps (\<lambda>d. keys d = K) (swrite (q_MarkPasswordReauthenticated h at))"
  "keeps (\<lambda>d. keys d = K) (swrite (q_TouchSession i at))"
proof -
  show "keeps (\<lambda>d. keys d = K) NewID" by (rule keepsI) auto
  show "keeps (\<lambda>d. keys d = K) (supdate (q_RevokeSessionByID i at))"
    by (rule keeps_update_rows) (auto simp: q_RevokeSessionByID_def session_keys_update)
  show "keeps (\<lambda>d. keys d = K) (supdate (q_RedeemLoginLink i at))"
    by (rule keeps_update_rows) (auto simp: q_RedeemLoginLink_def Let_def split: if_splits)
qed (rule keeps_write, auto simp: q_RevokeSession_def q_RevokeOtherSessions_def q_RevokeAllSessions_def q_RecordSessionEvent_def
    q_BindAnalyticsJourney_def q_BindDonorCompanyCode_def q_UpsertEmployeeLink_def q_ConsumeDonorLinks_def q_MarkClaimed_def
    q_MarkPasswordReauthenticated_def q_TouchSession_def rbind_eq_Inr Let_def session_keys_update
    split: if_splits)+

interpretation keys_refresh: refresh_writes "\<lambda>d. keys d = K" "TYPE('g)" for K
proof unfold_locales
  show "keeps (\<lambda>d. keys d = K) (supdate (q_EarnBadge ebr) :: ('g, int) tx)" for ebr
    by (rule keeps_update_rows) (auto simp: q_EarnBadge_def Let_def split: if_splits)
  show "keeps (\<lambda>d. keys d = K) (supdate (q_ApplyReferralDelta i x) :: ('g, int \<times> int) tx)" for i x
    by (rule keeps_update_rows) (auto simp: q_ApplyReferralDelta_def rbind_eq_Inr Let_def split: if_splits)
qed (rule keeps_keys_frames | auto intro!: keeps_write simp: q_InsertObservedEvent_def q_QueueBadgePush_def put_message_def put_push_def
    q_SaveRetentionMilestone_def q_InsertReferralCorrection_def q_SeedProjection_def q_SaveProjection_def
    q_DeferProjection_def rbind_eq_Inr Let_def split: if_splits list.splits)+

lemma keeps_keys_event: "keeps (\<lambda>d. keys d = K) (sessionEvent donor session action)"
  unfolding sessionEvent_def by (intro keeps_rules keeps_keys_frames)

lemma keeps_keys_company: "keeps (\<lambda>d. keys d = K) (bindCompanyCode env donor visitor now)"
  unfolding bindCompanyCode_def by (intro keeps_rules keeps_keys_frames)

lemma keeps_lockSignedIn:
  "(\<And>i a. keeps P (swrite (q_TouchSession i a) :: ('g, unit) tx)) \<Longrightarrow> keeps P (lockSignedIn c :: ('g, signedIn) tx)"
  unfolding lockSignedIn_def authenticate_def touch_def by (intro keeps_rules)

lemma keeps_keys_sign_out:
  "keeps (\<lambda>d. keys d = K) (SignOut env token now)"
  "keeps (\<lambda>d. keys d = K) (SignOutSession c ident now)"
  "keeps (\<lambda>d. keys d = K) (SignOutOthers c now)"
  "keeps (\<lambda>d. keys d = K) (SignOutEverywhere c now)"
  unfolding SignOut_def SignOutSession_def SignOutOthers_def SignOutEverywhere_def sessionWrite_def listSessions_def Let_def
  by (intro keeps_rules keeps_lockSignedIn keeps_keys_frames keeps_keys_event)+

section \<open>A refresh token is good for one exchange\<close>

text \<open>
  The hashes of the tokens exchanged so far and when, and the sessions' tokens: no exchanged
  token is anyone's current one, and the previous token of a session was exchanged no earlier
  than the session remembers.
\<close>

type_synonym exchange_log = "(string \<times> time) list"

definition key_ok :: "time \<Rightarrow> exchange_log \<Rightarrow> session_key \<Rightarrow> bool" where
  "key_ok clock log = (\<lambda>(ident, family, current, previous, refreshed).
     (family \<noteq> None \<longrightarrow> current \<noteq> None) \<and> (refreshed \<noteq> None \<longrightarrow> previous \<noteq> None) \<and>
     (\<forall>h. current = Some h \<longrightarrow> h \<notin> fst ` set log) \<and> (\<forall>h. previous = Some h \<longrightarrow> h \<in> fst ` set log) \<and>
     (\<forall>r. refreshed = Some r \<longrightarrow> r \<le> clock \<and> (\<forall>h t0. previous = Some h \<longrightarrow> (h, t0) \<in> set log \<longrightarrow> r \<le> t0)))"

definition current_of :: "session_key \<Rightarrow> string option" where "current_of k = fst (snd (snd k))"

definition apart :: "session_key list \<Rightarrow> bool" where
  "apart K \<longleftrightarrow> distinct (map fst K) \<and>
     (\<forall>k \<in> set K. \<forall>k' \<in> set K. current_of k = current_of k' \<longrightarrow> current_of k \<noteq> None \<longrightarrow> fst k = fst k')"

definition keys_ok :: "time \<Rightarrow> exchange_log \<Rightarrow> session_key list \<Rightarrow> bool" where
  "keys_ok clock log K \<longleftrightarrow> apart K \<and> (\<forall>k \<in> set K. key_ok clock log k)"

lemma distinct_fst_eq: "distinct (map fst K) \<Longrightarrow> k \<in> set K \<Longrightarrow> k' \<in> set K \<Longrightarrow> fst k = fst k' \<Longrightarrow> k = k'"
  by (metis prod.collapse eq_key_imp_eq_value)

lemma apart_rotated:
  assumes "apart K" and "Some h \<notin> current_of ` set K"
  shows "apart (update_rows (\<lambda>k. fst k = i) (\<lambda>(j, f, c, p, r). (j, f, Some h, q, u)) K)"
proof -
  define g :: "session_key \<Rightarrow> session_key" where "g k = (if fst k = i then (\<lambda>(j, f, c, p, r). (j, f, Some h, q, u)) k else k)" for k
  have g: "fst (g k) = fst k" "current_of (g k) = (if fst k = i then Some h else current_of k)" for k
    by (auto simp: current_of_def g_def split: prod.splits)
  have "\<forall>k \<in> set K. \<forall>k' \<in> set K. current_of (g k) = current_of (g k') \<longrightarrow> current_of (g k) \<noteq> None \<longrightarrow> fst k = fst k'"
    using assms unfolding g apart_def by (metis imageI)
  moreover have "map fst (map g K) = map fst K" using g(1) by simp
  ultimately show ?thesis
    using assms(1) unfolding apart_def update_rows_def g_def[symmetric] by (simp only: set_map ball_simps g simp_thms)
qed

lemma apart_added:
  assumes "apart K" and "fst k \<notin> fst ` set K" and "current_of k = None \<or> current_of k \<notin> current_of ` set K"
  shows "apart (K @ [k])"
proof -
  have "current_of x \<noteq> current_of k" if "x \<in> set K" "current_of k \<noteq> None" for x
    using that assms(3) by (metis imageI)
  then have "fst x = fst y" if "x \<in> set (K @ [k])" "y \<in> set (K @ [k])" "current_of x = current_of y" "current_of x \<noteq> None" for x y
  proof -
    have "x \<in> set K \<or> x = k" "y \<in> set K \<or> y = k" using that(1,2) by auto
    moreover have "fst x = fst y" if "x \<in> set K" "y \<in> set K"
      using assms(1) that \<open>current_of x = current_of y\<close> \<open>current_of x \<noteq> None\<close> unfolding apart_def by blast
    ultimately show ?thesis using that(3,4) \<open>\<And>x. x \<in> set K \<Longrightarrow> current_of k \<noteq> None \<Longrightarrow> current_of x \<noteq> current_of k\<close> by metis
  qed
  then show ?thesis using assms(1,2) unfolding apart_def by (intro conjI) (simp, blast)
qed

lemma key_ok_later: "key_ok clock log k \<Longrightarrow> clock \<le> now \<Longrightarrow> key_ok now log k"
  by (cases k) (auto simp: key_ok_def)

lemma key_ok_logged:
  assumes "key_ok clock log (i, f, c, p, r)" and "clock \<le> now" and "c \<noteq> Some h"
  shows "key_ok now (log @ [(h, now)]) (i, f, c, p, r)"
  using assms by (auto simp: key_ok_def image_Un)

text \<open>An exchange keeps the invariant, whether of the current token or, in time, of the previous one.\<close>

lemma keys_ok_exchanged:
  assumes ok: "keys_ok clock log K" and now: "clock \<le> now" and k: "(i, f, c, p, r) \<in> set K"
    and h': "h' \<notin> fst ` set log" "Some h' \<notin> current_of ` set K"
    and q: "c = Some h \<and> q = c \<and> u = Some now \<or> p = Some h \<and> q = p \<and> u = r"
  shows "keys_ok now (log @ [(h, now)]) (update_rows (\<lambda>k. fst k = i) (\<lambda>(j, f, c, p, r). (j, f, Some h', q, u)) K)"
proof -
  have apart: "apart K" and key: "\<And>k. k \<in> set K \<Longrightarrow> key_ok clock log k" using ok by (auto simp: keys_ok_def)
  have mine: "k = (i, f, c, p, r)" if "k \<in> set K" "fst k = i" for k
    using distinct_fst_eq[OF _ that(1) k] apart that(2) by (auto simp: apart_def)
  have others: "c2 \<noteq> Some h" if "(i2, f2, c2, p2, r2) \<in> set K" "i2 \<noteq> i" for i2 f2 c2 p2 r2
  proof (cases "c = Some h")
    case True
    then show ?thesis using apart that k unfolding apart_def by (auto simp: current_of_def)
  next
    case False
    then have "h \<in> fst ` set log" using q key[OF k] by (auto simp: key_ok_def)
    then show ?thesis using key[OF that(1)] by (auto simp: key_ok_def)
  qed
  have new: "key_ok now (log @ [(h, now)]) (i, f, Some h', q, u)"
  proof -
    have "h' \<noteq> h"
    proof (cases "c = Some h")
      case True
      then show ?thesis using h'(2) k by (force simp: current_of_def image_iff)
    next
      case False
      then have "h \<in> fst ` set log" using q key[OF k] by (auto simp: key_ok_def)
      then show ?thesis using h'(1) by blast
    qed
    then show ?thesis using key[OF k] q h'(1) now by (auto simp: key_ok_def image_Un) (metis fst_conv imageI)+
  qed
  have "key_ok now (log @ [(h, now)]) k'" if "k' \<in> set (update_rows (\<lambda>k. fst k = i) (\<lambda>(j, f, c, p, r). (j, f, Some h', q, u)) K)" for k'
  proof -
    have "k' = (i, f, Some h', q, u) \<or> k' \<in> set K \<and> fst k' \<noteq> i"
      using that mine unfolding set_update_rows by fastforce
    then show ?thesis
    proof
      assume a: "k' \<in> set K \<and> fst k' \<noteq> i"
      obtain i2 f2 c2 p2 r2 where e: "k' = (i2, f2, c2, p2, r2)" by (cases k') auto
      then show ?thesis using key_ok_logged[OF _ now others] key a by auto
    qed (simp add: new)
  qed
  then show ?thesis using apart_rotated[OF apart h'(2)] by (simp add: keys_ok_def)
qed

lemma keys_rotated:
  "map session_key (update_rows (\<lambda>x. se_id x = i) (rotated env access refresh q u now) rows) =
    update_rows (\<lambda>k. fst k = i) (\<lambda>(j, f, c, p, r). (j, f, Some (ae_Hash env refresh), q, u)) (map session_key rows)"
  by (simp add: update_rows_def session_key_def rotated_def Let_def)

lemma keys_NewID [simp]: "NewID s = (Inr i, t) \<Longrightarrow> sessions (st_db t) = sessions (st_db s)"
  by auto

lemma rotate_keys:
  assumes "rotate env x family q u now s = (Inr tokens, t)"
  shows "keys (st_db t) =
    update_rows (\<lambda>k. fst k = se_id x) (\<lambda>(j, f, c, p, r). (j, f, Some (ae_Hash env (tk_Refresh tokens)), q, u)) (keys (st_db s))"
  using assms unfolding rotate_def refreshToken_def randomToken_def Let_def
  by (elim sbindE) (auto simp: q_RotateSession_def keys_rotated split: if_splits)

lemma Refresh_exchanged:
  assumes "Refresh env token now s = (Inr tokens, t)"
  obtains x q u where "x \<in> set (sessions (st_db s))" and "se_family x \<noteq> None" and "exchange (ae_Hash env token) x now = Some (q, u)"
    and "keys (st_db t) =
      update_rows (\<lambda>k. fst k = se_id x) (\<lambda>(j, f, c, p, r). (j, f, Some (ae_Hash env (tk_Refresh tokens)), q, u)) (keys (st_db s))"
proof -
  let ?family = "takeWhile (\<lambda>c. c \<noteq> CHR ''.'') token"
  have run: "refresh_session env token ?family now s = (Inr (Some tokens), t)"
    using assms unfolding Refresh_def by (auto simp: sbind_Inr BeginFunc_cases split: if_splits option.splits)
  then obtain found' where found': "no_rows_ok (q_RefreshingSession (ae_Hash env ?family) (st_db s)) = Inr found'"
    unfolding refresh_session_def by (elim sbindE) simp
  obtain x disabled where found: "no_rows_ok (q_RefreshingSession (ae_Hash env ?family) (st_db s)) = Inr (Some (x, disabled))"
    using run found' unfolding refresh_session_def by (cases found') (auto simp: sbind_Inr)
  obtain q u where x: "exchange (ae_Hash env token) x now = Some (q, u)" "rotate env x ?family q u now s = (Inr tokens, t)"
    using run found unfolding refresh_session_def by (auto simp: sbind_Inr split: if_splits option.splits)
  have "x \<in> set (sessions (st_db s)) \<and> se_family x = Some (ae_Hash env ?family)"
    using found one_row_in by (fastforce simp: q_RefreshingSession_def rbind_eq_Inr no_rows_ok_def split: sum.splits store_error.splits if_splits)
  then show thesis using that[OF _ _ x(1) rotate_keys[OF x(2)]] by simp
qed

lemma Refresh_denied_keys:
  assumes "Refresh env token now s = (Inl e, t)"
  shows "keys (st_db t) = keys (st_db s)"
proof (cases "BeginFunc (refresh_session env token (takeWhile (\<lambda>c. c \<noteq> CHR ''.'') token) now) s")
  case (Pair r u)
  show ?thesis
  proof (cases r)
    case (Inl e')
    have "t = u" if "CHR ''.'' \<in> set token" using assms that unfolding Refresh_def sbind_def by (simp add: Pair Inl)
    moreover have "t = s" if "CHR ''.'' \<notin> set token" using assms that unfolding Refresh_def by (simp add: sfail_def)
    ultimately show ?thesis using Pair Inl by (cases "CHR ''.'' \<in> set token") (auto simp: BeginFunc_cases)
  next
    case (Inr tokens)
    show ?thesis
    proof (cases "CHR ''.'' \<in> set token")
      case True
      then have none: "tokens = None" and u: "u = t"
        using assms Pair Inr by (auto simp: Refresh_def sfail_def sreturn_def sbind_def split: option.splits)
      have run: "refresh_session env token (takeWhile (\<lambda>c. c \<noteq> CHR ''.'') token) now s = (Inr None, t)"
        using Pair Inr none u by (auto simp: BeginFunc_cases)
      have "\<exists>(x :: session_row) n v. supdate (q_RevokeSessionByID (se_id x) now) s = (Inr n, v) \<and>
          sessionEvent (se_donor x) (se_id x) ''REFRESH_REUSED'' v = (Inr (), t)"
        using run unfolding refresh_session_def
        by (elim sbindE, auto simp: sbind_Inr simp del: supdate_Inr split: if_splits option.splits) blast
      then show ?thesis
        using keepsD[OF keeps_keys_frames(3) refl] keepsD[OF keeps_keys_event refl] by metis
    qed (use assms in \<open>auto simp: Refresh_def sfail_def\<close>)
  qed
qed

lemma new_session_key:
  assumes "new_session env donor client dbnow now s = (Inr (x, tokens), u)"
  shows "sessions (st_db u) = sessions (st_db s) \<and> se_previous x = None \<and> se_refreshed x = None \<and> (se_family x = None) = (se_current x = None) \<and>
    (se_current x = None \<or> se_current x = Some (ae_Hash env (tk_Refresh tokens)))"
  using assms unfolding new_session_def refreshToken_def randomToken_def Let_def
  by (elim sbindE) (auto elim!: sbindE split: if_splits)

lemma q_InsertSession_Inr:
  assumes "q_InsertSession x d = Inr d'"
  shows "d' = with_sessions (\<lambda>xs. xs @ [x]) d" and "se_id x \<notin> se_id ` set (sessions d)"
proof -
  show "d' = with_sessions (\<lambda>xs. xs @ [x]) d" using assms by (simp add: q_InsertSession_def split: if_split_asm)
  have "\<not> list_ex (\<lambda>y. se_id y = se_id x \<or> se_hash y = se_hash x \<or> se_family x \<noteq> None \<and> se_family y = se_family x) (sessions d)"
    using assms unfolding q_InsertSession_def by (metis Inl_Inr_False)
  then show "se_id x \<notin> se_id ` set (sessions d)" by (auto simp: list_ex_iff)
qed

lemma issueSession_keys:
  assumes "issueSession env donor client dbnow now s = (Inr tokens, t)"
  obtains i f c where "keys (st_db t) = keys (st_db s) @ [(i, f, c, None, None)]" and "i \<notin> se_id ` set (sessions (st_db s))"
    and "(f = None) = (c = None)" and "c = None \<or> c = Some (ae_Hash env (tk_Refresh tokens))"
proof -
  from assms obtain x u v where new: "new_session env donor client dbnow now s = (Inr (x, tokens), u)"
    and ins: "swrite (q_InsertSession x) u = (Inr (), v)"
    and rest: "sbind (bindCompanyCode env donor (ci_CompanyToken client) now) (\<lambda>_.
      sbind (case ae_Scan env (ci_JourneyID client) of None \<Rightarrow> sreturn () | Some journey \<Rightarrow> swrite (q_BindAnalyticsJourney journey donor)) (\<lambda>_.
      sbind (sessionEvent donor (se_id x) ''SIGNED_IN'') (\<lambda>_. sreturn tokens))) v = (Inr tokens, t)" (is "?rest v = _")
    unfolding issueSession_def by (elim sbindE[where m = "new_session env donor client dbnow now"] sbindE[where m = "swrite (q_InsertSession x)" for x])
      (auto simp: sbind_Inr)
  have kept: "keeps (\<lambda>d. keys d = K) ?rest" for K
    by (intro keeps_rules keeps_keys_frames keeps_keys_company keeps_keys_event)
  have t: "keys (st_db t) = keys (st_db v)" by (rule keepsD[OF kept refl rest])
  have v: "keys (st_db v) = keys (st_db u) @ [session_key x]" "se_id x \<notin> se_id ` set (sessions (st_db u))"
  proof -
    from ins obtain d where "q_InsertSession x (st_db u) = Inr d" "v = u\<lparr>st_db := d\<rparr>" by auto
    with q_InsertSession_Inr[OF this(1)] show "keys (st_db v) = keys (st_db u) @ [session_key x]" "se_id x \<notin> se_id ` set (sessions (st_db u))"
      by simp_all
  qed
  show thesis
  proof (rule that)
    show "keys (st_db t) = keys (st_db s) @ [(se_id x, se_family x, se_current x, None, None)]"
      using t v(1) new_session_key[OF new] by (simp add: session_key_def)
  qed (use v(2) new_session_key[OF new] in auto)
qed

lemma keys_ids: "fst ` set (keys d) = se_id ` set (sessions d)" "current_of ` set (keys d) = se_current ` set (sessions d)"
  by (auto simp: session_key_def current_of_def image_iff)

lemma keys_ok_issued:
  assumes "keys_ok clock log K" and "i \<notin> fst ` set K" and "(f = None) = (c = None)"
    and "c = None \<or> c = Some h" and "h \<notin> fst ` set log" and "Some h \<notin> current_of ` set K"
  shows "keys_ok clock log (K @ [(i, f, c, None, None)])"
proof -
  have "apart (K @ [(i, f, c, None, None)])"
  proof (rule apart_added)
    have "current_of (i, f, c, None, None) = c" by (simp add: current_of_def)
    then show "current_of (i, f, c, None, None) = None \<or> current_of (i, f, c, None, None) \<notin> current_of ` set K"
      using assms(4,6) by (cases c) simp_all
  qed (use assms in \<open>auto simp: keys_ok_def\<close>)
  moreover have "key_ok clock log (i, f, c, None, None)" using assms(3-5) by (auto simp: key_ok_def)
  ultimately show ?thesis using assms(1) by (simp add: keys_ok_def)
qed

lemma redeem_proof_sessions:
  assumes "redeem_proof env presented now s = (Inr donor, t)"
  shows "sessions (st_db t) = sessions (st_db s)"
  using assms unfolding redeem_proof_def
  by (elim sbindE) (auto simp: stry_Inr q_ConsumeDonorLinks_def q_MarkClaimed_def q_RedeemLoginLink_def Let_def
    elim!: sbindE split: option.splits sum.splits if_splits)

lemma ClaimAccount_keys:
  assumes "ClaimAccount env rt presented previous client dbnow now after s = (Inr tokens, t)"
  obtains i f c where "keys (st_db t) = keys (st_db s) @ [(i, f, c, None, None)]" and "i \<notin> se_id ` set (sessions (st_db s))"
    and "(f = None) = (c = None)" and "c = None \<or> c = Some (ae_Hash env (tk_Refresh tokens))"
proof -
  from assms obtain donor u v p w x y where redeem: "redeem_proof env presented now s = (Inr donor, u)"
    and issue: "issueSession env (don_id donor) client dbnow now u = (Inr tokens, v)"
    and mark: "swrite (q_MarkPasswordReauthenticated (ae_Hash env (tk_Access tokens)) now) v = (Inr (), w)"
    and refresh: "refreshProjection rt (don_id donor) after w = (Inr p, x)"
    and revoke: "swrite (q_RevokeSession (ae_Hash env previous) after) x = (Inr y, t)"
    unfolding ClaimAccount_def claim_def BeginFunc_cases by (auto elim!: sbindE simp del: swrite_Inr)
  have t: "keys (st_db t) = keys (st_db v)"
    using keepsD[OF keys_refresh.keeps_refreshProjection refl refresh] keepsD[OF keeps_keys_frames(2) refl revoke]
      keepsD[OF keeps_keys_frames(13) refl mark] by simp
  show thesis
  proof (rule issueSession_keys[OF issue])
    fix i f c
    assume "keys (st_db v) = keys (st_db u) @ [(i, f, c, None, None)]" and "i \<notin> se_id ` set (sessions (st_db u))"
      and "(f = None) = (c = None)" and "c = None \<or> c = Some (ae_Hash env (tk_Refresh tokens))"
    then show thesis using that t redeem_proof_sessions[OF redeem] by simp
  qed
qed

text \<open>
  The states reached by signing in, refreshing, signing out and whatever else leaves the
  tokens alone, with the exchanges so far. A token drawn from the random source has not been
  seen before; the servers' clocks do not go back.
\<close>

definition unseen :: "account_env \<Rightarrow> string \<Rightarrow> exchange_log \<Rightarrow> db \<Rightarrow> bool" where
  "unseen env token log d \<longleftrightarrow> ae_Hash env token \<notin> fst ` set log \<and> Some (ae_Hash env token) \<notin> se_current ` set (sessions d)"

inductive signing :: "account_env \<Rightarrow> time \<Rightarrow> exchange_log \<Rightarrow> 'g st \<Rightarrow> bool" for env where
  start: "sessions (st_db s) = [] \<Longrightarrow> signing env clock [] s"
| sign_in: "signing env clock log s \<Longrightarrow> issueSession env donor client dbnow now s = (Inr tokens, t) \<Longrightarrow>
    unseen env (tk_Refresh tokens) log (st_db s) \<Longrightarrow> signing env clock log t"
| claim_proof: "signing env clock log s \<Longrightarrow> ClaimAccount env rt presented previous client dbnow now after s = (Inr tokens, t) \<Longrightarrow>
    unseen env (tk_Refresh tokens) log (st_db s) \<Longrightarrow> signing env clock log t"
| exchanged: "signing env clock log s \<Longrightarrow> clock \<le> now \<Longrightarrow> Refresh env token now s = (Inr tokens, t) \<Longrightarrow>
    unseen env (tk_Refresh tokens) log (st_db s) \<Longrightarrow> signing env now (log @ [(ae_Hash env token, now)]) t"
| denied: "signing env clock log s \<Longrightarrow> Refresh env token now s = (Inl e, t) \<Longrightarrow> signing env clock log t"
| signed_out: "signing env clock log s \<Longrightarrow>
    SignOut env token now s = (Inr u, t) \<or> SignOutSession c ident now s = (Inr ds, t) \<or> SignOutOthers c now s = (Inr ds, t) \<or>
    SignOutEverywhere c now s = (Inr u, t) \<Longrightarrow> signing env clock log t"
| elsewhere: "signing env clock log s \<Longrightarrow> keys (st_db t) = keys (st_db s) \<Longrightarrow> signing env clock log t"

lemma exchange_keys:
  assumes "keys_ok clock log (keys d)" and "x \<in> set (sessions d)" and "se_family x \<noteq> None" and "exchange h x now = Some (q, u)"
  shows "se_current x = Some h \<and> q = se_current x \<and> u = Some now \<or>
    se_previous x = Some h \<and> q = se_previous x \<and> u = se_refreshed x \<and> (\<exists>r. u = Some r \<and> now < r + refreshGrace)"
proof -
  have "key_ok clock log (se_id x, se_family x, se_current x, se_previous x, se_refreshed x)"
    using assms(1,2) by (auto simp: keys_ok_def session_key_def)
  then show ?thesis using assms(3,4) by (auto simp: exchange_def key_ok_def split: if_splits option.splits)
qed

lemma signing_ok: "signing env clock log s \<Longrightarrow> keys_ok clock log (keys (st_db s))"
proof (induction rule: signing.induct)
  case (start s clock)
  then show ?case by (simp add: keys_ok_def apart_def)
next
  case (sign_in clock log s donor client dbnow now tokens t)
  show ?case by (rule issueSession_keys[OF sign_in(2)])
    (use keys_ok_issued sign_in.IH sign_in(3) in \<open>auto simp: unseen_def keys_ids simp del: set_map\<close>)
next
  case (claim_proof clock log s rt presented previous client dbnow now after tokens t)
  show ?case by (rule ClaimAccount_keys[OF claim_proof(2)])
    (use keys_ok_issued claim_proof.IH claim_proof(3) in \<open>auto simp: unseen_def keys_ids simp del: set_map\<close>)
next
  case (exchanged clock log s now token tokens t)
  obtain x q u where x: "x \<in> set (sessions (st_db s))" "se_family x \<noteq> None" "exchange (ae_Hash env token) x now = Some (q, u)"
    and t: "keys (st_db t) =
      update_rows (\<lambda>k. fst k = se_id x) (\<lambda>(j, f, c, p, r). (j, f, Some (ae_Hash env (tk_Refresh tokens)), q, u)) (keys (st_db s))"
    by (rule Refresh_exchanged[OF exchanged(3)])
  have k: "(se_id x, se_family x, se_current x, se_previous x, se_refreshed x) \<in> set (keys (st_db s))"
    using x(1) by (auto simp: session_key_def)
  show ?case unfolding t
    by (rule keys_ok_exchanged[OF exchanged.IH exchanged(2) k])
      (use exchanged(4) exchange_keys[OF exchanged.IH x] in \<open>auto simp: unseen_def keys_ids simp del: set_map\<close>)
next
  case (denied clock log s token now e t)
  then show ?case using Refresh_denied_keys[OF denied(2)] by simp
next
  case (signed_out clock log s token now u t c ident ds)
  have "keys (st_db t) = keys (st_db s)"
    using signed_out(2) keepsD[OF keeps_keys_sign_out(1) refl] keepsD[OF keeps_keys_sign_out(2) refl]
      keepsD[OF keeps_keys_sign_out(3) refl] keepsD[OF keeps_keys_sign_out(4) refl] by metis
  then show ?case using signed_out.IH by simp
next
  case (elsewhere clock log s t)
  then show ?case by simp
qed

text \<open>
  C37. A refresh token is good for one exchange: wherever sessions are opened, refreshed and
  closed, a token that was exchanged once is accepted again only within the minute of grace that
  lets a client whose answer was lost retry.
\<close>

theorem refresh_once:
  assumes "signing env clock log s" and "(ae_Hash env token, t0) \<in> set log"
    and "Refresh env token now s = (Inr tokens, t)"
  shows "now < t0 + refreshGrace"
proof (rule Refresh_exchanged[OF assms(3)])
  fix x q u
  assume x: "x \<in> set (sessions (st_db s))" "se_family x \<noteq> None" "exchange (ae_Hash env token) x now = Some (q, u)"
  have ok: "key_ok clock log (se_id x, se_family x, se_current x, se_previous x, se_refreshed x)"
    using signing_ok[OF assms(1)] x(1) by (auto simp: keys_ok_def session_key_def)
  have "ae_Hash env token \<in> fst ` set log" using assms(2) by force
  then have "se_current x \<noteq> Some (ae_Hash env token)" using ok by (auto simp: key_ok_def)
  then obtain r where r: "se_previous x = Some (ae_Hash env token)" "se_refreshed x = Some r" "now < r + refreshGrace"
    using exchange_keys[OF signing_ok[OF assms(1)] x] by auto
  then have "r \<le> t0" using ok assms(2) unfolding key_ok_def by simp
  with r(3) show ?thesis by simp
qed

definition sample_account :: account_env where
  "sample_account = \<lparr>ae_Hash = (\<lambda>token. ''#'' @ token), ae_Scan = (\<lambda>_. None)\<rparr>"

definition sample_app :: Client where
  "sample_app = \<lparr>ci_App = True, ci_Device = [], ci_Platform = ''IOS'', ci_CompanyToken = [], ci_JourneyID = []\<rparr>"

definition sample_account_st :: "unit st" where
  "sample_account_st = \<lparr>st_db = empty_db\<lparr>db_ids := map (\<lambda>c. [c]) ''abcdefghijklmnop'', db_donors := [sample_donor_row]\<rparr>, st_gw = (), st_seen = []\<rparr>"

definition sample_app_session :: session_row where
  "sample_app_session = \<lparr>se_id = ''a'', se_donor = ''d1'', se_hash = ''#b'', se_expires = accessLifetime, se_refresh = Some refreshIdle,
     se_revoked = None, se_used = 0, se_push = None, se_client = ''APP'', se_device = None, se_platform = Some ''IOS'', se_created = 0,
     se_family = Some ''#c'', se_current = Some ''#c.d'', se_previous = None, se_refreshed = None, se_verified = None\<rparr>"

definition sample_session_event :: session_event_row where
  "sample_session_event = \<lparr>sv_id = ''e'', sv_donor = ''d1'', sv_session = ''a'', sv_action = ''SIGNED_IN''\<rparr>"

definition sample_tables :: "string \<Rightarrow> session_row \<Rightarrow> unit st" where
  "sample_tables ids x = sample_account_st\<lparr>st_db := (st_db sample_account_st)\<lparr>db_ids := map (\<lambda>c. [c]) ids,
     db_rec := empty_rec\<lparr>rt_sessions := [x]\<rparr>, db_account := empty_account\<lparr>av_events := [sample_session_event]\<rparr>\<rparr>\<rparr>"

lemmas sample_eval = sample_account_def sample_app_def sample_account_st_def issueSession_def new_session_def randomToken_def refreshToken_def
  sessionEvent_def bindCompanyCode_def tx_defs NewID_def Let_def q_InsertSession_def session_checks_def with_sessions_def has_donor_def
  q_RecordSessionEvent_def empty_db_def empty_rec_def empty_account_def sample_donor_row_def deviceName_def device_runes_def joined_fields_def
  sample_tables_def sample_app_session_def sample_session_event_def Refresh_def refresh_session_def rotate_def rotated_def q_RotateSession_def
  q_RefreshingSession_def no_rows_ok_def one_row_def rbind_def exchange_def BeginFunc_def update_rows_def refreshLimit_def refreshIdle_def
  accessLifetime_def refreshGrace_def Hour_def Minute_def Second_def

lemma sample_signed_in:
  "issueSession sample_account ''d1'' sample_app 0 0 sample_account_st =
    (Inr \<lparr>tk_Access = ''b'', tk_AccessTTL = accessLifetime, tk_Refresh = ''c.d'', tk_RefreshTTL = refreshIdle\<rparr>,
     sample_tables ''fghijklmnop'' sample_app_session)"
  by (simp add: sample_eval)

abbreviation sample_rotated :: session_row where
  "sample_rotated \<equiv> rotated sample_account ''f'' ''c.g'' (Some ''#c.d'') (Some 7) 7 sample_app_session"

lemma sample_exchange:
  "Refresh sample_account ''c.d'' 7 (sample_tables ''fghijklmnop'' sample_app_session) =
    (Inr \<lparr>tk_Access = ''f'', tk_AccessTTL = accessLifetime, tk_Refresh = ''c.g'', tk_RefreshTTL = refreshIdle\<rparr>,
     sample_tables ''hijklmnop'' sample_rotated)"
  by (simp add: sample_eval)

lemma sample_refresh_again:
  "Refresh sample_account ''c.d'' (30 * Second) (sample_tables ''hijklmnop'' sample_rotated) =
    (Inr \<lparr>tk_Access = ''h'', tk_AccessTTL = accessLifetime, tk_Refresh = ''c.i'', tk_RefreshTTL = refreshIdle\<rparr>,
     sample_tables ''jklmnop'' (rotated sample_account ''h'' ''c.i'' (Some ''#c.d'') (Some 7) (30 * Second) sample_rotated))"
  by (simp add: sample_eval)

theorem refresh_once_witness:
  "fst (Refresh sample_account ''c.d'' (30 * Second) (sample_tables ''hijklmnop'' sample_rotated)) \<noteq> Inl ErrDenied \<and>
    30 * Second < 7 + refreshGrace"
proof -
  have s0: "signing sample_account 0 [] sample_account_st"
    by (rule signing.start) (simp add: sample_account_st_def empty_db_def empty_rec_def)
  have s1: "signing sample_account 0 [] (sample_tables ''fghijklmnop'' sample_app_session)"
    by (rule signing.sign_in[OF s0 sample_signed_in]) (simp add: unseen_def sample_account_st_def empty_db_def empty_rec_def)
  have s2: "signing sample_account 7 ([] @ [(ae_Hash sample_account ''c.d'', 7)]) (sample_tables ''hijklmnop'' sample_rotated)"
    by (rule signing.exchanged[OF s1 _ sample_exchange]) (simp_all add: unseen_def sample_eval)
  show ?thesis using refresh_once[OF s2 _ sample_refresh_again] sample_refresh_again by simp
qed

section \<open>A token used again ends its session\<close>

lemma sessionEvent_not_denied: "sessionEvent donor session action s = (Inl e, t) \<Longrightarrow> e \<noteq> ErrDenied"
  by (auto simp: sessionEvent_def sbind_def NewID_def swrite_def q_RecordSessionEvent_def Let_def split: list.splits if_splits)

lemma keeps_sessions_event: "keeps (\<lambda>d. sessions d = X \<and> db_donors d = D) (sessionEvent donor session action)"
  unfolding sessionEvent_def
  by (intro keeps_rules) (auto intro!: keepsI simp: q_RecordSessionEvent_def Let_def split: if_splits)

lemma refresh_session_reuse:
  assumes "q_RefreshingSession (ae_Hash env family) (st_db s) = Inr (x, False)" and "se_revoked x = None" and "se_refresh x = Some e" and "now < e"
    and "exchange (ae_Hash env token) x now = None"
  shows "refresh_session env token family now s =
    sbind (sessionEvent (se_donor x) (se_id x) ''REFRESH_REUSED'') (\<lambda>_. sreturn None)
      (s\<lparr>st_db := with_sessions (update_rows (\<lambda>r. se_id r = se_id x \<and> se_revoked r = None) (revoked_at now)) (st_db s)\<rparr>)"
  using assms unfolding refresh_session_def
  by (simp add: sbind_def sread_def no_rows_ok_def supdate_def q_RevokeSessionByID_def)

lemma takeWhile_family: "CHR ''.'' \<notin> set family \<Longrightarrow> takeWhile (\<lambda>c. c \<noteq> CHR ''.'') (family @ ''.'' @ secret) = family"
  by (subst takeWhile_append2) auto

lemma revoked_denied:
  assumes "q_RefreshingSession (ae_Hash env family) (st_db s) = Inr (x, b)" and "se_revoked x \<noteq> None" and "CHR ''.'' \<notin> set family"
  shows "fst (Refresh env (family @ ''.'' @ secret) now s) = Inl ErrDenied"
  using assms takeWhile_family[OF assms(3), of secret]
  by (simp add: Refresh_def refresh_session_def sbind_def sread_def no_rows_ok_def sfail_def BeginFunc_def)

text \<open>
  C38. Presenting a stale refresh token is taken as theft: the answer is a denial, yet the
  session is closed and its push token forgotten (the transaction commits), every other session
  stays as it is, and from then on no token of that family is accepted, the current one included.
\<close>

theorem Refresh_reuse:
  assumes family: "CHR ''.'' \<notin> set family" and found: "q_RefreshingSession (ae_Hash env family) (st_db s) = Inr (x, False)"
    and live: "se_revoked x = None" "se_refresh x = Some e" "now < e"
    and stale: "exchange (ae_Hash env (family @ ''.'' @ secret)) x now = None"
    and run: "Refresh env (family @ ''.'' @ secret) now s = (Inl ErrDenied, t)"
  shows "sessions (st_db t) = update_rows (\<lambda>r. se_id r = se_id x \<and> se_revoked r = None) (revoked_at now) (sessions (st_db s)) \<and>
    fst (Refresh env (family @ ''.'' @ other) later t) = Inl ErrDenied"
proof -
  let ?u = "s\<lparr>st_db := with_sessions (update_rows (\<lambda>r. se_id r = se_id x \<and> se_revoked r = None) (revoked_at now)) (st_db s)\<rparr>"
  obtain r v where event: "sessionEvent (se_donor x) (se_id x) ''REFRESH_REUSED'' ?u = (r, v)" by fastforce
  then have "refresh_session env (family @ ''.'' @ secret) family now s = (case r of Inl e \<Rightarrow> (Inl e, v) | Inr _ \<Rightarrow> (Inr None, v))"
    unfolding refresh_session_reuse[OF found live stale] by (simp add: sbind_def sreturn_def split: sum.splits)
  then have "r = Inr () \<and> v = t"
    using run sessionEvent_not_denied[of "se_donor x" "se_id x" "''REFRESH_REUSED''" ?u _ v] event
    unfolding Refresh_def takeWhile_family[OF family] sbind_def BeginFunc_def by (cases r) (auto simp: sfail_def)
  then have t: "sessions (st_db t) = sessions (st_db ?u) \<and> db_donors (st_db t) = db_donors (st_db s)"
    using keepsD[OF keeps_sessions_event _ event[unfolded \<open>r = Inr () \<and> v = t\<close>[THEN conjunct1]]] by (simp add: with_sessions_def)
  obtain y where x: "find (\<lambda>r. se_family r = Some (ae_Hash env family)) (sessions (st_db s)) = Some x"
    and y: "one_row (\<lambda>y. don_id y = se_donor x) (db_donors (st_db s)) = Inr y"
    using found by (auto simp: q_RefreshingSession_def rbind_eq_Inr one_row_Inr)
  have "find (\<lambda>r. se_family r = Some (ae_Hash env family)) (sessions (st_db t)) = Some (revoked_at now x)"
    using t x live(1) by (simp add: find_update_rows revoked_at_def)
  then have q: "q_RefreshingSession (ae_Hash env family) (st_db t) = Inr (revoked_at now x, don_disabled y)"
    using t y by (simp add: q_RefreshingSession_def one_row_def revoked_at_def rbind_def)
  show ?thesis using revoked_denied[OF q _ family, of other later] t by (simp add: revoked_at_def)
qed

lemma sample_reuse:
  "fst (Refresh sample_account ''c.d'' (2 * Minute) (sample_tables ''hijklmnop'' sample_rotated)) = Inl ErrDenied"
  "q_RefreshingSession ''#c'' (st_db (sample_tables ''hijklmnop'' sample_rotated)) = Inr (sample_rotated, False)"
  "exchange ''#c.d'' sample_rotated (2 * Minute) = None"
  "se_revoked sample_rotated = None" "se_refresh sample_rotated = Some (7 + refreshIdle)"
  by (simp_all add: sample_eval supdate_def q_RevokeSessionByID_def revoked_at_def)

theorem Refresh_reuse_witness:
  "fst (Refresh sample_account ''c.g'' (3 * Minute)
     (snd (Refresh sample_account ''c.d'' (2 * Minute) (sample_tables ''hijklmnop'' sample_rotated)))) = Inl ErrDenied"
proof -
  let ?s = "sample_tables ''hijklmnop'' sample_rotated"
  have "Refresh sample_account (''c'' @ ''.'' @ ''d'') (2 * Minute) ?s = (Inl ErrDenied, snd (Refresh sample_account ''c.d'' (2 * Minute) ?s))"
    using sample_reuse(1) by (simp add: prod_eq_iff)
  from Refresh_reuse[OF _ _ sample_reuse(4,5) _ _ this, of "''g''" "3 * Minute"] sample_reuse(2,3)
  show ?thesis by (simp add: sample_account_def refreshIdle_def Hour_def Minute_def Second_def)
qed

section \<open>A sign-in proof is spent once\<close>

lemma keeps_links_frames:
  "keeps (\<lambda>d. av_links (db_account d) = L) NewID"
  "keeps (\<lambda>d. av_links (db_account d) = L) (swrite (q_InsertSession x))"
  "keeps (\<lambda>d. av_links (db_account d) = L) (swrite (q_RevokeSession h at))"
  "keeps (\<lambda>d. av_links (db_account d) = L) (swrite (q_RecordSessionEvent r))"
  "keeps (\<lambda>d. av_links (db_account d) = L) (swrite (q_BindAnalyticsJourney i h))"
  "keeps (\<lambda>d. av_links (db_account d) = L) (swrite (q_BindDonorCompanyCode i h))"
  "keeps (\<lambda>d. av_links (db_account d) = L) (swrite (q_UpsertEmployeeLink i h at))"
  "keeps (\<lambda>d. av_links (db_account d) = L) (swrite (q_MarkClaimed i at))"
  "keeps (\<lambda>d. av_links (db_account d) = L) (swrite (q_MarkPasswordReauthenticated h at))"
proof -
  show "keeps (\<lambda>d. av_links (db_account d) = L) NewID" by (rule keepsI) auto
  show "keeps (\<lambda>d. av_links (db_account d) = L) (swrite (q_InsertSession x))"
    by (rule keeps_write) (auto dest!: q_InsertSession_Inr(1) simp: with_sessions_def)
qed (rule keeps_write, auto simp: q_RevokeSession_def q_RecordSessionEvent_def with_sessions_def
    q_BindAnalyticsJourney_def q_BindDonorCompanyCode_def q_UpsertEmployeeLink_def q_MarkClaimed_def
    q_MarkPasswordReauthenticated_def rbind_eq_Inr Let_def split: if_splits)+

interpretation links_refresh: refresh_writes "\<lambda>d. av_links (db_account d) = L" "TYPE('g)" for L
proof unfold_locales
  show "keeps (\<lambda>d. av_links (db_account d) = L) (supdate (q_EarnBadge ebr) :: ('g, int) tx)" for ebr
    by (rule keeps_update_rows) (auto simp: q_EarnBadge_def Let_def split: if_splits)
  show "keeps (\<lambda>d. av_links (db_account d) = L) (supdate (q_ApplyReferralDelta i x) :: ('g, int \<times> int) tx)" for i x
    by (rule keeps_update_rows) (auto simp: q_ApplyReferralDelta_def rbind_eq_Inr Let_def split: if_splits)
qed (rule keeps_links_frames | auto intro!: keeps_write simp: q_InsertObservedEvent_def q_QueueBadgePush_def put_message_def put_push_def
    q_SaveRetentionMilestone_def q_InsertReferralCorrection_def q_SeedProjection_def q_SaveProjection_def
    q_DeferProjection_def rbind_eq_Inr Let_def split: if_splits list.splits)+

lemma keeps_links_issue: "keeps (\<lambda>d. av_links (db_account d) = L) (issueSession env donor client dbnow now)"
  unfolding issueSession_def new_session_def refreshToken_def randomToken_def sessionEvent_def bindCompanyCode_def Let_def
  by (intro keeps_rules keeps_links_frames)

lemma redeemed_Inr:
  "(case r of Inl e \<Rightarrow> sfail (g e) | Inr a \<Rightarrow> sreturn ()) s = (Inr b, t) \<longleftrightarrow> (\<exists>a. r = Inr a) \<and> t = s"
  by (cases r) auto

text \<open>The links after a proof was redeemed: the proof's own and every other one of the donor are consumed.\<close>

definition spent :: "link_row \<Rightarrow> time \<Rightarrow> link_row list \<Rightarrow> link_row list" where
  "spent link now ls = update_rows (\<lambda>l. lk_donor l = lk_donor link \<and> lk_consumed l = None) (\<lambda>l. l\<lparr>lk_consumed := Some now\<rparr>)
     (update_rows (\<lambda>l. lk_id l = lk_id link \<and> lk_consumed l = None \<and> lk_expires l > now) (\<lambda>l. l\<lparr>lk_consumed := Some now\<rparr>) ls)"

lemma redeem_proof_links:
  assumes "redeem_proof env presented now s = (Inr donor, t)"
  obtains link where "q_LoginLink (ae_Hash env presented) (st_db s) = Inr link"
    and "av_links (db_account (st_db t)) = spent link now (av_links (db_account (st_db s)))"
proof -
  obtain link e u d d' where "no_rows_ok (q_LoginLink (ae_Hash env presented) (st_db s)) = Inr (Some link)"
    and "q_LockDonor (lk_donor link) (st_db s) = Inr donor" and "supdate (q_RedeemLoginLink (lk_id link) now) s = (Inr e, u)"
    and "q_ConsumeDonorLinks (don_id donor) now (st_db u) = Inr d" and "q_MarkClaimed (don_id donor) now d = Inr d'" and "t = u\<lparr>st_db := d'\<rparr>"
    using assms unfolding redeem_proof_def
    by (elim sbindE) (auto simp: stry_Inr redeemed_Inr simp del: supdate_Inr elim!: sbindE split: option.splits)
  moreover from this have "don_id donor = lk_donor link" by (auto simp: q_LockDonor_def dest: one_row_in)
  ultimately show thesis
    using that by (auto simp: no_rows_ok_def q_ConsumeDonorLinks_def q_MarkClaimed_def q_RedeemLoginLink_def Let_def with_links_def spent_def
      split: sum.splits if_splits)
qed

lemma spent_link:
  assumes "find (\<lambda>l. lk_hash l = h) ls = Some link"
  shows "\<exists>l. find (\<lambda>l. lk_hash l = h) (spent link now ls) = Some l \<and> lk_id l = lk_id link \<and> lk_donor l = lk_donor link"
  using assms by (simp add: spent_def find_update_rows)

lemma spent_closed:
  assumes "l \<in> set (spent link now ls)"
  shows "lk_donor l = lk_donor link \<Longrightarrow> lk_consumed l \<noteq> None"
    and "lk_id l = lk_id link \<Longrightarrow> lk_consumed l = None \<Longrightarrow> lk_expires l \<le> now"
  using assms by (auto simp: spent_def set_update_rows)

text \<open>
  C39. A sign-in proof is spent once: after an account was claimed with it, every link of its
  donor is consumed, and claiming with it again, from wherever and at any later time, fails.
\<close>

theorem ClaimAccount_single_use:
  assumes run: "ClaimAccount env rt presented previous client dbnow now after s = (Inr tokens, t)" and "now \<le> later"
  shows "(\<exists>link. q_LoginLink (ae_Hash env presented) (st_db t) = Inr link \<and>
      (\<forall>l \<in> set (av_links (db_account (st_db t))). lk_donor l = lk_donor link \<longrightarrow> lk_consumed l \<noteq> None)) \<and>
    (\<exists>e. fst (ClaimAccount env rt' presented previous' client' dbnow' later after' t) = Inl e)"
proof -
  from run obtain donor u v p w x y where redeem: "redeem_proof env presented now s = (Inr donor, u)"
    and issue: "issueSession env (don_id donor) client dbnow now u = (Inr tokens, v)"
    and mark: "swrite (q_MarkPasswordReauthenticated (ae_Hash env (tk_Access tokens)) now) v = (Inr (), w)"
    and refresh: "refreshProjection rt (don_id donor) after w = (Inr p, x)"
    and revoke: "swrite (q_RevokeSession (ae_Hash env previous) after) x = (Inr y, t)"
    unfolding ClaimAccount_def claim_def BeginFunc_cases by (auto elim!: sbindE simp del: swrite_Inr)
  obtain link where found: "q_LoginLink (ae_Hash env presented) (st_db s) = Inr link"
    and "av_links (db_account (st_db u)) = spent link now (av_links (db_account (st_db s)))"
    by (rule redeem_proof_links[OF redeem])
  then have t: "av_links (db_account (st_db t)) = spent link now (av_links (db_account (st_db s)))"
    using keepsD[OF keeps_links_issue refl issue] keepsD[OF keeps_links_frames(9) refl mark]
      keepsD[OF links_refresh.keeps_refreshProjection refl refresh] keepsD[OF keeps_links_frames(3) refl revoke] by simp
  then obtain l where l: "q_LoginLink (ae_Hash env presented) (st_db t) = Inr l" "lk_id l = lk_id link" "lk_donor l = lk_donor link"
    using spent_link found by (fastforce simp: q_LoginLink_def one_row_Inr)
  have closed: "q_RedeemLoginLink (lk_id l) later (st_db t) = Inl ErrNoRows"
    using spent_closed(2)[of _ link now] assms(2) l(2) t by (fastforce simp: q_RedeemLoginLink_def list_ex_iff)
  have "\<exists>e. fst (redeem_proof env presented later t) = Inl e"
    using l(1) closed by (simp add: redeem_proof_def sbind_def sread_def no_rows_ok_def stry_def supdate_def sguard_def sfail_def sreturn_def split: sum.splits)
  then have "\<exists>e. fst (ClaimAccount env rt' presented previous' client' dbnow' later after' t) = Inl e"
    by (auto simp: ClaimAccount_def claim_def BeginFunc_def sbind_def split: prod.splits)
  then show ?thesis using l t spent_closed(1) by metis
qed

definition sample_link :: link_row where
  "sample_link = \<lparr>lk_id = ''l'', lk_donor = ''d1'', lk_hash = ''#p'', lk_expires = of_unix 2000, lk_consumed = None\<rparr>"

definition sample_invited :: "unit st" where
  "sample_invited = sample_account_st\<lparr>st_db := (st_db sample_account_st)\<lparr>db_account := empty_account\<lparr>av_links := [sample_link]\<rparr>\<rparr>\<rparr>"

abbreviation sample_browser :: Client where "sample_browser \<equiv> sample_app\<lparr>ci_App := False, ci_Platform := []\<rparr>"

definition sample_claimed :: "unit st" where
  "sample_claimed = sample_account_st\<lparr>st_db := (st_db sample_account_st)\<lparr>db_ids := map (\<lambda>c. [c]) ''defghijklmnop'',
     db_donors := [sample_donor_row\<lparr>don_claimed_at := Some (of_unix 1300)\<rparr>],
     db_rec := empty_rec\<lparr>rt_sessions := [\<lparr>se_id = ''a'', se_donor = ''d1'', se_hash = ''#b'', se_expires = of_unix 1300 + browserLifetime,
       se_refresh = None, se_revoked = None, se_used = of_unix 1300, se_push = None, se_client = ''BROWSER'', se_device = None, se_platform = None,
       se_created = of_unix 1300, se_family = None, se_current = None, se_previous = None, se_refreshed = None, se_verified = Some (of_unix 1300)\<rparr>]\<rparr>,
     db_account := empty_account\<lparr>av_links := [sample_link\<lparr>lk_consumed := Some (of_unix 1300)\<rparr>],
       av_events := [\<lparr>sv_id = ''c'', sv_donor = ''d1'', sv_session = ''a'', sv_action = ''SIGNED_IN''\<rparr>]\<rparr>\<rparr>\<rparr>"

lemma sample_claims:
  "claim sample_account ''p'' sample_browser (of_unix 1300) (of_unix 1300) sample_invited =
    (Inr (\<lparr>tk_Access = ''b'', tk_AccessTTL = browserLifetime, tk_Refresh = [], tk_RefreshTTL = 0\<rparr>, sample_donor_row), sample_claimed)"
  by (simp add: sample_eval sample_claimed_def sample_invited_def sample_link_def claim_def redeem_proof_def q_LoginLink_def q_LockDonor_def
    stry_def supdate_def q_RedeemLoginLink_def q_ConsumeDonorLinks_def q_MarkClaimed_def q_MarkPasswordReauthenticated_def with_links_def
    browserLifetime_def of_unix_def)

lemma sample_projects: "\<exists>p x. refreshProjection sample_runtime ''d1'' (of_unix 1300) sample_claimed = (Inr p, x)"
proof -
  have "map_sum id (\<lambda>_. ()) (fst (refreshProjection sample_runtime ''d1'' (of_unix 1300) sample_claimed)) = Inr ()" by code_simp
  then show ?thesis by (cases "refreshProjection sample_runtime ''d1'' (of_unix 1300) sample_claimed"; cases "fst (refreshProjection sample_runtime ''d1'' (of_unix 1300) sample_claimed)") auto
qed

lemma of_unix_1400: "of_unix 1300 \<le> of_unix 1400"
  by (simp add: of_unix_def Second_def)

theorem ClaimAccount_single_use_witness:
  "\<exists>tokens e. fst (ClaimAccount sample_account sample_runtime ''p'' [] sample_browser (of_unix 1300) (of_unix 1300) (of_unix 1300) sample_invited) = Inr tokens \<and>
    fst (ClaimAccount sample_account sample_runtime ''p'' [] sample_app (of_unix 1400) (of_unix 1400) (of_unix 1400)
      (snd (ClaimAccount sample_account sample_runtime ''p'' [] sample_browser (of_unix 1300) (of_unix 1300) (of_unix 1300) sample_invited))) = Inl e"
proof -
  obtain p x where x: "refreshProjection sample_runtime ''d1'' (of_unix 1300) sample_claimed = (Inr p, x)" using sample_projects by blast
  have "\<exists>tokens t. ClaimAccount sample_account sample_runtime ''p'' [] sample_browser (of_unix 1300) (of_unix 1300) (of_unix 1300) sample_invited = (Inr tokens, t)"
    using sample_claims x by (simp add: ClaimAccount_def BeginFunc_def sbind_def swrite_def q_RevokeSession_def sample_donor_row_def sreturn_def)
  then obtain tokens t where run: "ClaimAccount sample_account sample_runtime ''p'' [] sample_browser (of_unix 1300) (of_unix 1300) (of_unix 1300) sample_invited = (Inr tokens, t)"
    by blast
  have "\<exists>e. fst (ClaimAccount sample_account sample_runtime ''p'' [] sample_app (of_unix 1400) (of_unix 1400) (of_unix 1400) t) = Inl e"
    using ClaimAccount_single_use[OF run, of "of_unix 1400"] by (metis of_unix_1400)
  then show ?thesis using run by auto
qed

end
