(* ===== verification/Whole_System.thy ===== *)
theory Whole_System
  imports Deployment Sessions
begin

text \<open>
  The whole deployment on one database: every part of the program that writes gifts, billing
  periods, refunds, projections, events or places takes its own step, and everything else leaves
  these tables alone. The invariants of the parts hold together in every state it reaches.
\<close>

record 'g deployment =
  dp_worker :: "'g EventWorker"
  dp_scan :: "string \<Rightarrow> string option"
  dp_reversals :: "'g ReversalGateway option"
  dp_env :: event_env
  dp_account :: account_env
  dp_runtime :: runtime

text \<open>What the invariants read: the ledger, the projections up to when they are due, events and places.\<close>

definition quiet_of :: "db \<Rightarrow> (gift_row list \<times> period_row list \<times> refund_row list) \<times> projection_row list \<times> donor_event_row list \<times> place_row list" where
  "quiet_of d = ((db_gifts d, db_periods d, db_refunds d), map (\<lambda>r. r\<lparr>mp_next := 0\<rparr>) (db_projections d), events d, places d)"

text \<open>
  The states a deployment reaches by \<open>now\<close>, from an empty ledger without projections and places.
  The ledger and the projections are written by

    \<^item> the payment worker (\<open>process\<close>: worker.go), which the processor's events reach by \<open>deliver\<close>
      and \<open>retry\<close>;
    \<^item> a refund that staff command and then observe at the processor (\<open>refund\<close>: admin_finance.go,
      which records what the processor answers, whatever it is, on a gift of the ledger);
    \<^item> a donor's projection recomputed (\<open>recompute\<close>): by staff after a refund, on request or after
      a streak reset (admin_finance.go, admin_recognition.go), when a donor's subscription is read
      or cancelled (recurring.go) and when its anchor is backfilled (anchor_backfill.go);
    \<^item> the worker of due projections (\<open>refresh\<close>: outbox.go);
    \<^item> a claimed account (\<open>claim_account\<close>: account.go) and a new donor at checkout (\<open>seed\<close>: checkout.go),

  and events and places by the steps of \<open>booking_step\<close>. Statements of one transaction are steps
  of their own here where the transaction has others beside them: what commits is a sequence of
  steps, and what does not commit is none. \<open>elsewhere\<close> is every other statement: it may
  reschedule a projection, but no other file of the program writes more of these tables.
\<close>

inductive system :: "'g deployment \<Rightarrow> time \<Rightarrow> 'g st \<Rightarrow> bool" for D where
  start: "db_gifts (st_db s) = [] \<Longrightarrow> db_periods (st_db s) = [] \<Longrightarrow> db_refunds (st_db s) = [] \<Longrightarrow> db_projections (st_db s) = [] \<Longrightarrow>
    places (st_db s) = [] \<Longrightarrow> distinct (map en_id (events (st_db s))) \<Longrightarrow> system D now s"
| deliver: "system D now s \<Longrightarrow> SaveVerifiedEvent at event s = (Inr u, t) \<Longrightarrow> system D now t"
| process: "system D now s \<Longrightarrow> ProcessNext (dp_worker D) (dp_scan D) (recompute (dp_runtime D)) dbnow locked at s = (Inr b, t) \<Longrightarrow>
    system D now t"
| retry: "system D now s \<Longrightarrow> swrite (q_RetryStripeEvent at stripe) s = (Inr u, t) \<Longrightarrow> system D now t"
| refund: "system D now s \<Longrightarrow> gift \<in> set (db_gifts (st_db s)) \<Longrightarrow> recordRefund gift current event command at s = (Inr u, t) \<Longrightarrow>
    system D now t"
| recompute: "system D now s \<Longrightarrow> refreshProjection (dp_runtime D) donor at s = (Inr p, t) \<Longrightarrow> system D now t"
| seed: "system D now s \<Longrightarrow> seedProjection donor at s = (Inr u, t) \<Longrightarrow> system D now t"
| claim_account: "system D now s \<Longrightarrow> ClaimAccount (dp_account D) (dp_runtime D) presented previous client dbnow at after s = (Inr tokens, t) \<Longrightarrow>
    system D now t"
| reverse: "system D now s \<Longrightarrow> RunNext (dp_reversals D) locked at s = (Inr b, t) \<Longrightarrow> system D now t"
| refresh: "system D now s \<Longrightarrow> RefreshDueProjections (dp_runtime D) locked at batch s = (Inr n, t) \<Longrightarrow> system D now t"
| book: "system D now s \<Longrightarrow> booking_step (dp_env D) (dp_runtime D) at s t \<Longrightarrow> at \<le> now \<Longrightarrow> system D now t"
| later: "system D now s \<Longrightarrow> now \<le> now' \<Longrightarrow> system D now' s"
| elsewhere: "system D now s \<Longrightarrow> quiet_of (st_db t) = quiet_of (st_db s) \<Longrightarrow> system D now t"

section \<open>The invariant\<close>

definition sound :: "time \<Rightarrow> db \<Rightarrow> bool" where
  "sound now d \<longleftrightarrow> ledger_ok d \<and> totals_ok (db_projections d) \<and> places_ok d \<and> no_idle now d"

lemma totals_ok_due:
  assumes "map (\<lambda>r. r\<lparr>mp_next := 0\<rparr>) rows' = map (\<lambda>r. r\<lparr>mp_next := 0\<rparr>) rows"
  shows "totals_ok rows' = totals_ok rows"
  using totals_ok_next[of rows] totals_ok_next[of rows'] by (simp only: assms)

lemma no_idle_places: "events d' = events d \<Longrightarrow> places d' = places d \<Longrightarrow> no_idle now d' = no_idle now d"
  by (simp add: no_idle_def full_def seated_def waiting_def)

lemma sound_quiet:
  assumes "quiet_of d' = quiet_of d"
  shows "sound now d' = sound now d"
proof -
  have e: "events d' = events d" and p: "places d' = places d" and "same_ledger d d'"
    and rows: "map (\<lambda>r. r\<lparr>mp_next := 0\<rparr>) (db_projections d') = map (\<lambda>r. r\<lparr>mp_next := 0\<rparr>) (db_projections d)"
    using assms by (simp_all only: quiet_of_def prod.inject same_ledger_def)
  then show ?thesis
    by (simp only: sound_def ledger_ok_same[OF \<open>same_ledger d d'\<close>] totals_ok_due[OF rows] no_idle_places[OF e p] places_ok_def)
qed

lemma keeps_soundI:
  assumes "keeps ledger_ok m" and "keeps (\<lambda>d. totals_ok (db_projections d)) m" and "\<And>C. keeps (\<lambda>d. db_community d = C) m"
  shows "keeps (sound now) m"
proof (rule keepsI)
  fix s a t assume ok: "sound now (st_db s)" and run: "m s = (Inr a, t)"
  have c: "db_community (st_db t) = db_community (st_db s)" by (rule keepsD[OF assms(3) refl run])
  have "ledger_ok (st_db t)" "totals_ok (db_projections (st_db t))"
    using keepsD[OF assms(1) _ run] keepsD[OF assms(2) _ run] ok by (simp_all add: sound_def)
  then show "sound now (st_db t)" using ok places_ok_from[OF c] no_idle_places[of "st_db t" "st_db s"] c by (simp add: sound_def)
qed

lemma keeps_sound_quiet:
  assumes "\<And>X. keeps (\<lambda>d. quiet_of d = X) m"
  shows "keeps (sound now) m"
  by (rule keepsI) (use sound_quiet keepsD[OF assms refl] in blast)

section \<open>What each step keeps\<close>

lemma keeps_process:
  assumes "\<And>donor now. keeps P (recompute rt donor now :: ('g, unit) tx)" and "worker_calls TYPE('g) P"
    and "\<And>i. keeps P (swrite (q_IncrementEventAttempt i) :: ('g, unit) tx)"
    and "\<And>a i v. keeps P (swrite (q_FailStripeEvent a i v) :: ('g, unit) tx)"
    and "\<And>i a. keeps P (swrite (q_CompleteStripeEvent i a) :: ('g, unit) tx)"
  shows "keeps P (ProcessNext w scan (recompute rt) dbnow locked at :: ('g, bool) tx)"
  unfolding ProcessNext_def by (intro keeps_rules worker_calls.keeps_applyEvent[OF assms(2)] assms)

lemma keeps_attempts:
  assumes "\<And>d rows. P (d\<lparr>db_events := rows\<rparr>) = P d"
  shows "keeps P (swrite (q_IncrementEventAttempt i))" "keeps P (swrite (q_FailStripeEvent a i v))"
    "keeps P (swrite (q_CompleteStripeEvent i a))"
  by (rule keeps_write; auto simp: q_IncrementEventAttempt_def q_FailStripeEvent_def q_CompleteStripeEvent_def assms)+

lemma ledger_ok_events: "ledger_ok (d\<lparr>db_events := rows\<rparr>) = ledger_ok d"
  by (rule ledger_ok_same) (simp add: same_ledger_def)

lemmas keeps_processes =
  keeps_process[OF keeps_recompute(1) ledger_worker.worker_calls_axioms keeps_attempts[of ledger_ok, OF ledger_ok_events]]
  keeps_process[OF keeps_recompute(4) totals_worker.worker_calls_axioms keeps_attempts[of "\<lambda>d. totals_ok (db_projections d)"]]
  keeps_process[OF keeps_recompute(2) community_worker.worker_calls_axioms keeps_attempts[of "\<lambda>d. db_community d = C" for C]]

lemma keeps_sound_process: "keeps (sound now) (ProcessNext w scan (recompute rt) dbnow locked at)"
  by (rule keeps_soundI[OF keeps_processes]) simp_all

lemma keeps_sound_batch: "keeps (sound now) (RefreshDueProjections rt locked at batch)"
  by (rule keeps_soundI[OF keeps_batch(1,4,2)])

lemma keeps_sound_refresh: "keeps (sound now) (refreshProjection rt donor at)"
  by (rule keeps_soundI[OF keeps_refresh_facts(1)[OF facts_refresh.keeps_refreshProjection] totals_refresh.keeps_refreshProjection
    keeps_refresh_facts(2)[OF facts_refresh.keeps_refreshProjection]])

text \<open>A seeded row names nobody and holds nothing.\<close>

lemma keeps_sound_seed: "keeps (sound now) (seedProjection donor at)"
proof (rule keepsI)
  fix s u t assume ok: "sound now (st_db s)" and run: "seedProjection donor at s = (Inr u, t)"
  obtain i ids where seed: "q_SeedProjection i donor at ((st_db s)\<lparr>db_ids := ids\<rparr>) = Inr (st_db t)"
    using run by (auto simp: seedProjection_def sbind_Inr)
  have "totals_ok (db_projections (st_db t))"
    using ok seed_totals(1,2)[OF seed] seed_totals(3,5)[OF seed, of 0] by (auto simp: sound_def totals_ok_def)
  moreover have "same_ledger (st_db s) (st_db t)" "db_community (st_db t) = db_community (st_db s)"
    using seed by (auto simp: q_SeedProjection_def same_ledger_def split: if_splits dest!: sym[of _ "st_db t"])
  ultimately show "sound now (st_db t)"
    using ok ledger_ok_same[of "st_db s" "st_db t"] places_ok_from[of "st_db t" "st_db s"] no_idle_places[of "st_db t" "st_db s"]
    by (simp add: sound_def)
qed

lemma sound_refund:
  assumes ok: "sound now (st_db s)" and "gift \<in> set (db_gifts (st_db s))" and run: "recordRefund gift current event command at s = (Inr u, t)"
  shows "sound now (st_db t)"
proof -
  have beside: "beside_of (st_db t) = beside_of (st_db s)" by (rule keepsD[OF keeps_beside_records(3) refl run])
  have "ledger_ok (st_db t)" using recordRefund_ledger[OF run] ok assms(2) by (simp add: sound_def)
  then show ?thesis
    using ok beside_of_eq[OF beside] places_ok_from[OF beside_of_eq(1)[OF beside]] no_idle_places[of "st_db t" "st_db s"]
    by (simp add: sound_def)
qed

lemma keeps_quiet_account:
  "keeps (\<lambda>d. quiet_of d = X) NewID"
  "keeps (\<lambda>d. quiet_of d = X) (swrite (q_InsertSession x))"
  "keeps (\<lambda>d. quiet_of d = X) (swrite (q_RevokeSession h at))"
  "keeps (\<lambda>d. quiet_of d = X) (swrite (q_RecordSessionEvent r))"
  "keeps (\<lambda>d. quiet_of d = X) (swrite (q_BindAnalyticsJourney i h))"
  "keeps (\<lambda>d. quiet_of d = X) (swrite (q_BindDonorCompanyCode i h))"
  "keeps (\<lambda>d. quiet_of d = X) (swrite (q_UpsertEmployeeLink i h at))"
  "keeps (\<lambda>d. quiet_of d = X) (swrite (q_MarkClaimed i at))"
  "keeps (\<lambda>d. quiet_of d = X) (swrite (q_MarkPasswordReauthenticated h at))"
  "keeps (\<lambda>d. quiet_of d = X) (swrite (q_ConsumeDonorLinks i at))"
  "keeps (\<lambda>d. quiet_of d = X) (stry (supdate (q_RedeemLoginLink i at)))"
proof -
  show "keeps (\<lambda>d. quiet_of d = X) NewID" by (rule keepsI) (auto simp: quiet_of_def)
  show "keeps (\<lambda>d. quiet_of d = X) (swrite (q_InsertSession x))"
    by (rule keeps_write) (auto dest!: q_InsertSession_Inr(1) simp: with_sessions_def quiet_of_def)
  have "quiet_of d' = quiet_of d" if "q_RedeemLoginLink i at d = Inr (a, d')" for d a d'
    using that by (auto simp: q_RedeemLoginLink_def with_links_def quiet_of_def Let_def split: if_splits)
  then show "keeps (\<lambda>d. quiet_of d = X) (stry (supdate (q_RedeemLoginLink i at)))"
    by (intro keepsI) (auto simp: stry_Inr supdate_def split: sum.splits)
qed (rule keeps_write, auto simp: q_RevokeSession_def q_RecordSessionEvent_def with_sessions_def with_links_def q_ConsumeDonorLinks_def
    q_BindAnalyticsJourney_def q_BindDonorCompanyCode_def q_UpsertEmployeeLink_def q_MarkClaimed_def
    q_MarkPasswordReauthenticated_def quiet_of_def rbind_eq_Inr Let_def split: if_splits)+

lemma keeps_quiet_claim: "keeps (\<lambda>d. quiet_of d = X) (claim env presented client dbnow at)"
  unfolding claim_def redeem_proof_def issueSession_def new_session_def refreshToken_def randomToken_def sessionEvent_def
    bindCompanyCode_def Let_def
  by (intro keeps_rules keeps_quiet_account)

lemma keeps_sound_claim: "keeps (sound now) (ClaimAccount env rt presented previous client dbnow at after)"
  unfolding ClaimAccount_def
  by (intro keeps_rules keeps_sound_quiet[OF keeps_quiet_claim] keeps_sound_refresh keeps_sound_quiet[OF keeps_quiet_account(3)])

lemma keeps_quiet_inbox:
  "keeps (\<lambda>d. quiet_of d = X) (SaveVerifiedEvent at event)"
  "keeps (\<lambda>d. quiet_of d = X) (swrite (q_RetryStripeEvent at stripe))"
proof -
  have "keeps (\<lambda>d. quiet_of d = X) (swrite (q_InsertStripeEvent r))" for r
    by (rule keeps_write) (auto simp: q_InsertStripeEvent_def quiet_of_def rbind_eq_Inr)
  then show "keeps (\<lambda>d. quiet_of d = X) (SaveVerifiedEvent at event)"
    unfolding SaveVerifiedEvent_def by (intro keeps_rules keeps_quiet_account(1))
  show "keeps (\<lambda>d. quiet_of d = X) (swrite (q_RetryStripeEvent at stripe))"
    by (rule keeps_write) (auto simp: q_RetryStripeEvent_def quiet_of_def)
qed

lemma RunNext_quiet: "RunNext gateway locked at s = (Inr b, t) \<Longrightarrow> quiet_of (st_db t) = quiet_of (st_db s)"
  by (erule RunNext_Inr) (simp_all add: quiet_of_def)

lemma booking_step_sound:
  assumes "booking_step env rt at s t" and "at \<le> now" and "sound now (st_db s)"
  shows "sound now (st_db t)"
proof -
  have "places_ok (st_db t) \<and> no_idle now (st_db t)"
    using booking_step_ok[OF assms(1) _ assms(2)] assms(3) by (simp add: sound_def booking_ok_def)
  moreover have "ledger_ok (st_db t)" "totals_ok (db_projections (st_db t))"
    using core_of_eq[OF booking_step_core[OF assms(1)]] assms(3) by (simp_all add: sound_def ledger_ok_same)
  ultimately show ?thesis by (simp add: sound_def)
qed

lemma totals_ok_empty: "totals_ok []"
  by (simp add: totals_ok_def credited_def held_by_def)

lemma system_sound: "system D now s \<Longrightarrow> sound now (st_db s)"
proof (induction rule: system.induct)
  case (start s now)
  then show ?case
    by (simp add: sound_def ledger_ok_def gifts_ok_def periods_ok_def refunds_ok_def totals_ok_empty places_ok_def no_idle_def waiting_def)
next
  case (deliver now s at event u t)
  show ?case by (rule keepsD[OF keeps_sound_quiet[OF keeps_quiet_inbox(1)] deliver(3,2)])
next
  case (process now s dbnow locked at b t)
  show ?case by (rule keepsD[OF keeps_sound_process process(3,2)])
next
  case (retry now s at stripe u t)
  show ?case by (rule keepsD[OF keeps_sound_quiet[OF keeps_quiet_inbox(2)] retry(3,2)])
next
  case (refund now s gift current event command at u t)
  show ?case by (rule sound_refund[OF refund(4,2,3)])
next
  case (recompute now s donor at p t)
  show ?case by (rule keepsD[OF keeps_sound_refresh recompute(3,2)])
next
  case (seed now s donor at u t)
  show ?case by (rule keepsD[OF keeps_sound_seed seed(3,2)])
next
  case (claim_account now s presented previous client dbnow at after tokens t)
  show ?case by (rule keepsD[OF keeps_sound_claim claim_account(3,2)])
next
  case (reverse now s locked at b t)
  then show ?case using sound_quiet[OF RunNext_quiet] by blast
next
  case (refresh now s locked at batch n t)
  show ?case by (rule keepsD[OF keeps_sound_batch refresh(3,2)])
next
  case (book now s at t)
  then show ?case using booking_step_sound by blast
next
  case (later now s now')
  then show ?case by (auto simp: sound_def no_idle_def)
next
  case (elsewhere now s t)
  then show ?case using sound_quiet by blast
qed

end
