(* ===== verification/Spec2Isabelle.thy ===== *)
theory Spec2Isabelle
  imports Badges Webhook Reconcile Whole_System
begin

text \<open>
  ImpactGraph's donor API (apps/donor-api, Go over PostgreSQL) takes recurring gifts through a
  hosted checkout at Stripe, records what the processor reports in a ledger, computes each donor's
  recognition (net giving, streak, founding award, badges, referral credit) from it, and runs
  accounts, events and notices around that. This development models its core: the pure packages,
  the database transactions that carry money and recognition, and their interplay on one database.

  \<^bold>\<open>How the parts interact.\<close> The webhook boundary authenticates an event and stores it in the inbox.
  The payment worker takes due events one by one, reads the processor, and writes subscriptions,
  billing periods, gifts and refunds inside a savepoint; a failure rolls the event's work back and
  schedules another try. After each event it recomputes the projection of the donor: the facts are
  read from the ledger, the recognition package computes what they come to, the row is saved with
  the referrers' totals adjusted, and notices and badges follow. A second worker recomputes
  projections when they are due, a third reverses payments of deleted accounts. Donors and staff
  act through authenticated transactions; their sessions are issued for sign-in proofs and kept
  alive by refresh tokens. A daily job compares the ledger with the processor.

  \<^bold>\<open>Theories, in the order they build on each other\<close> (paths below internal/).

    \<^item> \<open>Go_Prelude\<close>, \<open>Go_Time\<close>, \<open>Go_Calendar\<close>: integers of 64 bits, strings and case folding, maps, the loop
      that drops duplicate facts; \<open>time.Time\<close> as an instant in nanoseconds, \<open>time.Location\<close> as a table
      of offset changes, civil dates, \<open>AddDate\<close>. A location whose changes never skip a midnight has a
      midnight every day (\<open>calm_midnight\<close>); New York is one.
    \<^item> \<open>Recognition\<close>, \<open>Giving_Streak\<close> (recognition/recognition.go): the net amount of gifts, referral
      relationships, the founding award, the streak loop and the ladder, each with a reference the
      optimised loop is proved equal to.
    \<^item> \<open>Badges\<close> (badges/badges.go, store/recognition_rules.go): the catalogue, the earn engine and the
      rules staff may configure.
    \<^item> \<open>Json_Facts\<close>, \<open>Webhook\<close> (payments/facts.go, webhook.go): the accessors of processor objects and
      the boundary that verifies an event and keeps an allowlist of it.
    \<^item> \<open>Reconcile\<close> (reconcile/reconcile.go): the daily windows and the comparison.
    \<^item> \<open>Credentials\<close>, \<open>Identity\<close> (credentials/credentials.go, identity/email.go, punycode.go): the canonical
      text of a checkout and the normalisation of addresses with its Punycode encoder.
    \<^item> \<open>Store_Tx\<close> and the \<open>Queries\<close> theories (store/store.go, tx.go, store/queries): the database as a record
      of tables, a transaction as a function from a state to an error or a result with the state after
      it, savepoints and rollback, and the statements, whose constraints raise the errors the code
      tells apart.
    \<^item> \<open>Subscriptions\<close>, \<open>Ledger\<close>, \<open>Payment_Methods\<close>, \<open>Event_Worker\<close>, \<open>Deleted_Accounts\<close> (store/subscriptions.go,
      worker.go, refunds.go, payment_methods.go, inbox.go, deleted_account_reversals.go).
    \<^item> \<open>Projection_Facts\<close>, \<open>Projection\<close>, \<open>Notices\<close> (store/financial.go, retention_milestones.go, outbox.go,
      referral_signals.go, badges.go, push.go): recomputing a donor's projection and what follows.
    \<^item> \<open>Access\<close>, \<open>Events\<close>, \<open>Event_Seats\<close>, \<open>Sessions\<close> (store/tx.go, staff.go, events.go, event_staff.go,
      event_alert_fanout.go, sessions.go, account.go).
    \<^item> \<open>Deployment\<close>, \<open>Whole_System\<close>: what each part leaves alone, and the step relation \<open>system\<close> of all
      writers of the ledger, the projections and the events, with the invariants that hold of it.

  \<^bold>\<open>Correspondence.\<close> Definitions keep the names of the Go functions; \<open>q_\<close> marks a statement of
  store/queries. A record is the struct or the row it is named after, \<open>None\<close> a NULL column. An error
  is an \<open>Inl\<close>. The processor is a record of functions on a world of its own, so every theorem holds
  for every behaviour of it, answers that change between two reads included. Identifiers come from
  a supply in the state (\<open>NewID\<close>), hashes, clocks, time zone names and rows locked by other
  transactions are arguments. A lock serialises: each transaction is one step, and only code that
  commits in between (the reversal worker, which calls the processor without a transaction) is split.

  \<^bold>\<open>What the lemmas show.\<close> Each component has its invariant and the proof that its operations keep it
  (\<open>ledger_ok\<close>, \<open>totals_ok\<close>, \<open>places_ok\<close> and \<open>no_idle\<close>, \<open>keys_ok\<close>, \<open>jobs_ok\<close>), collected in \<open>keeps_rules\<close>.
  Interfaces are locales: \<open>keyed_table\<close> for inserts under a unique key, \<open>fact_dedup\<close> for the loops that
  drop duplicates, \<open>worker_calls\<close> and \<open>worker_writes\<close> for what the payment worker does to the tables,
  \<open>beside_writes\<close>, \<open>projection_writes\<close>, \<open>notice_writes\<close> and \<open>refreshing\<close> for what a refresh does, and
  \<open>retry_queue\<close> for polled workers with a bounded number of attempts. Each is interpreted on the
  models, once per property it carries over.

  \<^bold>\<open>Bounds and fuel.\<close> Recursions end by measures: the seats still free, the code points still to encode,
  the attempts an event or reversal has left. Integers are unbounded where the code checks before
  it adds; the checks at the bounds of 64 and 32 bits (parsed numbers, the total of net gifts,
  saturating durations, integer columns, code points) are branches of the model.

  \<^bold>\<open>Not modelled.\<close> The HTTP layer, delivery of mail, pushes and messages, the cryptography of
  credentials and sign-in, the views and exports, the partner portal, initiatives, wallet passes,
  the schema and its roles, the web application and the ATM ledger: input and output, code of
  third parties, or queries that write none of the tables of the invariants. Beginning a checkout
  and the donor's commands on a subscription enter the model where they write those tables.
\<close>

section \<open>The whole deployment\<close>

definition sample_deployment :: "unit deployment" where
  "sample_deployment = \<lparr>dp_worker = sample_worker, dp_scan = Some, dp_reversals = None, dp_env = sample_env,
     dp_account = sample_account, dp_runtime = sample_runtime\<rparr>"

lemma sample_system_delivered: "system sample_deployment (of_unix 1300) sample_delivered"
proof -
  have "system sample_deployment (of_unix 1300) sample_start"
    by (rule system.start) (simp_all add: sample_start_def empty_db_def empty_community_def)
  then show ?thesis by (rule system.deliver[OF _ run_fst[OF sample_delivers], folded sample_delivered_def])
qed

lemma sample_system_worked: "system sample_deployment (of_unix 1300) sample_worked"
  by (rule system.process[OF sample_system_delivered, of "of_unix 1300" "[]" "of_unix 1300" True])
    (simp add: sample_deployment_def sample_works)

lemma sample_system_first: "system sample_deployment (of_unix 7000) sample_first"
proof -
  have "system sample_deployment (of_unix 7000) sample_event_st"
    by (rule system.start) (simp_all add: sample_event_st_def empty_db_def empty_community_def)
  moreover have "booking_step (dp_env sample_deployment) (dp_runtime sample_deployment) (of_unix 7000) sample_event_st sample_first"
    by (rule booking_step.reserve[OF run_fst[OF sample_reserved], folded sample_first_def])
  ultimately show ?thesis by (rule system.book) simp
qed

lemma sample_second_step:
  "booking_step (dp_env sample_deployment) (dp_runtime sample_deployment) (of_unix 7001) sample_first sample_second"
  by (rule booking_step.reserve[OF run_fst[OF sample_waitlisted], folded sample_second_def])


text \<open>
  C1. Whatever events the processor delivers, in whatever order and however often, whatever it
  answers when it is read, wherever a step fails, and whatever happens in between (refunds that
  staff command and observe, reversals, projections recomputed by the worker, by staff, by a
  donor's visit or by the backfill, accounts claimed, donors seeded, places booked, and anything
  that writes none of these tables), the ledger stays sound: keys are unique, every gift is positive, in
  dollars and not attributed to its own donor, every period spans 27 to 32 days, every refund
  belongs to a recorded gift, and the succeeded refunds of a gift never exceed it.
\<close>

theorem system_ledger_ok:
  assumes "system D now s"
  shows "gifts_ok (st_db s) \<and> periods_ok (st_db s) \<and> refunds_ok (st_db s)"
  using system_sound[OF assms] by (simp add: sound_def ledger_ok_def)

theorem system_ledger_ok_witness: "gifts_ok (st_db sample_worked) \<and> map gr_amount (db_gifts (st_db sample_worked)) = [500]"
  using system_ledger_ok[OF sample_system_worked] sample_worked_gifts by simp

text \<open>
  C2. The denormalised referral totals are exact after every transaction of every writer of
  projections (the payment worker, the worker of due projections, staff refunds, recomputations
  and streak resets, reads and cancellations of a subscription, the anchor backfill, a claimed
  account, a new donor at checkout): for every referrer, the numbers and amounts of link and
  in-person referrals on the referrer's row are those of the rows that name the referrer, whoever
  was recomputed in whatever order, and whatever failed on the way; a donor has one row and never
  refers to themselves.
\<close>

theorem system_totals_ok:
  assumes "system D now s"
  shows "distinct (map mp_donor (db_projections (st_db s))) \<and>
    (\<forall>k R. k < 4 \<longrightarrow> held_by k R (db_projections (st_db s)) = credited k R (db_projections (st_db s))) \<and>
    (\<forall>r. r \<in> set (db_projections (st_db s)) \<longrightarrow> mp_referrer r \<noteq> Some (mp_donor r))"
  using system_sound[OF assms] by (auto simp: sound_def totals_ok_def)

theorem system_totals_ok_witness:
  "held_by 2 ''d2'' (db_projections (st_db sample_worked)) = credited 2 ''d2'' (db_projections (st_db sample_worked)) \<and>
   map (\<lambda>r. (mp_donor r, mp_link_count r, mp_link_minor r)) (db_projections (st_db sample_worked)) = [(''d1'', 0, 0), (''d2'', 1, 500)]"
  using system_totals_ok[OF sample_system_worked] sample_worked_totals by simp



text \<open>
  C4. No step overbooks: from a state the deployment reaches, whatever a donor, staff or a
  worker does next, a limited event has afterwards no more seats taken than its capacity
  allows, or than it had already before (staff may lower the capacity of a booked event).
\<close>

theorem never_overbooked:
  assumes "system D now s" and "booking_step (dp_env D) (dp_runtime D) at s t" and "e \<in> set (events (st_db t))" and "en_capacity e > 0"
  shows "int (length (seated (en_id e) (st_db t))) \<le> max (int (length (seated (en_id e) (st_db s)))) (en_capacity e)"
  using booking_step_ok[OF assms(2) _ order_refl] system_sound[OF assms(1)] assms(3,4) by (auto simp: booking_ok_def sound_def)

theorem never_overbooked_witness: "int (length (seated ''e1'' (st_db sample_second))) \<le> 1"
proof -
  have e: "Event_Seats.sample_event \<in> set (events (st_db sample_second))" and c: "0 < en_capacity Event_Seats.sample_event" by code_simp+
  have o: "length (seated ''e1'' (st_db sample_first)) = 1" by code_simp
  show ?thesis using never_overbooked[OF sample_system_first sample_second_step e c] o by (simp add: Event_Seats.sample_event_def)
qed

section \<open>The inbox does not spin\<close>








end
